(* ===== verification/Taskd_Prelude.thy ===== *)
theory Taskd_Prelude
  imports Main "HOL-Library.Sublist"
begin

text \<open>
  Shared ground of the development: instants and durations, the error values of the Go code,
  the string functions of Go's standard library that the sources call, the list operations an
  SQL statement performs on the rows of a table, and the generic lemmas and collections the
  component theories use.
\<close>

named_theorems sql_simps \<open>unfolding rules for the row operations of SQL statements\<close>

section \<open>Instants and durations\<close>

text \<open>
  An instant is the number of microseconds since the zero value of Go's \<open>time.Time\<close>
  (January 1 of the year 1, UTC): microseconds are the resolution of \<open>TIMESTAMPTZ\<close>, so an
  instant survives being stored. The zero value itself is what \<open>IsZero\<close> recognises.
\<close>

type_synonym time = int
type_synonym duration = int

definition Microsecond :: duration where "Microsecond = 1"
definition Second :: duration where "Second = 1000000"
definition Minute :: duration where "Minute = 60000000"
definition Hour :: duration where "Hour = 3600000000"

definition zero_time :: time where "zero_time = 0"

definition IsZero :: "time \<Rightarrow> bool" where
  "IsZero t \<longleftrightarrow> t = zero_time"

lemmas duration_defs = Microsecond_def Second_def Minute_def Hour_def

section \<open>Errors\<close>

text \<open>
  The errors the code inspects (\<open>store.ErrNotFound\<close>, \<open>pgx.ErrNoRows\<close>, a
  \<open>pgconn.PgError\<close> with its code) are constructors of their own; every other error is
  the text \<open>err.Error()\<close> gives.
\<close>

datatype go_error =
    ErrNotFound
  | ErrNoRows
  | PgError string string
  | Errorf string

type_synonym 'a res = "go_error + 'a"

fun is_err :: "'a res \<Rightarrow> bool" where
  "is_err (Inl _) = True"
| "is_err (Inr _) = False"

section \<open>Strings\<close>

definition newline :: char where "newline = CHR 0x0A"

text \<open>\<open>strings.TrimSuffix\<close>, \<open>strings.Join\<close> and \<open>strings.Split\<close> for a one-byte separator.\<close>

definition TrimSuffix :: "string \<Rightarrow> string \<Rightarrow> string" where
  "TrimSuffix s suf = (if suffix suf s then take (length s - length suf) s else s)"

fun Join :: "string list \<Rightarrow> string \<Rightarrow> string" where
  "Join [] sep = []"
| "Join [x] sep = x"
| "Join (x # y # ys) sep = x @ sep @ Join (y # ys) sep"

fun Split :: "string \<Rightarrow> char \<Rightarrow> string list" where
  "Split [] c = [[]]"
| "Split (x # xs) c =
     (if x = c then [] # Split xs c
      else (case Split xs c of [] \<Rightarrow> [[x]] | p # ps \<Rightarrow> (x # p) # ps))"

text \<open>
  \<open>strings.TrimSpace\<close> removes the runes of \<open>unicode.IsSpace\<close> from both ends of a byte
  string; these are their UTF-8 encodings.
\<close>

definition space_runes :: "string list" where
  "space_runes =
     [[CHR 0x09], [CHR 0x0A], [CHR 0x0B], [CHR 0x0C], [CHR 0x0D], [CHR 0x20],
      [CHR 0xC2, CHR 0x85], [CHR 0xC2, CHR 0xA0], [CHR 0xE1, CHR 0x9A, CHR 0x80],
      [CHR 0xE2, CHR 0x80, CHR 0x80], [CHR 0xE2, CHR 0x80, CHR 0x81],
      [CHR 0xE2, CHR 0x80, CHR 0x82], [CHR 0xE2, CHR 0x80, CHR 0x83],
      [CHR 0xE2, CHR 0x80, CHR 0x84], [CHR 0xE2, CHR 0x80, CHR 0x85],
      [CHR 0xE2, CHR 0x80, CHR 0x86], [CHR 0xE2, CHR 0x80, CHR 0x87],
      [CHR 0xE2, CHR 0x80, CHR 0x88], [CHR 0xE2, CHR 0x80, CHR 0x89],
      [CHR 0xE2, CHR 0x80, CHR 0x8A], [CHR 0xE2, CHR 0x80, CHR 0xA8],
      [CHR 0xE2, CHR 0x80, CHR 0xA9], [CHR 0xE2, CHR 0x80, CHR 0xAF],
      [CHR 0xE2, CHR 0x81, CHR 0x9F], [CHR 0xE3, CHR 0x80, CHR 0x80]]"

function trim_front :: "string list \<Rightarrow> string \<Rightarrow> string" where
  "trim_front rs s =
     (case find (\<lambda>r. r \<noteq> [] \<and> prefix r s) rs of
        Some r \<Rightarrow> trim_front rs (drop (length r) s)
      | None \<Rightarrow> s)"
  by pat_completeness auto
termination
proof (relation "measure (\<lambda>(rs, s). length s)", simp)
  fix rs :: "string list" and s r
  assume "find (\<lambda>r. r \<noteq> [] \<and> prefix r s) rs = Some r"
  then have "r \<noteq> []" and "prefix r s"
    by (auto simp: find_Some_iff)
  then show "((rs, drop (length r) s), (rs, s)) \<in> measure (\<lambda>(rs, s). length s)"
    by (cases s) auto
qed

declare trim_front.simps [simp del]

definition TrimSpace :: "string \<Rightarrow> string" where
  "TrimSpace s =
     rev (trim_front (map rev space_runes) (rev (trim_front space_runes s)))"

text \<open>\<open>strings.TrimRight(s, cutset)\<close> for a cutset of one byte.\<close>

definition TrimRight1 :: "string \<Rightarrow> char \<Rightarrow> string" where
  "TrimRight1 s c = rev (dropWhile (\<lambda>x. x = c) (rev s))"

text \<open>\<open>strconv.Itoa\<close> and the \<open>%d\<close> verb.\<close>

fun digits_of :: "nat \<Rightarrow> string" where
  "digits_of n =
     (if n < 10 then [char_of (48 + n)] else digits_of (n div 10) @ [char_of (48 + n mod 10)])"

declare digits_of.simps [simp del]

definition Itoa :: "int \<Rightarrow> string" where
  "Itoa i = (if i < 0 then ''-'' @ digits_of (nat (- i)) else digits_of (nat i))"

text \<open>
  \<open>strconv.Quote\<close>, the \<open>%q\<close> verb: the escapes of quotes, backslashes and control
  characters; bytes of multi-byte runes stand for themselves, as printable runes do.
\<close>

definition hex_digit :: "nat \<Rightarrow> char" where
  "hex_digit n = (if n < 10 then char_of (48 + n) else char_of (87 + n))"

definition quote_char :: "char \<Rightarrow> string" where
  "quote_char c =
     (let n = (of_char c :: nat) in
      if n = 34 then [CHR 0x5C, CHR 0x22]
      else if n = 92 then [CHR 0x5C, CHR 0x5C]
      else if n = 7 then [CHR 0x5C, CHR ''a'']
      else if n = 8 then [CHR 0x5C, CHR ''b'']
      else if n = 12 then [CHR 0x5C, CHR ''f'']
      else if n = 10 then [CHR 0x5C, CHR ''n'']
      else if n = 13 then [CHR 0x5C, CHR ''r'']
      else if n = 9 then [CHR 0x5C, CHR ''t'']
      else if n = 11 then [CHR 0x5C, CHR ''v'']
      else if n < 32 \<or> n = 127 then
        [CHR 0x5C, CHR ''x'', hex_digit (n div 16), hex_digit (n mod 16)]
      else [c])"

definition Quote :: "string \<Rightarrow> string" where
  "Quote s = CHR 0x22 # concat (map quote_char s) @ [CHR 0x22]"

text \<open>\<open>err.Error()\<close>.\<close>

definition Error :: "go_error \<Rightarrow> string" where
  "Error e =
     (case e of
        ErrNotFound \<Rightarrow> ''not found''
      | ErrNoRows \<Rightarrow> ''no rows in result set''
      | PgError code msg \<Rightarrow> ''ERROR: '' @ msg @ '' (SQLSTATE '' @ code @ '')''
      | Errorf msg \<Rightarrow> msg)"

section \<open>What SQL statements do with the rows of a table\<close>

text \<open>
  A table is the list of its rows. \<open>UPDATE \<dots> SET f WHERE p\<close>, \<open>DELETE \<dots> WHERE p\<close> and
  \<open>ORDER BY k LIMIT n\<close>; rows with equal sort keys keep the table's order, which is one of
  the orders SQL allows.
\<close>

definition update_where :: "('r \<Rightarrow> bool) \<Rightarrow> ('r \<Rightarrow> 'r) \<Rightarrow> 'r list \<Rightarrow> 'r list" where
  "update_where p f rs = map (\<lambda>r. if p r then f r else r) rs"

definition delete_where :: "('r \<Rightarrow> bool) \<Rightarrow> 'r list \<Rightarrow> 'r list" where
  "delete_where p rs = filter (\<lambda>r. \<not> p r) rs"

definition order_by :: "('r \<Rightarrow> 'k::linorder) \<Rightarrow> 'r list \<Rightarrow> 'r list" where
  "order_by k rs = sort_key k rs"

text \<open>
  \<open>ORDER BY k DESC NULLS LAST\<close> on a nullable instant, and plain \<open>DESC\<close> on an instant:
  ascending on the negated key, NULL after every value.
\<close>

fun desc_nulls_last :: "time option \<Rightarrow> bool \<times> time" where
  "desc_nulls_last None = (True, 0)"
| "desc_nulls_last (Some t) = (False, - t)"

lemma update_where_length [simp]: "length (update_where p f rs) = length rs"
  by (simp add: update_where_def)

lemma update_where_Nil [simp]: "update_where p f [] = []"
  by (simp add: update_where_def)

lemma update_where_Cons [simp]:
  "update_where p f (r # rs) = (if p r then f r else r) # update_where p f rs"
  by (simp add: update_where_def)

lemma update_where_none: "(\<And>r. r \<in> set rs \<Longrightarrow> \<not> p r) \<Longrightarrow> update_where p f rs = rs"
  by (induction rs) auto

lemma map_update_where:
  "(\<And>r. p r \<Longrightarrow> k (f r) = k r) \<Longrightarrow> map k (update_where p f rs) = map k rs"
  by (induction rs) auto

lemma bex_update_where:
  "(\<exists>r \<in> set (update_where p f rs). Q r) \<longleftrightarrow> (\<exists>r \<in> set rs. Q (if p r then f r else r))"
  by (auto simp: update_where_def)

lemma ball_update_where:
  "(\<forall>r \<in> set (update_where p f rs). Q r) \<longleftrightarrow> (\<forall>r \<in> set rs. Q (if p r then f r else r))"
  by (auto simp: update_where_def)

lemma set_update_where: "set (update_where p f rs) = (\<lambda>r. if p r then f r else r) ` set rs"
  by (simp add: update_where_def)

lemma set_delete_where [simp]: "set (delete_where p rs) = {r \<in> set rs. \<not> p r}"
  by (auto simp: delete_where_def)

lemma set_order_by [simp]: "set (order_by k rs) = set rs"
  by (simp add: order_by_def)

lemma length_order_by [simp]: "length (order_by k rs) = length rs"
  by (simp add: order_by_def)

lemma distinct_map_delete_where: "distinct (map k rs) \<Longrightarrow> distinct (map k (delete_where p rs))"
  by (simp add: delete_where_def distinct_map_filter)

lemma update_whereE: "x \<in> set (update_where p u rs) \<Longrightarrow> \<exists>r \<in> set rs. x = (if p r then u r else r)"
  by (auto simp: update_where_def)

lemma image_part_subset: "k ` set xs \<subseteq> A \<Longrightarrow> k ` {x \<in> set xs. q x} \<subseteq> A"
  by auto

lemma distinct_map_order_by: "distinct (map k rs) \<Longrightarrow> distinct (map k (order_by f rs))"
  by (auto simp: order_by_def distinct_map)

lemma order_by_in: "r \<in> set (take n (order_by k rs)) \<Longrightarrow> r \<in> set rs"
  using set_take_subset [of n "order_by k rs"] by auto

lemma sorted_take: "sorted xs \<Longrightarrow> sorted (take n xs)"
  by (rule sorted_wrt_take)

lemma sorted_order_by: "sorted (map k (order_by k rs))"
  by (simp add: order_by_def)

text \<open>
  The shape of Go's \<open>if err != nil { return err }\<close>: when the whole ends well, so did the first call.
\<close>

lemma bind_ok:
  "(case p of (Inl e, s1) \<Rightarrow> (Inl e, s1) | (Inr a, s1) \<Rightarrow> f a s1) = (Inr b, s') \<Longrightarrow>
     \<exists>a s1. p = (Inr a, s1) \<and> f a s1 = (Inr b, s')"
  by (auto split: prod.splits sum.splits)

section \<open>Invariants of step systems\<close>

text \<open>
  The contract of a state machine with an invariant: the initial state has it and every step
  keeps it. Then every reachable state has it.
\<close>

locale step_invariant =
  fixes init :: "'s \<Rightarrow> bool" and step :: "'s \<Rightarrow> 's \<Rightarrow> bool" and inv :: "'s \<Rightarrow> bool"
  assumes init_inv: "init s \<Longrightarrow> inv s"
    and step_inv: "inv s \<Longrightarrow> step s s' \<Longrightarrow> inv s'"
begin

lemma steps_inv: "step\<^sup>*\<^sup>* s s' \<Longrightarrow> inv s \<Longrightarrow> inv s'"
  by (induction rule: rtranclp_induct) (auto intro: step_inv)

lemma reachable_inv: "init s \<Longrightarrow> step\<^sup>*\<^sup>* s s' \<Longrightarrow> inv s'"
  by (blast intro: init_inv steps_inv)

end

end
