(* ===== verification/Taskd_Model.thy ===== *)
theory Taskd_Model
  imports Taskd_Prelude
begin

text \<open>
  The domain types of \<open>pkg/model\<close>: agents with their budgets, the tool catalogue, runs and
  schedules, and the validation an agent passes before it is stored.
\<close>

section \<open>Agents (model/agent.go)\<close>

definition ToolWebSearch :: string where "ToolWebSearch = ''web_search''"
definition ToolHTTPFetch :: string where "ToolHTTPFetch = ''http_fetch''"
definition ToolMemoryRead :: string where "ToolMemoryRead = ''memory_read''"
definition ToolMemoryWrite :: string where "ToolMemoryWrite = ''memory_write''"
definition ToolSendTelegram :: string where "ToolSendTelegram = ''send_telegram''"
definition ToolSendWebhook :: string where "ToolSendWebhook = ''send_webhook''"

definition ToolCatalog :: "string list" where
  "ToolCatalog =
     [ToolWebSearch, ToolHTTPFetch, ToolMemoryRead, ToolMemoryWrite, ToolSendTelegram,
      ToolSendWebhook]"

definition ContextFresh :: string where "ContextFresh = ''fresh''"
definition ContextLastN :: string where "ContextLastN = ''last_n''"

definition DefaultMaxSteps :: int where "DefaultMaxSteps = 20"
definition DefaultMaxTokens :: int where "DefaultMaxTokens = 100000"
definition DefaultMaxDurationSeconds :: int where "DefaultMaxDurationSeconds = 600"

definition CeilingMaxSteps :: int where "CeilingMaxSteps = 100"
definition CeilingMaxTokens :: int where "CeilingMaxTokens = 2000000"
definition CeilingMaxDurationSeconds :: int where "CeilingMaxDurationSeconds = 3600"

definition DefaultSecretName :: string where "DefaultSecretName = ''default''"

definition OwnerUserID :: string where
  "OwnerUserID = ''00000000-0000-0000-0000-000000000001''"

text \<open>
  The Go struct. \<open>Tools\<close> is a slice that may be nil, so it is an option here until
  \<open>ApplyDefaults\<close> has run; the budgets are Go \<open>int\<close>s.
\<close>

record Agent =
  Agent_ID :: string
  Agent_Name :: string
  Agent_Description :: string
  Agent_Model :: string
  Agent_BaseURL :: string
  Agent_SystemPrompt :: string
  Agent_UserPrompt :: string
  Agent_Tools :: "string list option"
  Agent_MaxSteps :: int
  Agent_MaxTokens :: int
  Agent_MaxDurationSeconds :: int
  Agent_SecretName :: string
  Agent_ContextMode :: string
  Agent_ContextRuns :: int
  Agent_Enabled :: bool
  Agent_CreatedAt :: time
  Agent_UpdatedAt :: time

text \<open>Ranging over a nil slice visits nothing.\<close>

definition tool_list :: "string list option \<Rightarrow> string list" where
  "tool_list ts = (case ts of None \<Rightarrow> [] | Some l \<Rightarrow> l)"

fun HasTool_loop :: "string list \<Rightarrow> string \<Rightarrow> bool" where
  "HasTool_loop [] name = False"
| "HasTool_loop (tool # ts) name = (if tool = name then True else HasTool_loop ts name)"

definition HasTool :: "Agent \<Rightarrow> string \<Rightarrow> bool" where
  "HasTool a name = HasTool_loop (tool_list (Agent_Tools a)) name"

definition ApplyDefaults :: "Agent \<Rightarrow> Agent" where
  "ApplyDefaults a0 =
     (let a1 = (if Agent_Tools a0 = None then a0\<lparr>Agent_Tools := Some []\<rparr> else a0);
          a2 = (if Agent_MaxSteps a1 = 0 then a1\<lparr>Agent_MaxSteps := DefaultMaxSteps\<rparr> else a1);
          a3 = (if Agent_MaxTokens a2 = 0 then a2\<lparr>Agent_MaxTokens := DefaultMaxTokens\<rparr> else a2);
          a4 = (if Agent_MaxDurationSeconds a3 = 0
                then a3\<lparr>Agent_MaxDurationSeconds := DefaultMaxDurationSeconds\<rparr> else a3);
          a5 = (if Agent_ContextMode a4 = '''' then a4\<lparr>Agent_ContextMode := ContextFresh\<rparr> else a4)
      in (if Agent_SecretName a5 = '''' then a5\<lparr>Agent_SecretName := DefaultSecretName\<rparr> else a5))"

definition knownTool :: "string \<Rightarrow> bool" where
  "knownTool name = HasTool_loop ToolCatalog name"

text \<open>The first tool of the list that is not in the catalogue.\<close>

fun unknown_tool :: "string list \<Rightarrow> string option" where
  "unknown_tool [] = None"
| "unknown_tool (tool # ts) = (if \<not> knownTool tool then Some tool else unknown_tool ts)"

definition Validate :: "Agent \<Rightarrow> go_error option" where
  "Validate a =
     (if Agent_Name a = '''' then Some (Errorf ''name is required'')
      else if Agent_Model a = '''' then Some (Errorf ''model is required'')
      else (case unknown_tool (tool_list (Agent_Tools a)) of
        Some tool \<Rightarrow> Some (Errorf (''unknown tool: '' @ tool))
      | None \<Rightarrow>
         (if Agent_ContextMode a = ContextLastN \<and> Agent_ContextRuns a < 1 then
            Some (Errorf (''context_runs must be at least 1 when context_mode is '' @ ContextLastN))
          else if Agent_ContextMode a \<noteq> ContextFresh \<and> Agent_ContextMode a \<noteq> ContextLastN then
            Some (Errorf (''context_mode must be \"fresh\" or \"last_n\"''))
          else if Agent_MaxSteps a < 1 \<or> Agent_MaxSteps a > CeilingMaxSteps then
            Some (Errorf (''max_steps must be between 1 and '' @ Itoa CeilingMaxSteps))
          else if Agent_MaxTokens a < 1 \<or> Agent_MaxTokens a > CeilingMaxTokens then
            Some (Errorf (''max_tokens must be between 1 and '' @ Itoa CeilingMaxTokens))
          else if Agent_MaxDurationSeconds a < 1
               \<or> Agent_MaxDurationSeconds a > CeilingMaxDurationSeconds then
            Some (Errorf (''max_duration_seconds must be between 1 and ''
                          @ Itoa CeilingMaxDurationSeconds))
          else None)))"

section \<open>Runs and schedules (model/run.go)\<close>

definition RunPending :: string where "RunPending = ''pending''"
definition RunRunning :: string where "RunRunning = ''running''"
definition RunSucceeded :: string where "RunSucceeded = ''succeeded''"
definition RunFailed :: string where "RunFailed = ''failed''"
definition RunMissed :: string where "RunMissed = ''missed''"
definition RunCancelled :: string where "RunCancelled = ''cancelled''"
definition RunBudgetExceeded :: string where "RunBudgetExceeded = ''budget_exceeded''"

definition TriggerSchedule :: string where "TriggerSchedule = ''schedule''"
definition TriggerManual :: string where "TriggerManual = ''manual''"

lemmas status_defs =
  RunPending_def RunRunning_def RunSucceeded_def RunFailed_def RunMissed_def
  RunCancelled_def RunBudgetExceeded_def

record Schedule =
  Schedule_ID :: string
  Schedule_AgentID :: string
  Schedule_CronExpression :: string
  Schedule_Timezone :: string
  Schedule_Enabled :: bool
  Schedule_NextFireAt :: "time option"
  Schedule_LastFiredAt :: "time option"
  Schedule_CreatedAt :: time
  Schedule_UpdatedAt :: time

record Run =
  Run_ID :: string
  Run_AgentID :: string
  Run_ScheduleID :: "string option"
  Run_Trigger :: string
  Run_Status :: string
  Run_ScheduledFor :: time
  Run_PickedAt :: "time option"
  Run_StartedAt :: "time option"
  Run_FinishedAt :: "time option"
  Run_Output :: string
  Run_Error :: string
  Run_PromptTokens :: int
  Run_CompletionTokens :: int
  Run_RenderedPrompt :: string
  Run_CreatedAt :: time

section \<open>Lemmas\<close>

lemma status_distinct [simp]:
  "RunPending \<noteq> RunRunning" "RunPending \<noteq> RunSucceeded" "RunPending \<noteq> RunFailed"
  "RunPending \<noteq> RunMissed" "RunPending \<noteq> RunCancelled" "RunPending \<noteq> RunBudgetExceeded"
  "RunRunning \<noteq> RunSucceeded" "RunRunning \<noteq> RunFailed" "RunRunning \<noteq> RunMissed"
  "RunRunning \<noteq> RunCancelled" "RunRunning \<noteq> RunBudgetExceeded"
  "RunSucceeded \<noteq> RunFailed" "RunSucceeded \<noteq> RunMissed" "RunSucceeded \<noteq> RunCancelled"
  "RunSucceeded \<noteq> RunBudgetExceeded" "RunFailed \<noteq> RunMissed" "RunFailed \<noteq> RunCancelled"
  "RunFailed \<noteq> RunBudgetExceeded" "RunMissed \<noteq> RunCancelled"
  "RunMissed \<noteq> RunBudgetExceeded" "RunCancelled \<noteq> RunBudgetExceeded"
  by (simp_all add: status_defs)

lemmas status_distinct_sym [simp] = status_distinct [symmetric]

lemma HasTool_loop_iff [simp]: "HasTool_loop ts name \<longleftrightarrow> name \<in> set ts"
  by (induction ts) auto

lemma HasTool_iff: "HasTool a name \<longleftrightarrow> name \<in> set (tool_list (Agent_Tools a))"
  by (simp add: HasTool_def)

lemma unknown_tool_None: "unknown_tool ts = None \<longleftrightarrow> set ts \<subseteq> set ToolCatalog"
  by (induction ts) (auto simp: knownTool_def)

text \<open>What \<open>Validate\<close> promises of an agent it lets through, as one predicate.\<close>

definition agent_ok :: "Agent \<Rightarrow> bool" where
  "agent_ok a \<longleftrightarrow>
     Agent_Name a \<noteq> '''' \<and> Agent_Model a \<noteq> '''' \<and>
     set (tool_list (Agent_Tools a)) \<subseteq> set ToolCatalog \<and>
     (Agent_ContextMode a = ContextFresh \<or>
      Agent_ContextMode a = ContextLastN \<and> 1 \<le> Agent_ContextRuns a) \<and>
     Agent_MaxSteps a \<in> {1..CeilingMaxSteps} \<and>
     Agent_MaxTokens a \<in> {1..CeilingMaxTokens} \<and>
     Agent_MaxDurationSeconds a \<in> {1..CeilingMaxDurationSeconds}"

lemma context_modes_distinct [simp]: "ContextFresh \<noteq> ContextLastN" "ContextLastN \<noteq> ContextFresh"
  by (simp_all add: ContextFresh_def ContextLastN_def)

lemma Validate_None_iff: "Validate a = None \<longleftrightarrow> agent_ok a"
  by (auto simp: Validate_def agent_ok_def unknown_tool_None [symmetric] split: option.splits)

end
