(* ===== verification/Database.thy ===== *)
theory Database
  imports Taskd_Model
begin

text \<open>
  The Postgres schema of \<open>pkg/db/migrations\<close> as records of rows, and how the code reaches it:
  a pool or transaction call is answered by the server (which may refuse it, or carry it out
  without the client ever hearing so), a failed statement poisons its transaction, and a
  rollback restores the tables. Each statement of the Go code is a function on the server
  state, in the theory of the component that issues it.
\<close>

section \<open>The schema\<close>

record CustomProvider =
  Provider_Name :: string
  Provider_BaseURL :: string
  Provider_SecretName :: string
  Provider_Models :: "string list"

record user_row =
  usr_id :: string
  usr_email :: string
  usr_password_hash :: string
  usr_created_at :: time
  usr_telegram_chat_id :: string
  usr_failure_alerts_enabled :: bool
  usr_custom_providers :: "CustomProvider list"

record agent_row =
  ag_id :: string
  ag_user_id :: string
  ag_name :: string
  ag_description :: string
  ag_model :: string
  ag_base_url :: string
  ag_system_prompt :: string
  ag_user_prompt :: string
  ag_tools :: "string list"
  ag_max_steps :: int
  ag_max_tokens :: int
  ag_max_duration_seconds :: int
  ag_context_mode :: string
  ag_context_runs :: int
  ag_secret_name :: string
  ag_enabled :: bool
  ag_consecutive_failures :: int
  ag_failure_notified_at :: "time option"
  ag_created_at :: time
  ag_updated_at :: time

record schedule_row =
  sch_id :: string
  sch_user_id :: string
  sch_agent_id :: string
  sch_cron_expression :: string
  sch_timezone :: string
  sch_enabled :: bool
  sch_next_fire_at :: "time option"
  sch_last_fired_at :: "time option"
  sch_last_fired_wall :: string
  sch_created_at :: time
  sch_updated_at :: time

record run_row =
  r_id :: string
  r_user_id :: string
  r_agent_id :: string
  r_schedule_id :: "string option"
  r_trigger :: string
  r_status :: string
  r_scheduled_for :: time
  r_picked_at :: "time option"
  r_started_at :: "time option"
  r_finished_at :: "time option"
  r_lease_expires_at :: "time option"
  r_output :: string
  r_error :: string
  r_prompt_tokens :: int
  r_completion_tokens :: int
  r_created_at :: time
  r_rendered_prompt :: string
  r_read_at :: "time option"

record step_row =
  st_id :: string
  st_run_id :: string
  st_step_index :: int
  st_kind :: string
  st_content :: string
  st_tool_name :: string
  st_arguments :: string
  st_result :: string
  st_error :: string
  st_prompt_tokens :: int
  st_completion_tokens :: int
  st_created_at :: time

record memory_row =
  mem_id :: string
  mem_user_id :: string
  mem_agent_id :: string
  mem_namespace :: string
  mem_key :: string
  mem_content :: string
  mem_created_at :: time

record secret_row =
  sec_id :: string
  sec_user_id :: string
  sec_name :: string
  sec_encrypted_value :: string
  sec_encrypted_data_key :: string
  sec_masked_suffix :: string
  sec_created_at :: time
  sec_updated_at :: time

record session_row =
  ses_id :: string
  ses_user_id :: string
  ses_expires_at :: time
  ses_created_at :: time

record database =
  users :: "user_row list"
  agents :: "agent_row list"
  schedules :: "schedule_row list"
  runs :: "run_row list"
  run_steps :: "step_row list"
  memory_records :: "memory_row list"
  secrets :: "secret_row list"
  sessions :: "session_row list"

section \<open>The server and how calls on it end\<close>

text \<open>
  What the client sees of its next calls: \<open>Served\<close> carries the statement out, \<open>Refused\<close>
  is an error before it had any effect, \<open>Unacked\<close> an error after the server had already
  carried it out. With no entry left every call is served.
\<close>

datatype outcome = Served | Refused go_error | Unacked go_error

record server =
  tables :: database
  outcomes :: "outcome list"
  pg_now :: time
  serial :: nat

text \<open>
  What the model takes from Postgres itself: the input function of the \<open>uuid\<close> type (None is
  the error 22P02, otherwise the canonical text), the identifiers \<open>uuid_generate_v4()\<close> hands
  out, and the input function of the \<open>jsonb\<close> type (the normal form it stores).
\<close>

record postgres =
  uuid_in :: "string \<Rightarrow> string option"
  uuid_v4 :: "nat \<Rightarrow> string"
  jsonb_in :: "string \<Rightarrow> string option"

fun next_outcome :: "server \<Rightarrow> outcome \<times> server" where
  "next_outcome s =
     (case outcomes s of [] \<Rightarrow> (Served, s) | out # outs \<Rightarrow> (out, s\<lparr>outcomes := outs\<rparr>))"

definition pool_call :: "(server \<Rightarrow> 'a res \<times> server) \<Rightarrow> server \<Rightarrow> 'a res \<times> server" where
  "pool_call q s =
     (case next_outcome s of
        (Served, s1) \<Rightarrow> q s1
      | (Refused e, s1) \<Rightarrow> (Inl e, s1)
      | (Unacked e, s1) \<Rightarrow> (Inl e, snd (q s1)))"

text \<open>A query or an update that Postgres itself does not reject.\<close>

definition query :: "(database \<Rightarrow> 'a) \<Rightarrow> server \<Rightarrow> 'a res \<times> server" where
  "query f s = (Inr (f (tables s)), s)"

definition exec :: "(database \<Rightarrow> database) \<Rightarrow> server \<Rightarrow> unit res \<times> server" where
  "exec f s = (Inr (), s\<lparr>tables := f (tables s)\<rparr>)"

text \<open>A statement that compares a \<open>uuid\<close> column with a text parameter.\<close>

definition invalidTextRepresentation :: string where
  "invalidTextRepresentation = ''22P02''"

definition with_uuid ::
    "postgres \<Rightarrow> string \<Rightarrow> (string \<Rightarrow> server \<Rightarrow> 'a res \<times> server) \<Rightarrow> server \<Rightarrow> 'a res \<times> server" where
  "with_uuid pg i k s =
     (case uuid_in pg i of
        None \<Rightarrow> (Inl (PgError invalidTextRepresentation ''invalid input syntax for type uuid''), s)
      | Some u \<Rightarrow> k u s)"

subsection \<open>Transactions\<close>

record tx =
  tx_saved :: database
  tx_failed :: bool

definition Begin :: "server \<Rightarrow> tx res \<times> server" where
  "Begin s = pool_call (\<lambda>s1. (Inr \<lparr>tx_saved = tables s1, tx_failed = False\<rparr>, s1)) s"

definition inFailedTransaction :: go_error where
  "inFailedTransaction = PgError ''25P02'' ''current transaction is aborted''"

definition tx_call ::
    "(server \<Rightarrow> 'a res \<times> server) \<Rightarrow> tx \<Rightarrow> server \<Rightarrow> 'a res \<times> tx \<times> server" where
  "tx_call q t s =
     (if tx_failed t then (Inl inFailedTransaction, t, s)
      else (case next_outcome s of
        (Served, s1) \<Rightarrow>
          (case q s1 of
             (Inl e, s2) \<Rightarrow> (Inl e, t\<lparr>tx_failed := True\<rparr>, s1)
           | (Inr a, s2) \<Rightarrow> (Inr a, t, s2))
      | (Refused e, s1) \<Rightarrow> (Inl e, t\<lparr>tx_failed := True\<rparr>, s1)
      | (Unacked e, s1) \<Rightarrow> (Inl e, t\<lparr>tx_failed := True\<rparr>, s1)))"

definition Rollback :: "tx \<Rightarrow> server \<Rightarrow> server" where
  "Rollback t s = s\<lparr>tables := tx_saved t\<rparr>"

definition ErrTxCommitRollback :: go_error where
  "ErrTxCommitRollback = Errorf ''commit unexpectedly resulted in rollback''"

definition Commit :: "tx \<Rightarrow> server \<Rightarrow> unit res \<times> server" where
  "Commit t s =
     (if tx_failed t then (Inl ErrTxCommitRollback, Rollback t s)
      else (case next_outcome s of
        (Served, s1) \<Rightarrow> (Inr (), s1)
      | (Refused e, s1) \<Rightarrow> (Inl e, Rollback t s1)
      | (Unacked e, s1) \<Rightarrow> (Inl e, s1)))"

subsection \<open>Errors of the driver (store/runs.go)\<close>

definition translateNoRows :: "go_error \<Rightarrow> go_error" where
  "translateNoRows e =
     (case e of
        ErrNoRows \<Rightarrow> ErrNotFound
      | PgError code msg \<Rightarrow> if code = invalidTextRepresentation then ErrNotFound else e
      | _ \<Rightarrow> e)"

definition translate_res :: "'a res \<Rightarrow> 'a res" where
  "translate_res r = (case r of Inl e \<Rightarrow> Inl (translateNoRows e) | Inr a \<Rightarrow> Inr a)"

text \<open>\<open>QueryRow\<close> on a query with no row reports \<open>pgx.ErrNoRows\<close> when it is scanned.\<close>

definition first_row :: "'r list \<Rightarrow> 'r res" where
  "first_row rs = (case rs of [] \<Rightarrow> Inl ErrNoRows | r # _ \<Rightarrow> Inr r)"

definition query_row :: "(database \<Rightarrow> 'r list) \<Rightarrow> server \<Rightarrow> 'r res \<times> server" where
  "query_row f s = (first_row (f (tables s)), s)"

text \<open>The driver refuses to encode an \<open>int\<close> outside the column's four bytes.\<close>

definition fits_int4 :: "int \<Rightarrow> bool" where
  "fits_int4 i \<longleftrightarrow> - (2 ^ 31) \<le> i \<and> i < 2 ^ 31"

definition outOfRange :: go_error where
  "outOfRange = Errorf ''value is out of range for Int4''"

section \<open>Well-formed databases\<close>

text \<open>The statuses a run may have: the constants of \<open>model/run.go\<close>.\<close>

definition run_statuses :: "string set" where
  "run_statuses =
     {RunPending, RunRunning, RunSucceeded, RunFailed, RunMissed, RunCancelled,
      RunBudgetExceeded}"

text \<open>
  Primary keys and unique constraints, the foreign keys the migrations declare, and the status
  column inside its catalogue.
\<close>

definition keys_unique :: "database \<Rightarrow> bool" where
  "keys_unique d \<longleftrightarrow>
     distinct (map usr_id (users d)) \<and> distinct (map ag_id (agents d)) \<and>
     distinct (map sch_id (schedules d)) \<and> distinct (map sch_agent_id (schedules d)) \<and>
     distinct (map r_id (runs d)) \<and> distinct (map st_id (run_steps d)) \<and>
     distinct (map (\<lambda>t. (st_run_id t, st_step_index t)) (run_steps d)) \<and>
     distinct (map mem_id (memory_records d)) \<and> distinct (map sec_id (secrets d)) \<and>
     distinct (map (\<lambda>c. (sec_user_id c, sec_name c)) (secrets d)) \<and> distinct (map ses_id (sessions d))"

definition references_hold :: "database \<Rightarrow> bool" where
  "references_hold d \<longleftrightarrow>
     set (map ag_user_id (agents d)) \<subseteq> set (map usr_id (users d)) \<and>
     set (map sch_user_id (schedules d)) \<subseteq> set (map usr_id (users d)) \<and>
     set (map sch_agent_id (schedules d)) \<subseteq> set (map ag_id (agents d)) \<and>
     set (map r_user_id (runs d)) \<subseteq> set (map usr_id (users d)) \<and>
     set (map r_agent_id (runs d)) \<subseteq> set (map ag_id (agents d)) \<and>
     set (map r_schedule_id (runs d)) \<subseteq> insert None (set (map (\<lambda>x. Some (sch_id x)) (schedules d))) \<and>
     set (map st_run_id (run_steps d)) \<subseteq> set (map r_id (runs d)) \<and>
     set (map mem_user_id (memory_records d)) \<subseteq> set (map usr_id (users d)) \<and>
     set (map mem_agent_id (memory_records d)) \<subseteq> set (map ag_id (agents d)) \<and>
     set (map sec_user_id (secrets d)) \<subseteq> set (map usr_id (users d)) \<and>
     set (map ses_user_id (sessions d)) \<subseteq> set (map usr_id (users d))"

definition db_wf :: "database \<Rightarrow> bool" where
  "db_wf d \<longleftrightarrow> keys_unique d \<and> references_hold d \<and> set (map r_status (runs d)) \<subseteq> run_statuses"

lemmas db_wf_defs = db_wf_def keys_unique_def references_hold_def

text \<open>The next \<open>n\<close> generated identifiers are distinct and not in use.\<close>

definition fresh_ids :: "postgres \<Rightarrow> server \<Rightarrow> nat \<Rightarrow> bool" where
  "fresh_ids pg s n \<longleftrightarrow>
     distinct (map (uuid_v4 pg) [serial s..<serial s + n]) \<and>
     (\<forall>k \<in> {serial s..<serial s + n}. uuid_v4 pg k \<notin> r_id ` set (runs (tables s)))"

section \<open>Row updates that keep a table's key\<close>

text \<open>
  The contract every UPDATE of the code meets: the columns it sets leave the key alone. The
  client lemmas are about the table after the update.
\<close>

locale row_update =
  fixes key :: "'r \<Rightarrow> 'k" and upd :: "'r \<Rightarrow> 'r"
  assumes key_upd: "key (upd r) = key r"
begin

lemma keys_kept: "map key (update_where p upd rs) = map key rs"
  by (rule map_update_where) (simp add: key_upd)

lemma keys_distinct: "distinct (map key rs) \<Longrightarrow> distinct (map key (update_where p upd rs))"
  by (simp add: keys_kept)

lemma key_image_kept: "key ` set (update_where p upd rs) = key ` set rs"
  using arg_cong [OF keys_kept, of set p rs] by simp

lemma find_updated:
  "find (\<lambda>r. key r = k) (update_where p upd rs) =
     map_option (\<lambda>r. if p r then upd r else r) (find (\<lambda>r. key r = k) rs)"
  by (induction rs) (auto simp: key_upd)

lemma other_rows_kept:
  "r \<in> set rs \<Longrightarrow> \<not> p r \<Longrightarrow> r \<in> set (update_where p upd rs)"
  by (auto simp: set_update_where)

end

text \<open>With distinct keys a row is the one its key finds.\<close>

lemma find_key:
  assumes "distinct (map k rs)" and "r \<in> set rs"
  shows "find (\<lambda>x. k x = k r) rs = Some r"
  using assms by (induction rs) auto

lemma find_key_None: "find (\<lambda>x. k x = v) rs = None \<longleftrightarrow> v \<notin> k ` set rs"
  by (induction rs) auto

lemma filter_key_distinct:
  assumes "distinct (map k rs)"
  shows "filter (\<lambda>x. k x = v) rs = (case find (\<lambda>x. k x = v) rs of None \<Rightarrow> [] | Some r \<Rightarrow> [r])"
  using assms
proof (induction rs)
  case (Cons a rs)
  have "k a = v \<Longrightarrow> filter (\<lambda>x. k x = v) rs = []"
    using Cons.prems by (auto simp: filter_empty_conv image_iff)
  with Cons show ?case by auto
qed simp

section \<open>Lemmas on calls\<close>

lemma pool_call_cases:
  obtains (served) "pool_call q s = q (snd (next_outcome s))"
    | (refused) e where "pool_call q s = (Inl e, snd (next_outcome s))"
    | (unacked) e where "pool_call q s = (Inl e, snd (q (snd (next_outcome s))))"
  by (cases "next_outcome s"; cases "fst (next_outcome s)") (auto simp: pool_call_def)

lemma next_outcome_tables [simp]:
  "tables (snd (next_outcome s)) = tables s"
  "pg_now (snd (next_outcome s)) = pg_now s"
  "serial (snd (next_outcome s)) = serial s"
  by (auto split: list.splits)

lemma next_outcome_D:
  "next_outcome s = (out, s1) \<Longrightarrow> tables s1 = tables s \<and> pg_now s1 = pg_now s \<and> serial s1 = serial s"
  using next_outcome_tables [of s] by simp

lemma next_outcome_reset [simp]: "(snd (next_outcome s))\<lparr>outcomes := os\<rparr> = s\<lparr>outcomes := os\<rparr>"
  by (auto split: list.splits)

lemma next_outcome_Nil [simp]: "outcomes s = [] \<Longrightarrow> next_outcome s = (Served, s)"
  by simp

declare next_outcome.simps [simp del]

lemma pool_call_served [simp]: "outcomes s = [] \<Longrightarrow> pool_call q s = q s"
  by (simp add: pool_call_def)

lemma tx_call_served [simp]:
  "outcomes s = [] \<Longrightarrow> \<not> tx_failed t \<Longrightarrow> q s = (Inr a, s') \<Longrightarrow> tx_call q t s = (Inr a, t, s')"
  by (simp add: tx_call_def)

text \<open>A query reads: whatever the outcome, the tables are what they were.\<close>

lemma query_tables [simp]: "tables (snd (pool_call (query f) s)) = tables s"
  by (rule pool_call_cases [of "query f" s]) (auto simp: query_def)

lemma query_row_tables [simp]: "tables (snd (pool_call (query_row f) s)) = tables s"
  by (rule pool_call_cases [of "query_row f" s]) (auto simp: query_row_def)

text \<open>A single statement is atomic: its tables are the old ones or the new ones.\<close>

lemma exec_tables:
  "tables (snd (pool_call (exec f) s)) \<in> {tables s, f (tables s)}"
  by (rule pool_call_cases [of "exec f" s]) (auto simp: exec_def)

lemma exec_ok: "fst (pool_call (exec f) s) = Inr u \<Longrightarrow> tables (snd (pool_call (exec f) s)) = f (tables s)"
  by (rule pool_call_cases [of "exec f" s]) (auto simp: exec_def)

lemma tx_call_saved [simp]: "tx_saved (fst (snd (tx_call q t s))) = tx_saved t"
  by (auto simp: tx_call_def split: prod.splits outcome.splits sum.splits)

lemma tx_call_saved_D: "tx_call q t s = (r, t', s') \<Longrightarrow> tx_saved t' = tx_saved t"
  using tx_call_saved [of q t s] by simp

lemma Begin_ok: "Begin s = (Inr t, s1) \<Longrightarrow>
    t = \<lparr>tx_saved = tables s, tx_failed = False\<rparr> \<and> s1 = snd (next_outcome s)"
  by (auto simp: Begin_def pool_call_def dest: next_outcome_D split: prod.splits outcome.splits)

lemma Commit_ok: "Commit t s = (Inr u, s') \<Longrightarrow> \<not> tx_failed t \<and> s' = snd (next_outcome s)"
  by (auto simp: Commit_def split: if_splits prod.splits outcome.splits)

lemma tx_query_ok: "tx_call (query f) t s = (Inr x, t', s') \<Longrightarrow>
    t' = t \<and> x = f (tables s) \<and> s' = snd (next_outcome s)"
  by (auto simp: tx_call_def query_def dest: next_outcome_D split: if_splits prod.splits outcome.splits)

section \<open>Statements\<close>

text \<open>
  The contract of a statement the code sends: it does not depend on how later calls will end,
  and when Postgres rejects it the tables are untouched. The lemmas say what a pool or
  transaction call on such a statement can leave behind.
\<close>

locale statement =
  fixes q :: "server \<Rightarrow> 'a res \<times> server"
  assumes outcomes_blind: "q (s\<lparr>outcomes := os\<rparr>) = apsnd (\<lambda>x. x\<lparr>outcomes := os\<rparr>) (q s)"
    and rejected_keeps: "q s = (Inl e, s') \<Longrightarrow> tables s' = tables s"
begin

lemma blind_result: "fst (q (s\<lparr>outcomes := os\<rparr>)) = fst (q s)"
  by (simp add: outcomes_blind)

lemma blind_tables: "tables (snd (q (s\<lparr>outcomes := os\<rparr>))) = tables (snd (q s))"
  by (simp add: outcomes_blind)

lemma after_outcome: "q (snd (next_outcome s)) = apsnd (\<lambda>x. x\<lparr>outcomes := outcomes (snd (next_outcome s))\<rparr>) (q s)"
proof -
  have "snd (next_outcome s) = s\<lparr>outcomes := outcomes (snd (next_outcome s))\<rparr>"
    by (auto simp: next_outcome.simps split: list.splits)
  then show ?thesis by (metis outcomes_blind)
qed

lemma pool_atomic: "tables (snd (pool_call q s)) \<in> {tables s, tables (snd (q s))}"
  by (rule pool_call_cases [of q s]) (auto simp: after_outcome)

lemma pool_ok: "pool_call q s = (Inr a, s') \<Longrightarrow> fst (q s) = Inr a \<and> tables s' = tables (snd (q s))"
  by (rule pool_call_cases [of q s]) (auto simp: after_outcome apsnd_def map_prod_def split: prod.splits)

lemma tx_ok:
  assumes "tx_call q t s = (Inr a, t', s')"
  shows "t' = t \<and> \<not> tx_failed t \<and> tx_call q t (s\<lparr>outcomes := []\<rparr>) = (Inr a, t, s'\<lparr>outcomes := []\<rparr>)"
proof -
  from assms have nf: "\<not> tx_failed t" and "t' = t" and q: "q (snd (next_outcome s)) = (Inr a, s')"
    by (auto simp: tx_call_def split: if_splits prod.splits outcome.splits sum.splits)
  obtain r s1 where r: "q s = (r, s1)" by (cases "q s")
  from q r have "r = Inr a" and "s'\<lparr>outcomes := []\<rparr> = s1\<lparr>outcomes := []\<rparr>"
    by (auto simp: after_outcome)
  then show ?thesis
    using nf \<open>t' = t\<close> r by (simp add: tx_call_def outcomes_blind)
qed

end

lemma statement_query: "statement (query f)"
  by unfold_locales (auto simp: query_def)

lemma statement_exec: "statement (exec f)"
  by unfold_locales (auto simp: exec_def)

lemma statement_query_row: "statement (query_row f)"
  by unfold_locales (auto simp: query_row_def)

interpretation query_stmt: statement "query f" for f
  by (rule statement_query)

interpretation exec_stmt: statement "exec f" for f
  by (rule statement_exec)

interpretation query_row_stmt: statement "query_row f" for f
  by (rule statement_query_row)

lemma query_row_ok: "pool_call (query_row f) s = (Inr r, s') \<Longrightarrow> first_row (f (tables s)) = Inr r"
  using query_row_stmt.pool_ok by (fastforce simp: query_row_def)

lemma first_row_filter: "first_row (map f (filter p xs)) = Inr y \<Longrightarrow> \<exists>x \<in> set xs. p x \<and> f x = y"
  by (induction xs) (auto simp: first_row_def split: if_splits)

lemma statement_with_uuid:
  assumes "\<And>u. statement (k u)"
  shows "statement (with_uuid pg i k)"
proof
  fix s os
  show "with_uuid pg i k (s\<lparr>outcomes := os\<rparr>) = apsnd (\<lambda>x. x\<lparr>outcomes := os\<rparr>) (with_uuid pg i k s)"
    using statement.outcomes_blind [OF assms] by (simp add: with_uuid_def split: option.splits)
next
  fix s e s'
  show "with_uuid pg i k s = (Inl e, s') \<Longrightarrow> tables s' = tables s"
    using statement.rejected_keeps [OF assms] by (auto simp: with_uuid_def split: option.splits)
qed

end
