(* ===== verification/Run_Store.thy ===== *)
theory Run_Store
  imports Database "HOL-Library.Product_Lexorder"
begin

text \<open>
  \<open>store/runs.go\<close> and \<open>store/steps.go\<close>: creating, reading and listing runs, the inbox, and
  the trace of a run.
\<close>

section \<open>Definitions (store/runs.go)\<close>

definition scanRun :: "run_row \<Rightarrow> Run" where
  "scanRun r =
     \<lparr>Run_ID = r_id r, Run_AgentID = r_agent_id r, Run_ScheduleID = r_schedule_id r,
      Run_Trigger = r_trigger r, Run_Status = r_status r, Run_ScheduledFor = r_scheduled_for r,
      Run_PickedAt = r_picked_at r, Run_StartedAt = r_started_at r,
      Run_FinishedAt = r_finished_at r, Run_Output = r_output r, Run_Error = r_error r,
      Run_PromptTokens = r_prompt_tokens r, Run_CompletionTokens = r_completion_tokens r,
      Run_RenderedPrompt = r_rendered_prompt r, Run_CreatedAt = r_created_at r\<rparr>"

text \<open>
  The row an INSERT with the six named columns makes, the others at their defaults, and the
  INSERT itself: the rows it refers to have to exist.
\<close>

definition new_run_row ::
    "string \<Rightarrow> string \<Rightarrow> string \<Rightarrow> string option \<Rightarrow> string \<Rightarrow> string \<Rightarrow> time \<Rightarrow> time \<Rightarrow> run_row" where
  "new_run_row i userID agentID scheduleID trigger status scheduledFor created =
     \<lparr>r_id = i, r_user_id = userID, r_agent_id = agentID, r_schedule_id = scheduleID,
      r_trigger = trigger, r_status = status, r_scheduled_for = scheduledFor,
      r_picked_at = None, r_started_at = None, r_finished_at = None, r_lease_expires_at = None,
      r_output = [], r_error = [], r_prompt_tokens = 0, r_completion_tokens = 0,
      r_created_at = created, r_rendered_prompt = [], r_read_at = None\<rparr>"

definition foreignKeyViolation :: go_error where
  "foreignKeyViolation = PgError ''23503'' ''insert violates foreign key constraint''"

definition insert_run ::
    "postgres \<Rightarrow> string \<Rightarrow> string \<Rightarrow> string option \<Rightarrow> string \<Rightarrow> string \<Rightarrow> time \<Rightarrow> server
      \<Rightarrow> run_row res \<times> server" where
  "insert_run pg userID agentID scheduleID trigger status scheduledFor s =
     (if agentID \<notin> ag_id ` set (agents (tables s)) \<or> userID \<notin> usr_id ` set (users (tables s)) \<or>
         \<not> set_option scheduleID \<subseteq> sch_id ` set (schedules (tables s))
      then (Inl foreignKeyViolation, s)
      else
        let row = new_run_row (uuid_v4 pg (serial s)) userID agentID scheduleID trigger status
                    scheduledFor (pg_now s)
        in (Inr row,
            s\<lparr>serial := Suc (serial s),
              tables := (tables s)\<lparr>runs := runs (tables s) @ [row]\<rparr>\<rparr>))"

definition RunStore_Create ::
    "postgres \<Rightarrow> string \<Rightarrow> string \<Rightarrow> string option \<Rightarrow> string \<Rightarrow> string \<Rightarrow> time \<Rightarrow> server
      \<Rightarrow> Run res \<times> server" where
  "RunStore_Create pg userID agentID scheduleID trigger status scheduledFor s =
     (case pool_call (with_uuid pg agentID (\<lambda>u.
             insert_run pg userID u scheduleID trigger status scheduledFor)) s of
        (r, s') \<Rightarrow> (map_sum id scanRun (translate_res r), s'))"

definition RunStore_Get :: "postgres \<Rightarrow> string \<Rightarrow> string \<Rightarrow> server \<Rightarrow> Run res \<times> server" where
  "RunStore_Get pg userID i s =
     (case pool_call (with_uuid pg i (\<lambda>u. query_row (\<lambda>d.
             filter (\<lambda>r. r_id r = u \<and> r_user_id r = userID) (runs d)))) s of
        (r, s') \<Rightarrow> (map_sum id scanRun (translate_res r), s'))"

text \<open>\<open>ORDER BY scheduled_for DESC, created_at DESC\<close>.\<close>

definition history_key :: "run_row \<Rightarrow> time \<times> time" where
  "history_key r = (- r_scheduled_for r, - r_created_at r)"

definition RunStore_ListByAgent ::
    "postgres \<Rightarrow> string \<Rightarrow> string \<Rightarrow> nat \<Rightarrow> server \<Rightarrow> Run list res \<times> server" where
  "RunStore_ListByAgent pg userID agentID limit s =
     (case pool_call (with_uuid pg agentID (\<lambda>u. query (\<lambda>d.
             take limit (order_by history_key
               (filter (\<lambda>r. r_agent_id r = u \<and> r_user_id r = userID) (runs d)))))) s of
        (Inl e, s') \<Rightarrow> (Inl e, s')
      | (Inr rs, s') \<Rightarrow> (Inr (map scanRun rs), s'))"

definition SetRenderedPrompt ::
    "postgres \<Rightarrow> string \<Rightarrow> string \<Rightarrow> server \<Rightarrow> unit res \<times> server" where
  "SetRenderedPrompt pg runID prompt s =
     pool_call (with_uuid pg runID (\<lambda>u. exec (\<lambda>d.
       d\<lparr>runs := update_where (\<lambda>r. r_id r = u) (\<lambda>r. r\<lparr>r_rendered_prompt := prompt\<rparr>) (runs d)\<rparr>))) s"

definition RecentOutputs ::
    "postgres \<Rightarrow> string \<Rightarrow> string \<Rightarrow> int \<Rightarrow> server \<Rightarrow> string list res \<times> server" where
  "RecentOutputs pg userID agentID limit s =
     pool_call (with_uuid pg agentID (\<lambda>u. query (\<lambda>d.
       map r_output (take (nat limit) (order_by (\<lambda>r. desc_nulls_last (r_finished_at r))
         (filter (\<lambda>r. r_agent_id r = u \<and> r_user_id r = userID
                      \<and> r_status r = RunSucceeded \<and> r_output r \<noteq> []) (runs d))))))) s"

record InboxItem =
  Inbox_RunID :: string
  Inbox_AgentID :: string
  Inbox_AgentName :: string
  Inbox_Status :: string
  Inbox_Output :: string
  Inbox_Error :: string
  Inbox_CreatedAt :: time
  Inbox_ReadAt :: "time option"

definition inbox_item :: "run_row \<Rightarrow> agent_row \<Rightarrow> InboxItem" where
  "inbox_item r a =
     \<lparr>Inbox_RunID = r_id r, Inbox_AgentID = r_agent_id r, Inbox_AgentName = ag_name a,
      Inbox_Status = r_status r, Inbox_Output = r_output r, Inbox_Error = r_error r,
      Inbox_CreatedAt = r_created_at r, Inbox_ReadAt = r_read_at r\<rparr>"

text \<open>\<open>FROM runs r JOIN agents a ON a.id = r.agent_id\<close>.\<close>

definition join_agents :: "database \<Rightarrow> (run_row \<times> agent_row) list" where
  "join_agents d =
     concat (map (\<lambda>r. map (\<lambda>a. (r, a)) (filter (\<lambda>a. ag_id a = r_agent_id r) (agents d))) (runs d))"

definition inbox_rows :: "string \<Rightarrow> database \<Rightarrow> (run_row \<times> agent_row) list" where
  "inbox_rows userID d =
     order_by (\<lambda>(r, a). desc_nulls_last (r_finished_at r))
       (filter (\<lambda>(r, a). r_user_id r = userID \<and> r_finished_at r \<noteq> None) (join_agents d))"

definition unread_count :: "string \<Rightarrow> database \<Rightarrow> nat" where
  "unread_count userID d =
     length (filter (\<lambda>r. r_user_id r = userID \<and> r_finished_at r \<noteq> None \<and> r_read_at r = None)
       (runs d))"

definition Inbox :: "string \<Rightarrow> nat \<Rightarrow> server \<Rightarrow> (InboxItem list \<times> nat) res \<times> server" where
  "Inbox userID limit s =
     (case pool_call (query (\<lambda>d. take limit (inbox_rows userID d))) s of
        (Inl e, s1) \<Rightarrow> (Inl e, s1)
      | (Inr rs, s1) \<Rightarrow>
          (case pool_call (query (unread_count userID)) s1 of
             (Inl e, s2) \<Rightarrow> (Inl e, s2)
           | (Inr unread, s2) \<Rightarrow> (Inr (map (\<lambda>(r, a). inbox_item r a) rs, unread), s2)))"

definition mark_read_stmt ::
    "string \<Rightarrow> string \<Rightarrow> time \<Rightarrow> server \<Rightarrow> nat res \<times> server" where
  "mark_read_stmt userID u now s =
     (let p = (\<lambda>r. r_id r = u \<and> r_user_id r = userID \<and> r_read_at r = None) in
      (Inr (length (filter p (runs (tables s)))),
       s\<lparr>tables := (tables s)\<lparr>runs := update_where p (\<lambda>r. r\<lparr>r_read_at := Some now\<rparr>)
           (runs (tables s))\<rparr>\<rparr>))"

definition MarkRead ::
    "postgres \<Rightarrow> string \<Rightarrow> string \<Rightarrow> time \<Rightarrow> server \<Rightarrow> unit res \<times> server" where
  "MarkRead pg userID runID now s =
     (case pool_call (with_uuid pg runID (\<lambda>u. mark_read_stmt userID u now)) s of
        (Inl e, s1) \<Rightarrow> (Inl (translateNoRows e), s1)
      | (Inr affected, s1) \<Rightarrow>
          (if affected = 0 then
             (case pool_call (with_uuid pg runID (\<lambda>u. query (\<lambda>d.
                     \<exists>r \<in> set (runs d). r_id r = u \<and> r_user_id r = userID))) s1 of
                (Inl e, s2) \<Rightarrow> (Inl (translateNoRows e), s2)
              | (Inr present, s2) \<Rightarrow> (if \<not> present then (Inl ErrNotFound, s2) else (Inr (), s2)))
           else (Inr (), s1)))"

section \<open>Definitions (store/steps.go)\<close>

definition StepModelCall :: string where "StepModelCall = ''model_call''"
definition StepToolCall :: string where "StepToolCall = ''tool_call''"

record Step =
  Step_ID :: string
  Step_StepIndex :: int
  Step_Kind :: string
  Step_Content :: string
  Step_ToolName :: string
  Step_Arguments :: string
  Step_Result :: string
  Step_Error :: string
  Step_PromptTokens :: int
  Step_CompletionTokens :: int
  Step_CreatedAt :: time

text \<open>The zero value of the struct, which a composite literal starts from.\<close>

definition zero_Step :: Step where
  "zero_Step =
     \<lparr>Step_ID = [], Step_StepIndex = 0, Step_Kind = [], Step_Content = [], Step_ToolName = [],
      Step_Arguments = [], Step_Result = [], Step_Error = [], Step_PromptTokens = 0,
      Step_CompletionTokens = 0, Step_CreatedAt = zero_time\<rparr>"

definition new_step_row :: "string \<Rightarrow> string \<Rightarrow> int \<Rightarrow> Step \<Rightarrow> time \<Rightarrow> step_row" where
  "new_step_row i runID index step created =
     \<lparr>st_id = i, st_run_id = runID, st_step_index = index, st_kind = Step_Kind step,
      st_content = Step_Content step, st_tool_name = Step_ToolName step,
      st_arguments = Step_Arguments step, st_result = Step_Result step,
      st_error = Step_Error step, st_prompt_tokens = Step_PromptTokens step,
      st_completion_tokens = Step_CompletionTokens step, st_created_at = created\<rparr>"

definition uniqueViolation :: go_error where
  "uniqueViolation = PgError ''23505'' ''duplicate key value violates unique constraint''"

text \<open>
  The INSERT, with the foreign key to \<open>runs\<close> and the unique index on
  \<open>(run_id, step_index)\<close> of migration 0004.
\<close>

definition insert_step :: "postgres \<Rightarrow> string \<Rightarrow> int \<Rightarrow> Step \<Rightarrow> server \<Rightarrow> unit res \<times> server" where
  "insert_step pg runID index step s =
     (if \<not> list_all fits_int4 [index, Step_PromptTokens step, Step_CompletionTokens step] then (Inl outOfRange, s)
      else if runID \<notin> r_id ` set (runs (tables s)) then (Inl foreignKeyViolation, s)
      else if (runID, index) \<in> (\<lambda>t. (st_run_id t, st_step_index t)) ` set (run_steps (tables s))
      then (Inl uniqueViolation, s)
      else (Inr (),
        s\<lparr>serial := Suc (serial s),
          tables := (tables s)\<lparr>run_steps := run_steps (tables s) @
            [new_step_row (uuid_v4 pg (serial s)) runID index step (pg_now s)]\<rparr>\<rparr>))"

definition StepStore_Record ::
    "postgres \<Rightarrow> string \<Rightarrow> int \<Rightarrow> Step \<Rightarrow> server \<Rightarrow> unit res \<times> server" where
  "StepStore_Record pg runID index step s =
     pool_call (with_uuid pg runID (\<lambda>u. insert_step pg u index step)) s"

definition scanStep :: "step_row \<Rightarrow> Step" where
  "scanStep t =
     \<lparr>Step_ID = st_id t, Step_StepIndex = st_step_index t, Step_Kind = st_kind t,
      Step_Content = st_content t, Step_ToolName = st_tool_name t,
      Step_Arguments = st_arguments t, Step_Result = st_result t, Step_Error = st_error t,
      Step_PromptTokens = st_prompt_tokens t, Step_CompletionTokens = st_completion_tokens t,
      Step_CreatedAt = st_created_at t\<rparr>"

text \<open>
  An error the server raises while a \<open>Query\<close> executes reaches the caller through
  \<open>rows.Err()\<close>, untranslated; \<open>translateNoRows\<close> is applied only to what \<open>Query\<close>
  itself returns, which is neither of the two errors it maps.
\<close>

definition StepStore_ListByRun ::
    "postgres \<Rightarrow> string \<Rightarrow> string \<Rightarrow> server \<Rightarrow> Step list res \<times> server" where
  "StepStore_ListByRun pg userID runID s =
     (case pool_call (with_uuid pg runID (\<lambda>u. query (\<lambda>d.
             order_by st_step_index (filter (\<lambda>t. st_run_id t = u \<and>
               (\<exists>r \<in> set (runs d). r_id r = st_run_id t \<and> r_user_id r = userID)) (run_steps d))))) s of
        (Inl e, s') \<Rightarrow> (Inl e, s')
      | (Inr ts, s') \<Rightarrow> (Inr (map scanStep ts), s'))"

end
