(* ===== verification/Cron_Schedule.thy ===== *)
theory Cron_Schedule
  imports Taskd_Prelude
begin

text \<open>
  \<open>pkg/schedule\<close>: parsing a cron expression with its timezone, and the next fire time with
  the daylight-saving guard on the wall-clock reading. The cron library and the timezone
  database are parameters; Go's calendar arithmetic is modelled.
\<close>

section \<open>Locations and the cron library\<close>

text \<open>
  A \<open>time.Location\<close> gives the UTC offset in force at an instant, in seconds. A
  \<open>cron.Schedule\<close> gives, for a time expressed in a location, the next activation (the zero
  time when there is none).
\<close>

type_synonym location = "time \<Rightarrow> int"
type_synonym cron = "location \<Rightarrow> time \<Rightarrow> time"

record time_env =
  LoadLocation :: "string \<Rightarrow> location option"
  ParseStandard :: "string \<Rightarrow> cron res"

text \<open>What the cron library documents of \<open>Next\<close>: the activation is later than the given time.\<close>

definition cron_later :: "cron \<Rightarrow> location \<Rightarrow> bool" where
  "cron_later c loc \<longleftrightarrow> (\<forall>t. c loc t = zero_time \<or> t < c loc t)"

section \<open>Go's calendar\<close>

text \<open>\<open>time.Date\<close>: the instant at which the clock of a location shows a local reading.\<close>

definition Date_in :: "location \<Rightarrow> time \<Rightarrow> time" where
  "Date_in loc local =
     (let off = loc local in
      if off \<noteq> 0 then local - loc (local - off * Second) * Second else local)"

text \<open>The proleptic Gregorian date of a day number, day 0 being January 1 of the year 1.\<close>

definition civil :: "int \<Rightarrow> int \<times> int \<times> int" where
  "civil day =
     (let z = day + 306;
          era = z div 146097;
          doe = z mod 146097;
          yoe = (doe - doe div 1460 + doe div 36524 - doe div 146096) div 365;
          doy = doe - (365 * yoe + yoe div 4 - yoe div 100);
          mp = (5 * doy + 2) div 153;
          d = doy - (153 * mp + 2) div 5 + 1;
          m = (if mp < 10 then mp + 3 else mp - 9);
          y = yoe + era * 400 + (if m \<le> 2 then 1 else 0)
      in (y, m, d))"

definition pad :: "nat \<Rightarrow> int \<Rightarrow> string" where
  "pad w n = (let ds = Itoa n in replicate (w - length ds) CHR ''0'' @ ds)"

text \<open>\<open>Format(wallClockLayout)\<close> with the layout \<open>2006-01-02T15:04:05\<close>.\<close>

definition format_wall :: "time \<Rightarrow> string" where
  "format_wall local =
     (let secs = local div Second; day = secs div 86400; rest = secs mod 86400 in
      case civil day of (y, m, d) \<Rightarrow>
        pad 4 y @ ''-'' @ pad 2 m @ ''-'' @ pad 2 d @ ''T'' @
        pad 2 (rest div 3600) @ '':'' @ pad 2 (rest mod 3600 div 60) @ '':'' @ pad 2 (rest mod 60))"

section \<open>Schedules (schedule/schedule.go)\<close>

definition MinimumInterval :: duration where "MinimumInterval = 5 * Minute"

record Spec =
  Spec_Expression :: string
  Spec_Location :: location
  Spec_schedule :: cron

definition schedule_Next :: "Spec \<Rightarrow> time \<Rightarrow> time" where
  "schedule_Next spec t = Spec_schedule spec (Spec_Location spec) t"

text \<open>June 1, 2025, 00:00:00 as a local reading.\<close>

definition reference_reading :: time where
  "reference_reading = 739402 * 24 * Hour"

definition checkGranularity :: "Spec \<Rightarrow> go_error option" where
  "checkGranularity spec =
     (let reference = Date_in (Spec_Location spec) reference_reading;
          first = schedule_Next spec reference
      in if IsZero first then Some (Errorf ''cron expression never fires'')
         else
           let second = schedule_Next spec first in
           if IsZero second then None
           else if second - first < MinimumInterval then
             Some (Errorf ''schedule fires more often than every 5m0s'')
           else None)"

definition Parse :: "time_env \<Rightarrow> string \<Rightarrow> string \<Rightarrow> Spec res" where
  "Parse env expression timezone =
     (if timezone = '''' then Inl (Errorf ''timezone is required'')
      else (case LoadLocation env timezone of
        None \<Rightarrow> Inl (Errorf (''unknown timezone '' @ Quote timezone))
      | Some loc \<Rightarrow>
          (case ParseStandard env expression of
             Inl e \<Rightarrow> Inl (Errorf (''invalid cron expression: '' @ Error e))
           | Inr parsed \<Rightarrow>
               let spec = \<lparr>Spec_Expression = expression, Spec_Location = loc, Spec_schedule = parsed\<rparr>
               in (case checkGranularity spec of Some e \<Rightarrow> Inl e | None \<Rightarrow> Inr spec))))"

definition WallClock :: "Spec \<Rightarrow> time \<Rightarrow> string" where
  "WallClock spec t = format_wall (t + Spec_Location spec t * Second)"

definition Next :: "Spec \<Rightarrow> time \<Rightarrow> string \<Rightarrow> time" where
  "Next spec after lastFiredWall =
     (let candidate = schedule_Next spec after in
      if IsZero candidate then zero_time
      else if lastFiredWall \<noteq> '''' \<and> WallClock spec candidate = lastFiredWall then
        let candidate2 = schedule_Next spec candidate in
        if IsZero candidate2 then zero_time else candidate2
      else candidate)"

text \<open>The named hypothesis on the cron library, at a parsed schedule.\<close>

definition spec_later :: "Spec \<Rightarrow> bool" where
  "spec_later spec \<longleftrightarrow> cron_later (Spec_schedule spec) (Spec_Location spec)"

section \<open>Lemmas\<close>

lemma schedule_Next_later: "spec_later spec \<Longrightarrow> schedule_Next spec t = zero_time \<or> t < schedule_Next spec t"
  by (simp add: spec_later_def cron_later_def schedule_Next_def)

lemma Next_fire:
  "Next spec t w \<in> {zero_time, schedule_Next spec t, schedule_Next spec (schedule_Next spec t)}"
  by (simp add: Next_def Let_def)

lemma Next_later: "spec_later spec \<Longrightarrow> Next spec t w = zero_time \<or> t < Next spec t w"
  using schedule_Next_later [of spec t] schedule_Next_later [of spec "schedule_Next spec t"]
  by (auto simp: Next_def Let_def IsZero_def)

text \<open>The second activation of a reading the schedule just fired at is passed over.\<close>

lemma Next_same_wall:
  assumes "schedule_Next spec t \<noteq> zero_time" and "WallClock spec (schedule_Next spec t) = w" and "w \<noteq> ''''"
  shows "Next spec t w = schedule_Next spec (schedule_Next spec t)"
  using assms by (auto simp: Next_def Let_def IsZero_def)

lemma Next_other_wall:
  assumes "WallClock spec (schedule_Next spec t) \<noteq> w"
  shows "Next spec t w = schedule_Next spec t"
  using assms by (auto simp: Next_def Let_def IsZero_def)

lemma Parse_ok:
  assumes "Parse env expression timezone = Inr spec"
  shows "timezone \<noteq> '''' \<and> LoadLocation env timezone = Some (Spec_Location spec) \<and>
         ParseStandard env expression = Inr (Spec_schedule spec) \<and>
         Spec_Expression spec = expression \<and> checkGranularity spec = None"
  using assms by (auto simp: Parse_def Let_def split: if_splits option.splits sum.splits)

lemma pad_nonempty: "pad w n \<noteq> []"
proof -
  have "digits_of k \<noteq> []" for k by (subst digits_of.simps) simp
  then show ?thesis by (simp add: pad_def Itoa_def Let_def)
qed

lemma WallClock_nonempty: "WallClock spec t \<noteq> ''''"
  by (simp add: WallClock_def format_wall_def Let_def split: prod.splits)

end
