(* ===== verification/Fixtures.thy ===== *)
theory Fixtures
  imports Run_Store Cron_Schedule
begin

text \<open>
  A small concrete installation: an agent with a daily schedule, a cron library that fires at
  every midnight UTC, and identifiers numbered in sequence. The witnesses of the properties
  evaluate the model on it.
\<close>

definition demo_pg :: postgres where
  "demo_pg = \<lparr>uuid_in = (\<lambda>i. if i = [] then None else Some i), uuid_v4 = (\<lambda>n. ''id-'' @ Itoa (int n)),
     jsonb_in = Some\<rparr>"

definition Day :: duration where "Day = 86400000000"

definition daily :: cron where
  "daily loc t = t - t mod Day + Day"

definition demo_env :: time_env where
  "demo_env =
     \<lparr>LoadLocation = (\<lambda>tz. if tz = ''UTC'' then Some (\<lambda>_. 0) else None),
      ParseStandard = (\<lambda>e. if e = ''0 0 * * *'' then Inr daily else Inl (Errorf ''bad expression''))\<rparr>"

definition demo_user :: user_row where
  "demo_user =
     \<lparr>usr_id = OwnerUserID, usr_email = ''owner@localhost'', usr_password_hash = [], usr_created_at = 0,
      usr_telegram_chat_id = ''42'',
      usr_failure_alerts_enabled = True, usr_custom_providers = []\<rparr>"

definition demo_agent :: "string \<Rightarrow> agent_row" where
  "demo_agent i =
     \<lparr>ag_id = i, ag_user_id = OwnerUserID, ag_name = ''Digest'', ag_description = [],
      ag_model = ''m'', ag_base_url = [], ag_system_prompt = [], ag_user_prompt = ''go'',
      ag_tools = [ToolMemoryWrite], ag_max_steps = 3, ag_max_tokens = 1000,
      ag_max_duration_seconds = 600, ag_context_mode = ContextFresh, ag_context_runs = 0,
      ag_secret_name = DefaultSecretName, ag_enabled = True, ag_consecutive_failures = 0,
      ag_failure_notified_at = None, ag_created_at = 1, ag_updated_at = 1\<rparr>"

text \<open>Noon of day 739402, June 1, 2025; the schedule was due at the midnight before.\<close>

definition demo_now :: time where "demo_now = 739402 * Day + Minute"

definition demo_schedule :: "string \<Rightarrow> string \<Rightarrow> schedule_row" where
  "demo_schedule i a =
     \<lparr>sch_id = i, sch_user_id = OwnerUserID, sch_agent_id = a, sch_cron_expression = ''0 0 * * *'',
      sch_timezone = ''UTC'', sch_enabled = True, sch_next_fire_at = Some (739402 * Day),
      sch_last_fired_at = None, sch_last_fired_wall = [], sch_created_at = 1, sch_updated_at = 1\<rparr>"

definition demo_run :: "string \<Rightarrow> string \<Rightarrow> string \<Rightarrow> time \<Rightarrow> run_row" where
  "demo_run i a status at = new_run_row i OwnerUserID a None TriggerManual status at 1"

definition demo_db :: database where
  "demo_db =
     \<lparr>users = [demo_user], agents = [demo_agent ''a1''], schedules = [demo_schedule ''s1'' ''a1''],
      runs = [demo_run ''r1'' ''a1'' RunPending 5], run_steps = [], memory_records = [],
      secrets = [], sessions = []\<rparr>"

definition demo_server :: server where
  "demo_server = \<lparr>tables = demo_db, outcomes = [], pg_now = demo_now, serial = 0\<rparr>"

lemmas demo_defs =
  demo_pg_def demo_env_def demo_user_def demo_agent_def demo_schedule_def demo_run_def demo_db_def
  demo_server_def demo_now_def Day_def

lemma daily_later: "cron_later daily loc"
proof -
  have "t < t - t mod Day + Day" for t :: int
    using pos_mod_bound [of Day t] by (simp add: Day_def)
  then show ?thesis by (simp add: cron_later_def daily_def)
qed

lemma demo_Parse_later: "Parse demo_env e tz = Inr spec \<Longrightarrow> spec_later spec"
  by (drule Parse_ok) (auto simp: demo_env_def spec_later_def daily_later split: if_splits)

lemma demo_db_wf: "db_wf demo_db"
  by (simp add: db_wf_defs demo_defs new_run_row_def run_statuses_def)

end
