(* ===== verification/Reaper.thy ===== *)
theory Reaper
  imports Fixtures
begin

text \<open>
  \<open>pkg/reaper\<close>: failing the runs whose worker stopped renewing its lease, in one statement that
  also counts the failure against their agents.
\<close>

section \<open>Definitions\<close>

definition LeaseTTL :: duration where "LeaseTTL = 60 * Second"

definition RenewalInterval :: duration where "RenewalInterval = 15 * Second"

definition lostWorkerMessage :: string where
  "lostWorkerMessage = ''worker stopped reporting; the run was abandoned''"

definition lease_expired :: "time \<Rightarrow> run_row \<Rightarrow> bool" where
  "lease_expired now r \<longleftrightarrow>
     r_status r = RunRunning \<and>
     (case r_lease_expires_at r of None \<Rightarrow> False | Some t \<Rightarrow> t < now)"

definition reap_row :: "time \<Rightarrow> run_row \<Rightarrow> run_row" where
  "reap_row now r =
     r\<lparr>r_status := RunFailed, r_error := lostWorkerMessage, r_finished_at := Some now\<rparr>"

definition count_failure :: "agent_row \<Rightarrow> agent_row" where
  "count_failure a = a\<lparr>ag_consecutive_failures := ag_consecutive_failures a + 1\<rparr>"

text \<open>
  The \<open>WITH reaped AS (\<dots>), counted AS (\<dots>)\<close> statement: both updates see the rows as they were
  before it, and an agent is counted once however many of its runs were reaped.
\<close>

definition reap_stmt :: "time \<Rightarrow> server \<Rightarrow> nat res \<times> server" where
  "reap_stmt now s =
     (let d = tables s; reaped = filter (lease_expired now) (runs d) in
      (Inr (length reaped),
       s\<lparr>tables := d\<lparr>
         runs := update_where (lease_expired now) (reap_row now) (runs d),
         agents := update_where (\<lambda>a. ag_id a \<in> r_agent_id ` set reaped) count_failure (agents d)\<rparr>\<rparr>))"

definition Reaper_RunOnce :: "time \<Rightarrow> server \<Rightarrow> nat res \<times> server" where
  "Reaper_RunOnce now s = pool_call (reap_stmt now) s"

section \<open>Lemmas\<close>

interpretation reap_stmt: statement "reap_stmt now" for now
  by unfold_locales (auto simp: reap_stmt_def Let_def)

interpretation reap_upd: row_update r_id "reap_row now" for now
  by unfold_locales (simp add: reap_row_def)

interpretation count_upd: row_update ag_id count_failure
  by unfold_locales (simp add: count_failure_def)

lemma reap_row_not_expired: "\<not> lease_expired t (reap_row now r)"
  by (simp add: lease_expired_def reap_row_def)

lemma Reaper_ok:
  "Reaper_RunOnce now s = (Inr n, s') \<Longrightarrow>
     n = length (filter (lease_expired now) (runs (tables s))) \<and>
     tables s' = (tables s)\<lparr>
         runs := update_where (lease_expired now) (reap_row now) (runs (tables s)),
         agents := update_where
           (\<lambda>a. ag_id a \<in> r_agent_id ` set (filter (lease_expired now) (runs (tables s))))
           count_failure (agents (tables s))\<rparr>"
  using reap_stmt.pool_ok [of now s n s']
  by (simp add: Reaper_RunOnce_def reap_stmt_def Let_def)

section \<open>Properties\<close>

text \<open>
  C19: after a pass that succeeds no running run holds an expired lease. The rows with an expired
  lease, and no other, are failed with the abandoned-run message at the time of the pass, and
  their number is what the pass reports.
\<close>

theorem reaper_fails_exactly_expired:
  assumes "Reaper_RunOnce now s = (Inr n, s')"
  shows "(\<forall>r \<in> set (runs (tables s')). \<not> lease_expired now r) \<and>
         n = length (filter (lease_expired now) (runs (tables s))) \<and>
         length (runs (tables s')) = length (runs (tables s)) \<and>
         (\<forall>i < length (runs (tables s)).
            let old = runs (tables s) ! i; new = runs (tables s') ! i in
            if lease_expired now old
            then new = old\<lparr>r_status := RunFailed, r_error := lostWorkerMessage,
                           r_finished_at := Some now\<rparr>
            else new = old)"
proof -
  note ok = Reaper_ok [OF assms]
  have "\<forall>r \<in> set (runs (tables s')). \<not> lease_expired now r"
    using ok by (auto simp: set_update_where reap_row_not_expired)
  moreover have "\<forall>i < length (runs (tables s)).
      let old = runs (tables s) ! i; new = runs (tables s') ! i in
      if lease_expired now old
      then new = old\<lparr>r_status := RunFailed, r_error := lostWorkerMessage, r_finished_at := Some now\<rparr>
      else new = old"
    using ok by (simp add: update_where_def reap_row_def Let_def)
  ultimately show ?thesis using ok by simp
qed

definition stale_run :: run_row where
  "stale_run = (demo_run ''r2'' ''a1'' RunRunning 5)\<lparr>r_lease_expires_at := Some 10\<rparr>"

definition stale_server :: server where
  "stale_server = demo_server\<lparr>tables := demo_db\<lparr>runs := [demo_run ''r1'' ''a1'' RunPending 5, stale_run]\<rparr>\<rparr>"

theorem reaper_fails_exactly_expired_witness:
  "\<exists>s'. Reaper_RunOnce 11 stale_server = (Inr 1, s') \<and>
        (\<forall>r \<in> set (runs (tables s')). \<not> lease_expired 11 r)"
proof -
  obtain s' where "Reaper_RunOnce 11 stale_server = (Inr 1, s')"
    by (simp add: Reaper_RunOnce_def reap_stmt_def stale_server_def demo_server_def Let_def
        lease_expired_def stale_run_def demo_run_def new_run_row_def)
  with reaper_fails_exactly_expired [OF this] show ?thesis by blast
qed

text \<open>
  The pass counts a failure against exactly the agents that own a reaped run, by one however
  many of their runs it reaped, and changes nothing else of any agent.
\<close>

theorem reaper_counts_each_agent_once:
  assumes "Reaper_RunOnce now s = (Inr n, s')"
  shows "agents (tables s') =
     map (\<lambda>a. if \<exists>r \<in> set (runs (tables s)). r_agent_id r = ag_id a \<and> lease_expired now r
              then a\<lparr>ag_consecutive_failures := ag_consecutive_failures a + 1\<rparr> else a)
       (agents (tables s))"
proof -
  have cond: "ag_id a \<in> r_agent_id ` {r \<in> set (runs (tables s)). lease_expired now r} \<longleftrightarrow>
      (\<exists>r \<in> set (runs (tables s)). r_agent_id r = ag_id a \<and> lease_expired now r)" for a
    by (auto simp: image_iff)
  from Reaper_ok [OF assms] show ?thesis
    by (simp add: update_where_def count_failure_def cond)
qed

theorem reaper_counts_each_agent_once_witness:
  "\<exists>s'. Reaper_RunOnce 11 stale_server = (Inr 1, s') \<and>
        map ag_consecutive_failures (agents (tables s')) = [1]"
proof -
  obtain s' where run: "Reaper_RunOnce 11 stale_server = (Inr 1, s')"
    by (simp add: Reaper_RunOnce_def reap_stmt_def stale_server_def demo_server_def Let_def
        lease_expired_def stale_run_def demo_run_def new_run_row_def)
  with reaper_counts_each_agent_once [OF run] show ?thesis
    by (simp add: stale_server_def demo_server_def demo_db_def demo_agent_def stale_run_def
        demo_run_def new_run_row_def lease_expired_def)
qed

end
