(* ===== verification/Grpc_Api.thy ===== *)
theory Grpc_Api
  imports Taskd_Prelude "HOL-Library.Word"
begin

text \<open>
  The messages of \<open>pkg/grpcapi/api.proto\<close> that coordinator and workers exchange. Integer fields
  keep their wire width; an enum of proto3 is open, so a status outside the listed ones can
  arrive.
\<close>

datatype RunStatus =
    RUN_STATUS_UNSPECIFIED
  | RUNNING
  | SUCCEEDED
  | FAILED
  | BUDGET_EXCEEDED
  | RunStatus_other int

record RunRequest =
  RunRequest_RunId :: string
  RunRequest_AgentId :: string

record RunResponse =
  RunResponse_RunId :: string
  RunResponse_Accepted :: bool
  RunResponse_Message :: string

record UpdateRunStatusRequest =
  Update_RunId :: string
  Update_Status :: RunStatus
  Update_Output :: string
  Update_Error :: string
  Update_PromptTokens :: "32 word"
  Update_CompletionTokens :: "32 word"

record HeartbeatRequest =
  Heartbeat_WorkerId :: "32 word"
  Heartbeat_Address :: string

text \<open>The request with every field but the run, the status and the error at its zero value.\<close>

definition status_request :: "string \<Rightarrow> RunStatus \<Rightarrow> string \<Rightarrow> UpdateRunStatusRequest" where
  "status_request runID status err =
     \<lparr>Update_RunId = runID, Update_Status = status, Update_Output = [], Update_Error = err,
      Update_PromptTokens = 0, Update_CompletionTokens = 0\<rparr>"

end
