(* ===== verification/Coordinator.thy ===== *)
theory Coordinator
  imports Reaper Grpc_Api
begin

text \<open>
  What the coordinator of \<open>pkg/coordinator\<close> writes about a run on a worker's behalf:
  \<open>UpdateRunStatus\<close> and \<open>RenewLease\<close>. Its pool of workers is in \<open>Worker_Pool\<close>, the
  dispatch of due runs in \<open>Dispatch\<close>.
\<close>

section \<open>Reports and leases (UpdateRunStatus, RenewLease)\<close>

definition start_row :: "time \<Rightarrow> run_row \<Rightarrow> run_row" where
  "start_row now r = r\<lparr>r_status := RunRunning, r_started_at := Some now\<rparr>"

definition finish_row :: "string \<Rightarrow> time \<Rightarrow> UpdateRunStatusRequest \<Rightarrow> run_row \<Rightarrow> run_row" where
  "finish_row status now req r =
     r\<lparr>r_status := status, r_finished_at := Some now, r_output := Update_Output req,
       r_error := Update_Error req, r_prompt_tokens := sint (Update_PromptTokens req),
       r_completion_tokens := sint (Update_CompletionTokens req), r_lease_expires_at := None\<rparr>"

definition clear_failures :: "agent_row \<Rightarrow> agent_row" where
  "clear_failures a = a\<lparr>ag_consecutive_failures := 0, ag_failure_notified_at := None\<rparr>"

text \<open>\<open>WHERE id = (SELECT agent_id FROM runs WHERE id = $1)\<close>.\<close>

definition owns_run :: "database \<Rightarrow> string \<Rightarrow> agent_row \<Rightarrow> bool" where
  "owns_run d u a \<longleftrightarrow> (\<exists>r \<in> set (runs d). r_id r = u \<and> r_agent_id r = ag_id a)"

definition recordAgentOutcome ::
    "postgres \<Rightarrow> string \<Rightarrow> bool \<Rightarrow> server \<Rightarrow> unit res \<times> server" where
  "recordAgentOutcome pg runID succeeded s =
     (if succeeded then
        pool_call (with_uuid pg runID (\<lambda>u. exec (\<lambda>d.
          d\<lparr>agents := update_where (owns_run d u) clear_failures (agents d)\<rparr>))) s
      else
        pool_call (with_uuid pg runID (\<lambda>u. exec (\<lambda>d.
          d\<lparr>agents := update_where (owns_run d u) count_failure (agents d)\<rparr>))) s)"

definition start_stmt :: "postgres \<Rightarrow> string \<Rightarrow> time \<Rightarrow> server \<Rightarrow> unit res \<times> server" where
  "start_stmt pg runID now = with_uuid pg runID (\<lambda>u. exec (\<lambda>d.
     d\<lparr>runs := update_where (\<lambda>r. r_id r = u) (start_row now) (runs d)\<rparr>))"

definition finish_stmt ::
    "postgres \<Rightarrow> string \<Rightarrow> time \<Rightarrow> UpdateRunStatusRequest \<Rightarrow> server \<Rightarrow> unit res \<times> server" where
  "finish_stmt pg status now req = with_uuid pg (Update_RunId req) (\<lambda>u. exec (\<lambda>d.
     d\<lparr>runs := update_where (\<lambda>r. r_id r = u) (finish_row status now req) (runs d)\<rparr>))"

definition reported_status :: "RunStatus \<Rightarrow> string" where
  "reported_status st =
     (if st = BUDGET_EXCEEDED then RunBudgetExceeded
      else if st = FAILED then RunFailed else RunSucceeded)"

definition status_name :: "RunStatus \<Rightarrow> string" where
  "status_name st =
     (case st of
        RUN_STATUS_UNSPECIFIED \<Rightarrow> ''RUN_STATUS_UNSPECIFIED'' | RUNNING \<Rightarrow> ''RUNNING''
      | SUCCEEDED \<Rightarrow> ''SUCCEEDED'' | FAILED \<Rightarrow> ''FAILED'' | BUDGET_EXCEEDED \<Rightarrow> ''BUDGET_EXCEEDED''
      | RunStatus_other n \<Rightarrow> Itoa n)"

definition UpdateRunStatus ::
    "postgres \<Rightarrow> time \<Rightarrow> UpdateRunStatusRequest \<Rightarrow> server \<Rightarrow> bool res \<times> server" where
  "UpdateRunStatus pg now req s =
     (if Update_Status req = RUNNING then
        (case pool_call (start_stmt pg (Update_RunId req) now) s of
           (Inl e, s1) \<Rightarrow> (Inl e, s1)
         | (Inr _, s1) \<Rightarrow> (Inr True, s1))
      else if Update_Status req \<in> {SUCCEEDED, FAILED, BUDGET_EXCEEDED} then
        let status = reported_status (Update_Status req) in
        (case pool_call (finish_stmt pg status now req) s of
           (Inl e, s1) \<Rightarrow> (Inl e, s1)
         | (Inr _, s1) \<Rightarrow>
             (case recordAgentOutcome pg (Update_RunId req) (status = RunSucceeded) s1 of
                (Inl e, s2) \<Rightarrow> (Inl e, s2)
              | (Inr _, s2) \<Rightarrow> (Inr True, s2)))
      else (Inl (Errorf (''unsupported run status: '' @ status_name (Update_Status req))), s))"

definition renew_row :: "time \<Rightarrow> run_row \<Rightarrow> run_row" where
  "renew_row t r = r\<lparr>r_lease_expires_at := Some t\<rparr>"

definition renew_stmt :: "string \<Rightarrow> time \<Rightarrow> server \<Rightarrow> nat res \<times> server" where
  "renew_stmt u t s =
     (let p = (\<lambda>r. r_id r = u \<and> r_status r = RunRunning) in
      (Inr (length (filter p (runs (tables s)))),
       s\<lparr>tables := (tables s)\<lparr>runs := update_where p (renew_row t) (runs (tables s))\<rparr>\<rparr>))"

definition RenewLease :: "postgres \<Rightarrow> time \<Rightarrow> string \<Rightarrow> server \<Rightarrow> bool res \<times> server" where
  "RenewLease pg now runID s =
     (case pool_call (with_uuid pg runID (\<lambda>u. renew_stmt u (now + LeaseTTL))) s of
        (Inl e, s1) \<Rightarrow> (Inl e, s1)
      | (Inr affected, s1) \<Rightarrow> (Inr (affected = 1), s1))"

section \<open>Lemmas on reports and leases\<close>

interpretation start_upd: row_update r_id "start_row now" for now
  by unfold_locales (simp add: start_row_def)

interpretation finish_upd: row_update r_id "finish_row status now req" for status now req
  by unfold_locales (simp add: finish_row_def)

interpretation renew_upd: row_update r_id "renew_row t" for t
  by unfold_locales (simp add: renew_row_def)

interpretation clear_upd: row_update ag_id clear_failures
  by unfold_locales (simp add: clear_failures_def)

interpretation start_stmt: statement "start_stmt pg runID now" for pg runID now
  unfolding start_stmt_def by (rule statement_with_uuid) (rule statement_exec)

interpretation finish_stmt: statement "finish_stmt pg status now req" for pg status now req
  unfolding finish_stmt_def by (rule statement_with_uuid) (rule statement_exec)

interpretation renew_stmt: statement "renew_stmt u t" for u t
  by unfold_locales (auto simp: renew_stmt_def Let_def)

lemma with_uuid_Some: "uuid_in pg i = Some u \<Longrightarrow> with_uuid pg i k s = k u s"
  by (simp add: with_uuid_def)

lemma with_uuid_ok: "with_uuid pg i k s = (Inr a, s') \<Longrightarrow> \<exists>u. uuid_in pg i = Some u \<and> k u s = (Inr a, s')"
  by (auto simp: with_uuid_def split: option.splits)

lemma recordAgentOutcome_eq:
  "recordAgentOutcome pg i succeeded = pool_call (with_uuid pg i (\<lambda>u. exec (\<lambda>d.
     d\<lparr>agents := update_where (owns_run d u)
       (if succeeded then clear_failures else count_failure) (agents d)\<rparr>)))"
  by (cases succeeded) (auto simp: recordAgentOutcome_def fun_eq_iff)

lemma recordAgentOutcome_ok:
  assumes run: "recordAgentOutcome pg i succeeded s = (Inr a, s')" and u: "uuid_in pg i = Some u"
  shows "tables s' = (tables s)\<lparr>agents := update_where (owns_run (tables s) u)
    (if succeeded then clear_failures else count_failure) (agents (tables s))\<rparr>"
  using statement.pool_ok [OF statement_with_uuid [OF statement_exec] run [unfolded recordAgentOutcome_eq]]
  by (simp add: with_uuid_Some [OF u] exec_def)

section \<open>Properties of reports and leases\<close>

text \<open>
  C20: a worker's final report. Answered without an error it sets the status the worker reported,
  its output, error and token counts, stamps the end and drops the lease of exactly the run it
  names; the owning agent's failure count goes to zero (and its alert mark is cleared) on
  success and up by one otherwise; no other row of any table changes.
\<close>

theorem final_report_effect:
  assumes "Update_Status req \<in> {SUCCEEDED, FAILED, BUDGET_EXCEEDED}"
    and "uuid_in pg (Update_RunId req) = Some u"
    and "UpdateRunStatus pg now req s = (Inr ok, s')"
  shows "ok \<and> tables s' = (tables s)\<lparr>
      runs := map (\<lambda>r. if r_id r = u then r\<lparr>
          r_status := (if Update_Status req = SUCCEEDED then RunSucceeded
                       else if Update_Status req = FAILED then RunFailed else RunBudgetExceeded),
          r_finished_at := Some now, r_output := Update_Output req, r_error := Update_Error req,
          r_prompt_tokens := sint (Update_PromptTokens req),
          r_completion_tokens := sint (Update_CompletionTokens req),
          r_lease_expires_at := None\<rparr> else r) (runs (tables s)),
      agents := map (\<lambda>a. if \<exists>r \<in> set (runs (tables s)). r_id r = u \<and> r_agent_id r = ag_id a then
          (if Update_Status req = SUCCEEDED
           then a\<lparr>ag_consecutive_failures := 0, ag_failure_notified_at := None\<rparr>
           else a\<lparr>ag_consecutive_failures := ag_consecutive_failures a + 1\<rparr>) else a)
        (agents (tables s))\<rparr>"
  (is "ok \<and> tables s' = (tables s)\<lparr>runs := ?runs, agents := ?agents\<rparr>")
proof -
  let ?status = "reported_status (Update_Status req)"
  have st: "?status = (if Update_Status req = SUCCEEDED then RunSucceeded
      else if Update_Status req = FAILED then RunFailed else RunBudgetExceeded)"
    using assms(1) by (auto simp: reported_status_def)
  have succ: "(?status = RunSucceeded) = (Update_Status req = SUCCEEDED)"
    using assms(1) by (auto simp: reported_status_def)
  have ne: "Update_Status req \<noteq> RUNNING" using assms(1) by auto
  note run = assms(3) [unfolded UpdateRunStatus_def if_not_P [OF ne] if_P [OF assms(1)] Let_def]
  from bind_ok [OF run] obtain a s1 where fin: "pool_call (finish_stmt pg ?status now req) s = (Inr a, s1)"
    and rest: "(case recordAgentOutcome pg (Update_RunId req) (?status = RunSucceeded) s1 of
       (Inl e, s2) \<Rightarrow> (Inl e, s2) | (Inr _, s2) \<Rightarrow> (Inr True, s2)) = (Inr ok, s')" by blast
  from bind_ok [OF rest] obtain a2 s2
    where out2: "recordAgentOutcome pg (Update_RunId req) (?status = RunSucceeded) s1 = (Inr a2, s2)"
      and eq: "(Inr True :: bool res, s2) = (Inr ok, s')" by (elim exE conjE)
  from eq have ok and s2: "s2 = s'" by simp_all
  note out = out2 [unfolded s2]
  have t1: "tables s1 = (tables s)\<lparr>runs := update_where (\<lambda>r. r_id r = u)
      (finish_row ?status now req) (runs (tables s))\<rparr>"
    using finish_stmt.pool_ok [OF fin] assms(2)
    by (simp add: finish_stmt_def with_uuid_Some exec_def)
  have owns: "owns_run (tables s1) u a = owns_run (tables s) u a" for a
    unfolding owns_run_def by (simp add: t1 bex_update_where) (auto simp: finish_row_def)
  note t2 = recordAgentOutcome_ok [OF out assms(2), unfolded succ]
  have r: "update_where (\<lambda>r. r_id r = u) (finish_row ?status now req) (runs (tables s)) = ?runs"
    unfolding update_where_def finish_row_def st by (rule refl)
  have a: "update_where (owns_run (tables s) u)
      (if Update_Status req = SUCCEEDED then clear_failures else count_failure) (agents (tables s)) = ?agents"
    unfolding update_where_def owns_run_def
    by (cases "Update_Status req = SUCCEEDED")
      (simp_all only: simp_thms if_True if_False clear_failures_def count_failure_def)
  have o: "owns_run (tables s1) u = owns_run (tables s) u" using owns by blast
  have ag: "agents (tables s1) = agents (tables s)" by (simp add: t1)
  show ?thesis unfolding t2 o ag a using \<open>ok\<close> by (simp add: t1 r)
qed

definition demo_report :: UpdateRunStatusRequest where
  "demo_report = (status_request ''r1'' FAILED ''boom'')\<lparr>Update_PromptTokens := 7\<rparr>"

lemma demo_report_answered: "fst (UpdateRunStatus demo_pg 20 demo_report demo_server) = Inr True"
  by (simp add: UpdateRunStatus_def demo_report_def status_request_def demo_server_def
      finish_stmt_def recordAgentOutcome_def with_uuid_def demo_pg_def exec_def Let_def)

theorem final_report_effect_witness:
  "\<exists>s'. UpdateRunStatus demo_pg 20 demo_report demo_server = (Inr True, s') \<and>
     map r_status (runs (tables s')) = [RunFailed] \<and> map r_prompt_tokens (runs (tables s')) = [7] \<and>
     map ag_consecutive_failures (agents (tables s')) = [1]"
proof -
  obtain s' where run: "UpdateRunStatus demo_pg 20 demo_report demo_server = (Inr True, s')"
    using demo_report_answered by (metis prod.collapse)
  have st: "Update_Status demo_report \<in> {SUCCEEDED, FAILED, BUDGET_EXCEEDED}"
    and u: "uuid_in demo_pg (Update_RunId demo_report) = Some ''r1''"
    by (simp_all add: demo_report_def status_request_def demo_pg_def)
  from final_report_effect [OF st u run] run show ?thesis
    by (simp add: demo_report_def status_request_def demo_server_def demo_db_def demo_run_def
        new_run_row_def demo_agent_def)
qed

text \<open>
  A report with a status workers may not set is refused and changes nothing.
\<close>

theorem unsupported_report_refused:
  assumes "Update_Status req \<notin> {RUNNING, SUCCEEDED, FAILED, BUDGET_EXCEEDED}"
  shows "(\<exists>msg. fst (UpdateRunStatus pg now req s) = Inl (Errorf msg)) \<and>
         snd (UpdateRunStatus pg now req s) = s"
  using assms by (simp add: UpdateRunStatus_def)

theorem unsupported_report_refused_witness:
  "snd (UpdateRunStatus demo_pg 20 (status_request ''r1'' RUN_STATUS_UNSPECIFIED []) demo_server)
     = demo_server"
  using unsupported_report_refused [of "status_request ''r1'' RUN_STATUS_UNSPECIFIED []"]
  by (simp add: status_request_def)

text \<open>
  A renewed lease protects the run. Once a renewal at time \<open>t\<close> has been answered with
  success, a reaper pass up to four renewal intervals later leaves the run running, so three
  renewals in a row may be lost without costing the worker its run.
\<close>

theorem renewed_lease_protects:
  assumes "uuid_in pg runID = Some u" and "RenewLease pg t runID s = (Inr True, s1)"
    and "now \<le> t + 4 * RenewalInterval" and "Reaper_RunOnce now s1 = (Inr n, s2)"
  shows "\<exists>r \<in> set (runs (tables s2)). r_id r = u \<and> r_status r = RunRunning"
proof -
  let ?p = "\<lambda>r. r_id r = u \<and> r_status r = RunRunning"
  from assms(2) have pc: "pool_call (with_uuid pg runID (\<lambda>u. renew_stmt u (t + LeaseTTL))) s = (Inr 1, s1)"
    by (auto simp: RenewLease_def split: prod.splits sum.splits)
  have stmt: "statement (with_uuid pg runID (\<lambda>u. renew_stmt u (t + LeaseTTL)))"
    by (rule statement_with_uuid) unfold_locales
  from statement.pool_ok [OF stmt pc] assms(1)
  have one: "length (filter ?p (runs (tables s))) = 1"
    and t1: "tables s1 = (tables s)\<lparr>runs := update_where ?p (renew_row (t + LeaseTTL)) (runs (tables s))\<rparr>"
    by (simp_all add: with_uuid_Some renew_stmt_def Let_def)
  from one have "filter ?p (runs (tables s)) \<noteq> []" by auto
  then obtain r where r: "r \<in> set (runs (tables s))" "?p r"
    by (auto simp: filter_empty_conv)
  let ?r = "renew_row (t + LeaseTTL) r"
  have in1: "?r \<in> set (runs (tables s1))"
    using r by (force simp: t1 set_update_where)
  have "\<not> lease_expired now ?r"
    using assms(3) by (simp add: lease_expired_def renew_row_def LeaseTTL_def RenewalInterval_def)
  then have "?r \<in> set (runs (tables s2))"
    using Reaper_ok [OF assms(4)] reap_upd.other_rows_kept [OF in1] by simp
  then show ?thesis using r by (intro bexI [of _ ?r]) (simp_all add: renew_row_def)
qed

theorem renewed_lease_protects_witness:
  "\<exists>s1 s2. RenewLease demo_pg 5 ''r2'' stale_server = (Inr True, s1) \<and>
     Reaper_RunOnce 30000000 s1 = (Inr 0, s2) \<and>
     (\<exists>r \<in> set (runs (tables s2)). r_id r = ''r2'' \<and> r_status r = RunRunning)"
proof -
  have u: "uuid_in demo_pg ''r2'' = Some ''r2''" by (simp add: demo_pg_def)
  have le: "(30000000 :: time) \<le> 5 + 4 * RenewalInterval"
    by (simp add: RenewalInterval_def Second_def)
  obtain s1 s2 where run: "RenewLease demo_pg 5 ''r2'' stale_server = (Inr True, s1)"
      "Reaper_RunOnce 30000000 s1 = (Inr 0, s2)"
    by (simp add: RenewLease_def with_uuid_def demo_pg_def renew_stmt_def stale_server_def
        demo_server_def Let_def stale_run_def demo_run_def new_run_row_def renew_row_def
        Reaper_RunOnce_def reap_stmt_def lease_expired_def LeaseTTL_def Second_def)
  with renewed_lease_protects [OF u run(1) le run(2)] show ?thesis by blast
qed

definition late_start :: UpdateRunStatusRequest where
  "late_start = status_request ''r2'' RUNNING []"

text \<open>
  A report that a run is running is not guarded by the run's current status. A run the reaper
  has already failed is set running again by a late report, and a further pass fails it a
  second time: one abandoned run is counted twice against its agent.
\<close>

theorem late_report_revives_reaped_run:
  "\<exists>s1 s2 s3. Reaper_RunOnce 11 stale_server = (Inr 1, s1) \<and>
     map r_status (runs (tables s1)) = [RunPending, RunFailed] \<and>
     UpdateRunStatus demo_pg 12 late_start s1 = (Inr True, s2) \<and>
     map r_status (runs (tables s2)) = [RunPending, RunRunning] \<and>
     Reaper_RunOnce 13 s2 = (Inr 1, s3) \<and>
     map ag_consecutive_failures (agents (tables s3)) = [2]"
  by (simp add: Reaper_RunOnce_def reap_stmt_def stale_server_def demo_server_def Let_def demo_db_def
      lease_expired_def stale_run_def demo_run_def new_run_row_def UpdateRunStatus_def late_start_def
      status_request_def start_stmt_def with_uuid_def demo_pg_def exec_def start_row_def reap_row_def
      count_failure_def demo_agent_def del: set_filter)
end
