(* ===== verification/Worker_Pool.thy ===== *)
theory Worker_Pool
  imports Coordinator "HOL-Library.AList"
begin

text \<open>
  The pool of workers of \<open>pkg/coordinator/coordinator.go\<close>: registration by heartbeat, the
  round robin over the registered workers and the sweep that drops the silent ones.
\<close>

section \<open>The pool of workers\<close>

text \<open>
  A worker's connection and client are determined by its address. A Go map is an association
  list with distinct keys; \<open>order\<close> is the order in which a \<open>range\<close> loop visits the keys.
\<close>

record workerInfo =
  heartbeatMisses :: "8 word"
  worker_address :: string

record CoordinatorServer =
  WorkerPool :: "(32 word \<times> workerInfo) list"
  WorkerPoolKeys :: "32 word list"
  maxHeartbeatMisses :: "8 word"
  roundRobinIndex :: "32 word"

type_synonym range_order = "32 word list \<Rightarrow> 32 word list"

definition range_perm :: "range_order \<Rightarrow> bool" where
  "range_perm order \<longleftrightarrow> (\<forall>ks. distinct ks \<longrightarrow> distinct (order ks) \<and> set (order ks) = set ks)"

definition defaultMaxMisses :: "8 word" where "defaultMaxMisses = 1"

definition NewServerWithClock :: CoordinatorServer where
  "NewServerWithClock =
     \<lparr>WorkerPool = [], WorkerPoolKeys = [], maxHeartbeatMisses = defaultMaxMisses,
      roundRobinIndex = 0\<rparr>"

definition getNextWorker :: "CoordinatorServer \<Rightarrow> workerInfo option \<times> CoordinatorServer" where
  "getNextWorker c =
     (let workerCount = length (WorkerPoolKeys c) in
      if workerCount = 0 then (None, c)
      else
        (map_of (WorkerPool c)
           (WorkerPoolKeys c ! unat (roundRobinIndex c mod of_nat workerCount)),
         c\<lparr>roundRobinIndex := roundRobinIndex c + 1\<rparr>))"

text \<open>\<open>dial\<close> is \<open>grpc.Dial\<close>: None when it gives a connection, otherwise its error.\<close>

definition SendHeartbeat ::
    "range_order \<Rightarrow> (string \<Rightarrow> go_error option) \<Rightarrow> HeartbeatRequest \<Rightarrow> CoordinatorServer
      \<Rightarrow> bool res \<times> CoordinatorServer" where
  "SendHeartbeat order dial req c =
     (let workerID = Heartbeat_WorkerId req in
      case map_of (WorkerPool c) workerID of
        Some worker \<Rightarrow>
          (Inr True, c\<lparr>WorkerPool := AList.update workerID (worker\<lparr>heartbeatMisses := 0\<rparr>) (WorkerPool c)\<rparr>)
      | None \<Rightarrow>
          (case dial (Heartbeat_Address req) of
             Some e \<Rightarrow> (Inl e, c)
           | None \<Rightarrow>
               let pool = AList.update workerID
                     \<lparr>heartbeatMisses = 0, worker_address = Heartbeat_Address req\<rparr> (WorkerPool c)
               in (Inr True, c\<lparr>WorkerPool := pool, WorkerPoolKeys := order (map fst pool)\<rparr>)))"

fun sweep_loop :: "range_order \<Rightarrow> 32 word list \<Rightarrow> CoordinatorServer \<Rightarrow> CoordinatorServer" where
  "sweep_loop order [] c = c"
| "sweep_loop order (workerID # ids) c =
     (case map_of (WorkerPool c) workerID of
        None \<Rightarrow> sweep_loop order ids c
      | Some worker \<Rightarrow>
          if heartbeatMisses worker > maxHeartbeatMisses c then
            let pool = AList.delete workerID (WorkerPool c) in
            sweep_loop order ids (c\<lparr>WorkerPool := pool, WorkerPoolKeys := order (map fst pool)\<rparr>)
          else
            sweep_loop order ids (c\<lparr>WorkerPool := AList.update workerID
              (worker\<lparr>heartbeatMisses := heartbeatMisses worker + 1\<rparr>) (WorkerPool c)\<rparr>))"

definition removeInactiveWorkers :: "range_order \<Rightarrow> CoordinatorServer \<Rightarrow> CoordinatorServer" where
  "removeInactiveWorkers order c = sweep_loop order (order (map fst (WorkerPool c))) c"

section \<open>The invariant of the pool\<close>

text \<open>
  The keys list the pool, each once, and no worker is more than one sweep past the number of
  misses the coordinator tolerates.
\<close>

definition pool_wf :: "CoordinatorServer \<Rightarrow> bool" where
  "pool_wf c \<longleftrightarrow>
     maxHeartbeatMisses c = defaultMaxMisses \<and>
     distinct (map fst (WorkerPool c)) \<and> distinct (WorkerPoolKeys c) \<and>
     set (WorkerPoolKeys c) = fst ` set (WorkerPool c) \<and>
     (\<forall>w \<in> snd ` set (WorkerPool c). heartbeatMisses w \<le> maxHeartbeatMisses c + 1)"

text \<open>What happens to a pool: heartbeats of workers, sweeps, and the choice of a worker.\<close>

datatype pool_event =
    Beat range_order "string \<Rightarrow> go_error option" HeartbeatRequest
  | Sweep range_order
  | Choose

primrec pool_apply :: "pool_event \<Rightarrow> CoordinatorServer \<Rightarrow> CoordinatorServer" where
  "pool_apply (Beat order dial req) c = snd (SendHeartbeat order dial req c)"
| "pool_apply (Sweep order) c = removeInactiveWorkers order c"
| "pool_apply Choose c = snd (getNextWorker c)"

primrec event_ok :: "pool_event \<Rightarrow> bool" where
  "event_ok (Beat order dial req) \<longleftrightarrow> range_perm order"
| "event_ok (Sweep order) \<longleftrightarrow> range_perm order"
| "event_ok Choose \<longleftrightarrow> True"

inductive pool_step :: "CoordinatorServer \<Rightarrow> CoordinatorServer \<Rightarrow> bool" where
  "event_ok ev \<Longrightarrow> pool_step c (pool_apply ev c)"

inductive_cases pool_stepE: "pool_step c c'"

section \<open>Lemmas\<close>

lemma range_permD:
  assumes "range_perm order" and "distinct ks"
  shows "distinct (order ks)" and "set (order ks) = set ks"
  using assms by (simp_all add: range_perm_def)

lemma update_present:
  assumes "k \<in> fst ` set al"
  shows "map fst (AList.update k v al) = map fst al"
  using assms by (simp add: update_keys)

lemma fst_update: "fst ` set (AList.update k v al) = insert k (fst ` set al)"
  using dom_update [of k v al] by (simp add: dom_map_of_conv_image_fst update_conv')

lemma update_entryD: "(a, x) \<in> set (AList.update k v al) \<Longrightarrow> x = v \<or> (a, x) \<in> set al"
  by (induction al) (auto split: if_splits)

lemma delete_entryD: "(a, x) \<in> set (AList.delete k al) \<Longrightarrow> (a, x) \<in> set al"
  by (simp add: AList.delete_eq)

lemma wf_map_of: "pool_wf c \<Longrightarrow> map_of (WorkerPool c) k = Some w \<Longrightarrow>
    heartbeatMisses w \<le> maxHeartbeatMisses c + 1"
  by (force simp: pool_wf_def dest: map_of_SomeD)

lemma pool_wf_init: "pool_wf NewServerWithClock"
  by (simp add: pool_wf_def NewServerWithClock_def)

lemma pool_wf_replace:
  assumes "pool_wf c" and "map_of (WorkerPool c) k = Some w"
    and "heartbeatMisses w' \<le> maxHeartbeatMisses c + 1"
  shows "pool_wf (c\<lparr>WorkerPool := AList.update k w' (WorkerPool c)\<rparr>)"
proof -
  have k: "k \<in> fst ` set (WorkerPool c)" using assms(2) by (force dest: map_of_SomeD)
  have "heartbeatMisses x \<le> maxHeartbeatMisses c + 1"
    if "x \<in> snd ` set (AList.update k w' (WorkerPool c))" for x
    using that assms(1,3) by (fastforce simp: pool_wf_def dest: update_entryD)
  then show ?thesis
    using assms(1) k by (simp add: pool_wf_def update_present fst_update insert_absorb distinct_update)
qed

lemma pool_wf_add:
  assumes "pool_wf c" and "range_perm order" and "heartbeatMisses w = 0"
  shows "pool_wf (c\<lparr>WorkerPool := AList.update k w (WorkerPool c),
      WorkerPoolKeys := order (map fst (AList.update k w (WorkerPool c)))\<rparr>)"
proof -
  have d: "distinct (map fst (AList.update k w (WorkerPool c)))"
    using assms(1) by (simp add: pool_wf_def distinct_update)
  have "heartbeatMisses x \<le> maxHeartbeatMisses c + 1"
    if "x \<in> snd ` set (AList.update k w (WorkerPool c))" for x
    using that assms(1,3) by (fastforce simp: pool_wf_def dest: update_entryD)
  then show ?thesis
    using d range_permD [OF assms(2) d] assms(1) by (simp add: pool_wf_def)
qed

lemma pool_wf_remove:
  assumes "pool_wf c" and "range_perm order"
  shows "pool_wf (c\<lparr>WorkerPool := AList.delete k (WorkerPool c),
      WorkerPoolKeys := order (map fst (AList.delete k (WorkerPool c)))\<rparr>)"
proof -
  have d: "distinct (map fst (AList.delete k (WorkerPool c)))"
    using assms(1) by (simp add: pool_wf_def distinct_delete)
  show ?thesis
    using d range_permD [OF assms(2) d] assms(1)
    by (fastforce simp: pool_wf_def dest: delete_entryD)
qed

lemma bump_misses:
  fixes m :: "8 word"
  assumes "\<not> defaultMaxMisses < m" shows "m + 1 \<le> defaultMaxMisses + 1" and "unat (m + 1) = unat m + 1"
proof -
  have "unat m \<le> 1" using assms by (simp add: defaultMaxMisses_def word_less_nat_alt)
  then show *: "unat (m + 1) = unat m + 1" by (simp add: unat_word_ariths)
  have "unat (defaultMaxMisses + 1) = 2" by (simp add: defaultMaxMisses_def)
  with * \<open>unat m \<le> 1\<close> show "m + 1 \<le> defaultMaxMisses + 1" by (simp add: word_le_nat_alt)
qed

lemma pool_wf_sweep_loop:
  "pool_wf c \<Longrightarrow> range_perm order \<Longrightarrow> pool_wf (sweep_loop order ids c)"
proof (induction ids arbitrary: c)
  case (Cons k ids)
  show ?case
  proof (cases "map_of (WorkerPool c) k")
    case (Some w)
    have max: "maxHeartbeatMisses c = defaultMaxMisses" using Cons.prems(1) by (simp add: pool_wf_def)
    show ?thesis
      using Cons.IH [OF pool_wf_remove [OF Cons.prems] Cons.prems(2)]
        Cons.IH [OF pool_wf_replace [OF Cons.prems(1) Some] Cons.prems(2)] bump_misses(1) [of "heartbeatMisses w"]
      by (simp add: Some max Let_def)
  qed (simp add: Cons)
qed simp

lemma pool_wf_apply: "pool_wf c \<Longrightarrow> event_ok ev \<Longrightarrow> pool_wf (pool_apply ev c)"
proof (induction ev)
  case (Beat order dial req)
  then show ?case
    using pool_wf_replace [OF Beat(1)] pool_wf_add [OF Beat(1)]
    by (auto simp: SendHeartbeat_def Let_def split: option.splits)
next
  case Choose
  then show ?case by (auto simp: getNextWorker_def pool_wf_def Let_def)
qed (simp add: removeInactiveWorkers_def pool_wf_sweep_loop)

interpretation pool_inv: step_invariant "\<lambda>c. c = NewServerWithClock" pool_step pool_wf
  by unfold_locales (auto intro: pool_wf_init pool_wf_apply elim!: pool_stepE)

lemma fst_delete: "fst ` set (AList.delete k al) = fst ` set al - {k}"
  by (auto simp: AList.delete_eq)

lemma sweep_loop_other:
  "k \<notin> set ids \<Longrightarrow> map_of (WorkerPool (sweep_loop order ids c)) k = map_of (WorkerPool c) k"
  by (induction order ids c rule: sweep_loop.induct)
    (auto simp: Let_def update_conv' delete_conv' split: option.splits)

lemma sweep_loop_max: "maxHeartbeatMisses (sweep_loop order ids c) = maxHeartbeatMisses c"
  by (induction order ids c rule: sweep_loop.induct) (auto simp: Let_def split: option.splits)

definition swept :: "8 word \<Rightarrow> workerInfo option \<Rightarrow> workerInfo option" where
  "swept allowed w =
     (case w of
        None \<Rightarrow> None
      | Some wi \<Rightarrow> if heartbeatMisses wi > allowed then None
                   else Some (wi\<lparr>heartbeatMisses := heartbeatMisses wi + 1\<rparr>))"

lemma sweep_loop_lookup:
  "distinct ids \<Longrightarrow> k \<in> set ids \<Longrightarrow>
     map_of (WorkerPool (sweep_loop order ids c)) k = swept (maxHeartbeatMisses c) (map_of (WorkerPool c) k)"
proof (induction order ids c rule: sweep_loop.induct)
  case (2 order x ids c)
  show ?case
  proof (cases "x = k")
    case True
    with 2(4) show ?thesis
      by (auto simp: swept_def sweep_loop_other Let_def update_conv' delete_conv' split: option.splits)
  next
    case False
    with 2 show ?thesis
      by (auto simp: Let_def update_conv' delete_conv' split: option.splits)
  qed
qed simp

lemma sweep_lookup:
  assumes "pool_wf c" and "range_perm order"
  shows "map_of (WorkerPool (removeInactiveWorkers order c)) k =
    swept defaultMaxMisses (map_of (WorkerPool c) k)"
proof -
  have d: "distinct (map fst (WorkerPool c))" and max: "maxHeartbeatMisses c = defaultMaxMisses"
    using assms(1) by (simp_all add: pool_wf_def)
  show ?thesis
  proof (cases "k \<in> fst ` set (WorkerPool c)")
    case True
    then show ?thesis
      using sweep_loop_lookup [of "order (map fst (WorkerPool c))" k order c] range_permD [OF assms(2) d]
      by (simp add: removeInactiveWorkers_def max)
  next
    case False
    then have "map_of (WorkerPool c) k = None" by (simp add: map_of_eq_None_iff)
    then show ?thesis
      using False sweep_loop_other [of k "order (map fst (WorkerPool c))" order c] range_permD [OF assms(2) d]
      by (simp add: removeInactiveWorkers_def swept_def)
  qed
qed

lemma heartbeat_lookup_other:
  "k \<noteq> Heartbeat_WorkerId req \<Longrightarrow>
     map_of (WorkerPool (snd (SendHeartbeat order dial req c))) k = map_of (WorkerPool c) k"
  by (auto simp: SendHeartbeat_def Let_def update_conv' split: option.splits)

text \<open>The number of sweeps in a sequence of events, and the heartbeats of one worker.\<close>

definition sweeps :: "pool_event list \<Rightarrow> nat" where
  "sweeps evs = length (filter (\<lambda>ev. \<exists>order. ev = Sweep order) evs)"

definition beats_of :: "32 word \<Rightarrow> pool_event \<Rightarrow> bool" where
  "beats_of k ev \<longleftrightarrow> (\<exists>order dial req. ev = Beat order dial req \<and> Heartbeat_WorkerId req = k)"

lemma pool_wf_fold: "pool_wf c \<Longrightarrow> \<forall>ev \<in> set evs. event_ok ev \<Longrightarrow> pool_wf (fold pool_apply evs c)"
  by (induction evs arbitrary: c) (auto intro: pool_wf_apply)

lemma silent_step:
  assumes "pool_wf c" and "event_ok ev" and "\<not> beats_of k ev"
  shows "map_of (WorkerPool (pool_apply ev c)) k =
    (case ev of Sweep _ \<Rightarrow> swept defaultMaxMisses (map_of (WorkerPool c) k) | _ \<Rightarrow> map_of (WorkerPool c) k)"
proof (cases ev)
  case (Beat order dial req)
  with assms(3) have "k \<noteq> Heartbeat_WorkerId req" by (auto simp: beats_of_def)
  with Beat show ?thesis by (simp add: heartbeat_lookup_other)
next
  case (Sweep order)
  with assms(1,2) show ?thesis by (simp add: sweep_lookup)
next
  case Choose
  then show ?thesis by (simp add: getNextWorker_def Let_def)
qed

lemma silent_fold:
  assumes "pool_wf c" and "\<forall>ev \<in> set evs. event_ok ev \<and> \<not> beats_of k ev"
  shows "map_of (WorkerPool (fold pool_apply evs c)) k =
    (swept defaultMaxMisses ^^ sweeps evs) (map_of (WorkerPool c) k)"
  using assms
proof (induction evs arbitrary: c)
  case (Cons ev evs)
  from Cons.prems have ev: "event_ok ev" "\<not> beats_of k ev" by auto
  have "sweeps (ev # evs) = (case ev of Sweep _ \<Rightarrow> Suc (sweeps evs) | _ \<Rightarrow> sweeps evs)"
    by (cases ev) (auto simp: sweeps_def)
  then show ?case
    using Cons.IH [OF pool_wf_apply [OF Cons.prems(1) ev(1)]] Cons.prems(2)
      silent_step [OF Cons.prems(1) ev]
    by (cases ev) (simp_all add: funpow_swap1)
qed (simp add: sweeps_def)

lemma swept_iterate:
  assumes "heartbeatMisses w = 0"
  shows "(swept defaultMaxMisses ^^ n) (Some w) =
    (if n \<le> 2 then Some (w\<lparr>heartbeatMisses := of_nat n\<rparr>) else None)"
proof (induction n)
  case 0
  show ?case using assms by simp
next
  case (Suc n)
  have "swept defaultMaxMisses (if n \<le> 2 then Some (w\<lparr>heartbeatMisses := of_nat n\<rparr>) else None) =
      (if Suc n \<le> 2 then Some (w\<lparr>heartbeatMisses := of_nat (Suc n)\<rparr>) else None)"
  proof -
    consider "n = 0" | "n = 1" | "n = 2" | "n > 2" by linarith
    then show ?thesis by cases (simp_all add: swept_def defaultMaxMisses_def)
  qed
  then show ?case by (simp only: funpow.simps o_apply Suc)
qed

lemma index_in_range:
  assumes "xs \<noteq> []" and "length xs < 2 ^ 32"
  shows "unat ((i :: 32 word) mod of_nat (length xs)) < length xs"
  using assms by (simp add: unat_mod unat_of_nat)

section \<open>Properties\<close>

text \<open>
  The pool between operations: in every state that whole heartbeats, sweeps and choices, one at a
  time and in any order, can reach, the list of keys is exactly the registered workers, each once, and no
  miss counter has run past one more than what is tolerated; and as long as there are keys, and
  fewer than 2^32, the next worker is one of the registered. (What a choice finds in the middle of a sweep
  is the subject of \<open>Pool_Locking\<close>.)
\<close>

theorem worker_pool_invariant:
  assumes "pool_step\<^sup>*\<^sup>* NewServerWithClock c"
  shows "pool_wf c \<and>
    (WorkerPoolKeys c \<noteq> [] \<longrightarrow> length (WorkerPoolKeys c) < 2 ^ 32 \<longrightarrow>
       unat (roundRobinIndex c mod of_nat (length (WorkerPoolKeys c))) < length (WorkerPoolKeys c) \<and>
       (\<exists>w \<in> snd ` set (WorkerPool c). fst (getNextWorker c) = Some w))"
proof -
  have wf: "pool_wf c" using pool_inv.reachable_inv [OF refl assms] .
  have "unat (roundRobinIndex c mod of_nat (length (WorkerPoolKeys c))) < length (WorkerPoolKeys c) \<and>
      (\<exists>w \<in> snd ` set (WorkerPool c). fst (getNextWorker c) = Some w)"
    if ne: "WorkerPoolKeys c \<noteq> []" and len: "length (WorkerPoolKeys c) < 2 ^ 32"
  proof -
    let ?i = "unat (roundRobinIndex c mod of_nat (length (WorkerPoolKeys c)))"
    have i: "?i < length (WorkerPoolKeys c)" using ne len by (rule index_in_range)
    then have "WorkerPoolKeys c ! ?i \<in> fst ` set (WorkerPool c)"
      using wf nth_mem by (force simp: pool_wf_def)
    then obtain w where "map_of (WorkerPool c) (WorkerPoolKeys c ! ?i) = Some w"
      by (metis imageE map_of_eq_None_iff not_None_eq)
    then show ?thesis
      using i ne by (force simp: getNextWorker_def Let_def dest: map_of_SomeD)
  qed
  with wf show ?thesis by blast
qed

definition demo_beat :: HeartbeatRequest where
  "demo_beat = \<lparr>Heartbeat_WorkerId = 7, Heartbeat_Address = ''w7:9000''\<rparr>"

definition demo_pool :: CoordinatorServer where
  "demo_pool = snd (SendHeartbeat (\<lambda>ks. ks) (\<lambda>_. None) demo_beat NewServerWithClock)"

lemma range_perm_id: "range_perm (\<lambda>ks. ks)"
  by (simp add: range_perm_def)

theorem worker_pool_invariant_witness:
  "map_option worker_address (fst (getNextWorker demo_pool)) = Some ''w7:9000''"
proof -
  have "pool_step NewServerWithClock demo_pool"
    using pool_step.intros [of "Beat (\<lambda>ks. ks) (\<lambda>_. None) demo_beat" NewServerWithClock]
    by (simp add: demo_pool_def range_perm_id)
  then have "pool_step\<^sup>*\<^sup>* NewServerWithClock demo_pool" by (rule r_into_rtranclp)
  from worker_pool_invariant [OF this] show ?thesis
    by (simp add: demo_pool_def demo_beat_def SendHeartbeat_def NewServerWithClock_def)
qed

text \<open>
  A worker that goes silent. From the state right after its heartbeat, whatever the other
  workers do, it keeps its place through two sweeps and is dropped by the third: it is in the
  pool exactly while the sweeps since its heartbeat are at most one more than the tolerated
  misses.
\<close>

theorem silent_worker_dropped_on_third_sweep:
  assumes "pool_wf c" and "range_perm order" and "dial (Heartbeat_Address req) = None"
    and "\<forall>ev \<in> set evs. event_ok ev \<and> \<not> beats_of (Heartbeat_WorkerId req) ev"
  shows "(map_of (WorkerPool (fold pool_apply evs (snd (SendHeartbeat order dial req c))))
            (Heartbeat_WorkerId req) \<noteq> None) \<longleftrightarrow> sweeps evs \<le> 2"
proof -
  obtain w where w: "map_of (WorkerPool (snd (SendHeartbeat order dial req c))) (Heartbeat_WorkerId req) = Some w"
      and m: "heartbeatMisses w = 0"
    using assms(3)
    by (cases "map_of (WorkerPool c) (Heartbeat_WorkerId req)")
      (auto simp: SendHeartbeat_def Let_def update_conv')
  have wf: "pool_wf (snd (SendHeartbeat order dial req c))"
    using pool_wf_apply [OF assms(1), of "Beat order dial req"] assms(2) by simp
  show ?thesis
    using silent_fold [OF wf assms(4)] swept_iterate [OF m] by (simp add: w)
qed

theorem silent_worker_dropped_on_third_sweep_witness:
  "map_of (WorkerPool (fold pool_apply [Sweep (\<lambda>ks. ks), Sweep (\<lambda>ks. ks)] demo_pool)) 7 \<noteq> None \<and>
   map_of (WorkerPool (fold pool_apply [Sweep (\<lambda>ks. ks), Sweep (\<lambda>ks. ks), Sweep (\<lambda>ks. ks)] demo_pool)) 7 = None"
  using silent_worker_dropped_on_third_sweep [OF pool_wf_init range_perm_id,
      of "\<lambda>_. None" demo_beat "[Sweep (\<lambda>ks. ks), Sweep (\<lambda>ks. ks)]"]
    silent_worker_dropped_on_third_sweep [OF pool_wf_init range_perm_id,
      of "\<lambda>_. None" demo_beat "[Sweep (\<lambda>ks. ks), Sweep (\<lambda>ks. ks), Sweep (\<lambda>ks. ks)]"]
  unfolding demo_pool_def by (simp add: beats_of_def sweeps_def range_perm_id demo_beat_def)

end
