(* ===== verification/Dispatch.thy ===== *)
theory Dispatch
  imports Worker_Pool "HOL-Library.Multiset"
begin

text \<open>
  \<open>dispatchPendingRuns\<close> of \<open>pkg/coordinator/coordinator.go\<close>: the batch of due runs is offered to
  the workers in turn, and what a worker accepts becomes running inside one transaction.
\<close>

section \<open>Dispatch\<close>

text \<open>
  \<open>submit\<close> is the \<open>SubmitRun\<close> RPC to the worker at an address, on the state of the workers.
\<close>

type_synonym 'w submit = "string \<Rightarrow> RunRequest \<Rightarrow> 'w \<Rightarrow> RunResponse res \<times> 'w"

definition noWorkers :: go_error where "noWorkers = Errorf ''no workers available''"

fun offer_loop ::
    "'w submit \<Rightarrow> RunRequest \<Rightarrow> nat \<Rightarrow> CoordinatorServer \<Rightarrow> 'w
      \<Rightarrow> bool res \<times> CoordinatorServer \<times> 'w" where
  "offer_loop submit run 0 c w = (Inr False, c, w)"
| "offer_loop submit run (Suc n) c w =
     (case getNextWorker c of
        (None, c1) \<Rightarrow> (Inl noWorkers, c1, w)
      | (Some worker, c1) \<Rightarrow>
          (case submit (worker_address worker) run w of
             (Inl e, w1) \<Rightarrow> offer_loop submit run n c1 w1
           | (Inr response, w1) \<Rightarrow>
               if RunResponse_Accepted response then (Inr True, c1, w1)
               else offer_loop submit run n c1 w1))"

definition offerRunToWorker ::
    "'w submit \<Rightarrow> RunRequest \<Rightarrow> CoordinatorServer \<Rightarrow> 'w \<Rightarrow> bool res \<times> CoordinatorServer \<times> 'w" where
  "offerRunToWorker submit run c w =
     (let workerCount = length (WorkerPoolKeys c) in
      if workerCount = 0 then (Inl noWorkers, c, w)
      else offer_loop submit run workerCount c w)"

definition dispatchBatchSize :: nat where "dispatchBatchSize = 50"

definition is_dispatchable :: "time \<Rightarrow> run_row \<Rightarrow> bool" where
  "is_dispatchable now r \<longleftrightarrow> r_status r = RunPending \<and> r_scheduled_for r \<le> now"

definition pending_rows :: "(string \<Rightarrow> bool) \<Rightarrow> time \<Rightarrow> database \<Rightarrow> run_row list" where
  "pending_rows locked now d =
     take dispatchBatchSize (order_by r_scheduled_for
       (filter (\<lambda>r. is_dispatchable now r \<and> \<not> locked (r_id r)) (runs d)))"

definition run_request :: "run_row \<Rightarrow> RunRequest" where
  "run_request r = \<lparr>RunRequest_RunId = r_id r, RunRequest_AgentId = r_agent_id r\<rparr>"

definition pick_row :: "time \<Rightarrow> run_row \<Rightarrow> run_row" where
  "pick_row now r =
     r\<lparr>r_status := RunRunning, r_picked_at := Some now, r_lease_expires_at := Some (now + LeaseTTL)\<rparr>"

definition pick_stmt :: "string \<Rightarrow> time \<Rightarrow> server \<Rightarrow> unit res \<times> server" where
  "pick_stmt i now = exec (\<lambda>d. d\<lparr>runs := update_where (\<lambda>r. r_id r = i) (pick_row now) (runs d)\<rparr>)"

fun dispatch_loop ::
    "'w submit \<Rightarrow> time \<Rightarrow> RunRequest list \<Rightarrow> tx \<Rightarrow> server \<Rightarrow> CoordinatorServer \<Rightarrow> 'w
      \<Rightarrow> tx \<times> server \<times> CoordinatorServer \<times> 'w" where
  "dispatch_loop submit now [] t s c w = (t, s, c, w)"
| "dispatch_loop submit now (run # pending) t s c w =
     (case offerRunToWorker submit run c w of
        (Inl e, c1, w1) \<Rightarrow> (t, s, c1, w1)
      | (Inr accepted, c1, w1) \<Rightarrow>
          if \<not> accepted then (t, s, c1, w1)
          else (case tx_call (pick_stmt (RunRequest_RunId run) now) t s of
                  (r, t1, s1) \<Rightarrow> dispatch_loop submit now pending t1 s1 c1 w1))"

definition dispatchPendingRuns ::
    "'w submit \<Rightarrow> (string \<Rightarrow> bool) \<Rightarrow> time \<Rightarrow> server \<Rightarrow> CoordinatorServer \<Rightarrow> 'w
      \<Rightarrow> server \<times> CoordinatorServer \<times> 'w" where
  "dispatchPendingRuns submit locked now s c w =
     (case Begin s of
        (Inl e, s1) \<Rightarrow> (s1, c, w)
      | (Inr t, s1) \<Rightarrow>
          (case tx_call (query (pending_rows locked now)) t s1 of
             (Inl e, t2, s2) \<Rightarrow> (Rollback t2 s2, c, w)
           | (Inr rows, t2, s2) \<Rightarrow>
               (case dispatch_loop submit now (map run_request rows) t2 s2 c w of
                  (t3, s3, c3, w3) \<Rightarrow>
                    (case Commit t3 s3 of (r, s4) \<Rightarrow> (s4, c3, w3)))))"

section \<open>Lemmas\<close>

interpretation pick_upd: row_update r_id "pick_row now" for now
  by unfold_locales (simp add: pick_row_def)

interpretation pick_stmt: statement "pick_stmt i now" for i now
  unfolding pick_stmt_def by (rule statement_exec)

subsection \<open>The round robin\<close>

text \<open>The worker at a position of the rotation.\<close>

definition worker_at :: "CoordinatorServer \<Rightarrow> nat \<Rightarrow> workerInfo option" where
  "worker_at c i = map_of (WorkerPool c) (WorkerPoolKeys c ! (i mod length (WorkerPoolKeys c)))"

lemma getNextWorker_at:
  assumes "WorkerPoolKeys c \<noteq> []" and "length (WorkerPoolKeys c) < 2 ^ 32"
  shows "getNextWorker c = (worker_at c (unat (roundRobinIndex c)), c\<lparr>roundRobinIndex := roundRobinIndex c + 1\<rparr>)"
  using assms by (simp add: getNextWorker_def worker_at_def Let_def unat_mod unat_of_nat)

definition accepts :: "'w submit \<Rightarrow> RunRequest \<Rightarrow> string \<Rightarrow> bool" where
  "accepts submit run addr \<longleftrightarrow>
     (\<forall>w. \<exists>response w'. submit addr run w = (Inr response, w') \<and> RunResponse_Accepted response)"

lemma worker_at_index [simp]: "worker_at (c\<lparr>roundRobinIndex := i\<rparr>) = worker_at c"
  by (simp add: worker_at_def fun_eq_iff)

lemma worker_at_some:
  assumes "pool_wf c" and "WorkerPoolKeys c \<noteq> []"
  shows "\<exists>wi. worker_at c i = Some wi"
proof -
  have "WorkerPoolKeys c ! (i mod length (WorkerPoolKeys c)) \<in> set (WorkerPoolKeys c)"
    using assms(2) by (intro nth_mem) simp
  then have "WorkerPoolKeys c ! (i mod length (WorkerPoolKeys c)) \<in> fst ` set (WorkerPool c)"
    using assms(1) by (simp add: pool_wf_def)
  then show ?thesis
    unfolding worker_at_def by (metis map_of_eq_None_iff not_None_eq)
qed

lemma unat_next_index:
  assumes "unat (i :: 32 word) + Suc n \<le> 2 ^ 32"
  shows "n = 0 \<or> unat (i + 1) = unat i + 1"
proof -
  have "n = 0 \<or> unat i + 1 < 2 ^ 32" using assms by linarith
  then show ?thesis by (auto simp: unat_word_ariths)
qed

lemma offer_loop_accepted:
  assumes "pool_wf c" and "length (WorkerPoolKeys c) < 2 ^ 32"
    and "unat (roundRobinIndex c) + n \<le> 2 ^ 32"
    and "j < n" and "worker_at c (unat (roundRobinIndex c) + j) = Some wi"
    and "accepts submit run (worker_address wi)" and "WorkerPoolKeys c \<noteq> []"
  shows "fst (offer_loop submit run n c w) = Inr True"
  using assms
proof (induction n arbitrary: c w j)
  case (Suc n)
  let ?c = "c\<lparr>roundRobinIndex := roundRobinIndex c + 1\<rparr>"
  obtain wi0 where first: "worker_at c (unat (roundRobinIndex c)) = Some wi0"
    using worker_at_some [OF Suc.prems(1,7)] by blast
  have nxt: "getNextWorker c = (Some wi0, ?c)"
    using getNextWorker_at [OF Suc.prems(7,2)] first by simp
  have later: "fst (offer_loop submit run n ?c w') = Inr True" if "j \<noteq> 0" for w'
  proof -
    have idx: "unat (roundRobinIndex ?c) = unat (roundRobinIndex c) + 1"
      using unat_next_index [OF Suc.prems(3)] that Suc.prems(4) by auto
    have wf: "pool_wf ?c" using Suc.prems(1) by (auto simp: pool_wf_def)
    show ?thesis
      using that Suc.prems(2-7) idx
      by (intro Suc.IH [OF wf, of "j - 1"]) auto
  qed
  show ?case
  proof (cases "j = 0")
    case True
    with Suc.prems(5) first have "wi0 = wi" by simp
    with Suc.prems(6) obtain response w'
      where "submit (worker_address wi0) run w = (Inr response, w')" and "RunResponse_Accepted response"
      unfolding accepts_def by blast
    then show ?thesis by (simp add: nxt)
  next
    case False
    then show ?thesis using later by (auto simp: nxt split: prod.splits sum.splits)
  qed
qed simp

lemma rotation_reaches: "i < n \<Longrightarrow> \<exists>j < n. (a + j) mod n = (i :: nat)"
proof -
  assume "i < n"
  have "(a + (i + n - a mod n) mod n) mod n = (a mod n + (i + n - a mod n)) mod n"
    by (simp add: mod_add_left_eq mod_add_right_eq)
  also have "a mod n + (i + n - a mod n) = i + n"
    using mod_less_divisor [of n a] \<open>i < n\<close> by linarith
  also have "(i + n) mod n = i" using \<open>i < n\<close> by simp
  finally show ?thesis using \<open>i < n\<close> by (intro exI [of _ "(i + n - a mod n) mod n"]) simp
qed

subsection \<open>What a dispatch writes\<close>

text \<open>The runs with the given identifiers marked as picked.\<close>

definition mark :: "time \<Rightarrow> string set \<Rightarrow> database \<Rightarrow> database" where
  "mark now ids d = d\<lparr>runs := update_where (\<lambda>r. r_id r \<in> ids) (pick_row now) (runs d)\<rparr>"

lemma mark_none [simp]: "mark now {} d = d"
  by (simp add: mark_def update_where_def)

lemma pick_row_idem [simp]: "pick_row now (pick_row now r) = pick_row now r"
  by (simp add: pick_row_def)

lemma mark_mark: "mark now A (mark now B d) = mark now (B \<union> A) d"
  by (auto simp: mark_def update_where_def pick_upd.key_upd)

lemma pick_stmt_mark: "pick_stmt i now = exec (mark now {i})"
  by (rule ext) (simp add: pick_stmt_def mark_def exec_def)

lemma tx_exec_ok:
  assumes "tx_call (exec f) t s = (r, t', s')" and "\<not> tx_failed t'"
  shows "tables s' = f (tables s) \<and> t' = t"
proof -
  obtain out s1 where o: "next_outcome s = (out, s1)" by (cases "next_outcome s")
  show ?thesis
    using assms next_outcome_D [OF o]
    by (auto simp: tx_call_def exec_def o split: if_splits outcome.splits)
qed

lemma tx_call_stays_failed: "tx_failed t \<Longrightarrow> tx_call q t s = (r, t', s') \<Longrightarrow> tx_failed t' \<and> s' = s"
  by (auto simp: tx_call_def)

lemma dispatch_loop_failed:
  "tx_failed t \<Longrightarrow> dispatch_loop submit now pending t s c w = (t', s', c', w') \<Longrightarrow> tx_failed t'"
  by (induction submit now pending t s c w rule: dispatch_loop.induct)
    (auto split: prod.splits sum.splits if_splits dest: tx_call_stays_failed)

lemma dispatch_loop_saved:
  "dispatch_loop submit now pending t s c w = (t', s', c', w') \<Longrightarrow> tx_saved t' = tx_saved t"
  by (induction submit now pending t s c w rule: dispatch_loop.induct)
    (auto split: prod.splits sum.splits if_splits dest: tx_call_saved_D)

lemma dispatch_loop_marks:
  assumes "dispatch_loop submit now pending t s c w = (t', s', c', w')" and "\<not> tx_failed t'"
  shows "\<exists>n. tables s' = mark now (RunRequest_RunId ` set (take n pending)) (tables s)"
  using assms
proof (induction pending arbitrary: t s c w)
  case Nil
  then show ?case by (intro exI [of _ 0]) simp
next
  case (Cons run pending)
  obtain o1 c1 w1 where offer: "offerRunToWorker submit run c w = (o1, c1, w1)" by (cases "offerRunToWorker submit run c w")
  show ?case
  proof (cases "o1 = Inr True")
    case True
    obtain r t1 s1 where pick: "tx_call (pick_stmt (RunRequest_RunId run) now) t s = (r, t1, s1)"
      by (cases "tx_call (pick_stmt (RunRequest_RunId run) now) t s")
    have rest: "dispatch_loop submit now pending t1 s1 c1 w1 = (t', s', c', w')"
      using Cons.prems(1) by (simp add: offer True pick)
    from Cons.IH [OF rest Cons.prems(2)]
    obtain n where n: "tables s' = mark now (RunRequest_RunId ` set (take n pending)) (tables s1)" by auto
    have "\<not> tx_failed t1" using dispatch_loop_failed [OF _ rest] Cons.prems(2) by blast
    from tx_exec_ok [OF pick [unfolded pick_stmt_mark] this] n
    have "tables s' = mark now (RunRequest_RunId ` set (take (Suc n) (run # pending))) (tables s)"
      by (simp add: mark_mark)
    then show ?thesis by blast
  next
    case False
    then have "s' = s"
      using Cons.prems(1) by (cases o1) (auto simp: offer)
    then show ?thesis by (intro exI [of _ 0]) simp
  qed
qed

lemma dispatch_tables:
  "\<exists>n. tables (fst (dispatchPendingRuns submit locked now s c w)) =
     mark now (r_id ` set (take n (pending_rows locked now (tables s)))) (tables s)"
proof -
  obtain b s1 where b: "Begin s = (b, s1)" by (cases "Begin s")
  show ?thesis
  proof (cases b)
    case (Inl e)
    then have "tables s1 = tables s"
      using b by (auto simp: Begin_def pool_call_def dest: next_outcome_D split: prod.splits outcome.splits)
    then show ?thesis by (intro exI [of _ 0]) (simp add: dispatchPendingRuns_def b Inl)
  next
    case begun: (Inr t)
    have t: "t = \<lparr>tx_saved = tables s, tx_failed = False\<rparr>" "tables s1 = tables s"
      using Begin_ok [OF b [unfolded begun]] by simp_all
    obtain q t2 s2 where q: "tx_call (query (pending_rows locked now)) t s1 = (q, t2, s2)"
      by (cases "tx_call (query (pending_rows locked now)) t s1")
    show ?thesis
    proof (cases q)
      case (Inl e)
      have "tx_saved t2 = tables s" using tx_call_saved_D [OF q] t(1) by simp
      then show ?thesis
        by (intro exI [of _ 0]) (simp add: dispatchPendingRuns_def b begun q Inl Rollback_def)
    next
      case rows: (Inr rows)
      from tx_query_ok [OF q [unfolded rows]] t
      have r: "t2 = t" "rows = pending_rows locked now (tables s)" "tables s2 = tables s" by auto
      obtain t3 s3 c3 w3 where l: "dispatch_loop submit now (map run_request rows) t2 s2 c w = (t3, s3, c3, w3)"
        by (cases "dispatch_loop submit now (map run_request rows) t2 s2 c w")
      have saved: "tx_saved t3 = tables s" using dispatch_loop_saved [OF l] r(1) t(1) by simp
      have "tables (snd (Commit t3 s3)) = tables s \<or> \<not> tx_failed t3 \<and> tables (snd (Commit t3 s3)) = tables s3"
        using saved by (auto simp: Commit_def Rollback_def dest: next_outcome_D split: prod.splits outcome.splits)
      moreover have "\<not> tx_failed t3 \<Longrightarrow> \<exists>n. tables s3 = mark now (r_id ` set (take n rows)) (tables s)"
        using dispatch_loop_marks [OF l] r(3) by (simp add: take_map image_image run_request_def)
      ultimately have "\<exists>n. tables (snd (Commit t3 s3)) = mark now (r_id ` set (take n rows)) (tables s)"
        using mark_none [of now "tables s"] by (metis image_empty list.set(1) take0)
      then show ?thesis
        by (simp add: dispatchPendingRuns_def b begun q rows l [unfolded r(2)] r(2) case_prod_unfold)
    qed
  qed
qed

lemma pending_rows_member:
  "r \<in> set (pending_rows locked now d) \<Longrightarrow> r \<in> set (runs d) \<and> is_dispatchable now r \<and> \<not> locked (r_id r)"
  by (auto simp: pending_rows_def dest!: in_set_takeD)

lemma pending_rows_length: "length (pending_rows locked now d) \<le> dispatchBatchSize"
  by (simp add: pending_rows_def)

subsection \<open>The workers behind the RPC\<close>

lemma replicate_mset_add: "replicate_mset (m + n) x = replicate_mset m x + replicate_mset n x"
  by (induction m) simp_all

text \<open>
  What the dispatch relies on in the workers behind the RPC: a run answered as accepted is queued,
  once, and one turned away is not; a call that ends in an error may still have queued the run,
  which costs one of the answers the network loses (\<open>losses\<close> counts those still to come). Under
  that contract the workers have queued every run a dispatch marks as running, and beyond those
  only runs whose answer was lost.
\<close>

locale worker_service =
  fixes submit :: "'w submit" and queued :: "'w \<Rightarrow> RunRequest multiset" and losses :: "'w \<Rightarrow> nat"
  assumes accept_queues: "submit addr run w = (Inr response, w') \<Longrightarrow> RunResponse_Accepted response \<Longrightarrow>
      queued w' = add_mset run (queued w) \<and> losses w' \<le> losses w"
    and decline_keeps: "submit addr run w = (Inr response, w') \<Longrightarrow> \<not> RunResponse_Accepted response \<Longrightarrow>
      queued w' = queued w \<and> losses w' \<le> losses w"
    and error_queues: "submit addr run w = (Inl e, w') \<Longrightarrow>
      \<exists>k. queued w' = queued w + replicate_mset k run \<and> k + losses w' \<le> losses w"
begin

lemma submit_queues:
  assumes "submit addr run w = (r, w')"
  shows "\<exists>k. k + losses w' \<le> losses w \<and> queued w' = queued w + replicate_mset k run +
    (if \<exists>response. r = Inr response \<and> RunResponse_Accepted response then {#run#} else {#})"
proof (cases r)
  case (Inl e)
  then show ?thesis using error_queues [of addr run w e w'] assms by auto
next
  case (Inr response)
  then show ?thesis
    using accept_queues [of addr run w response w'] decline_keeps [of addr run w response w'] assms
    by (intro exI [of _ 0]) auto
qed

lemma offer_loop_queued:
  "offer_loop submit run n c w = (r, c', w') \<Longrightarrow>
     \<exists>k. k + losses w' \<le> losses w \<and>
       queued w' = queued w + replicate_mset k run + (if r = Inr True then {#run#} else {#})"
proof (induction n arbitrary: c w)
  case 0
  then show ?case by (intro exI [of _ 0]) auto
next
  case (Suc n)
  obtain m c1 where nxt: "getNextWorker c = (m, c1)" by (cases "getNextWorker c")
  show ?case
  proof (cases m)
    case None
    then show ?thesis using Suc.prems nxt by (intro exI [of _ 0]) auto
  next
    case (Some wi)
    obtain o1 w1 where sub: "submit (worker_address wi) run w = (o1, w1)"
      by (cases "submit (worker_address wi) run w")
    from submit_queues [OF this] obtain k where k: "k + losses w1 \<le> losses w"
      "queued w1 = queued w + replicate_mset k run +
         (if \<exists>response. o1 = Inr response \<and> RunResponse_Accepted response then {#run#} else {#})" by blast
    show ?thesis
    proof (cases "\<exists>response. o1 = Inr response \<and> RunResponse_Accepted response")
      case True
      then have "r = Inr True \<and> w' = w1" using Suc.prems by (auto simp: nxt Some sub)
      then show ?thesis using k True by (intro exI [of _ k]) simp
    next
      case False
      then have "offer_loop submit run n c1 w1 = (r, c', w')"
        using Suc.prems by (cases o1) (auto simp: nxt Some sub)
      from Suc.IH [OF this] obtain k1 where "k1 + losses w' \<le> losses w1"
        "queued w' = queued w1 + replicate_mset k1 run + (if r = Inr True then {#run#} else {#})" by blast
      then show ?thesis using k False by (intro exI [of _ "k + k1"]) (simp add: replicate_mset_add)
    qed
  qed
qed

lemma offer_queued:
  "offerRunToWorker submit run c w = (r, c', w') \<Longrightarrow>
     \<exists>k. k + losses w' \<le> losses w \<and>
       queued w' = queued w + replicate_mset k run + (if r = Inr True then {#run#} else {#})"
  by (cases "WorkerPoolKeys c = []")
    (use offer_loop_queued [of run "length (WorkerPoolKeys c)" c w r c' w'] in \<open>auto simp: offerRunToWorker_def intro: exI [of _ 0]\<close>)

lemma dispatch_loop_queued:
  assumes "dispatch_loop submit now pending t s c w = (t', s', c', w')" and "outcomes s = []" and "\<not> tx_failed t"
  shows "\<exists>n extra. tables s' = mark now (RunRequest_RunId ` set (take n pending)) (tables s) \<and>
    queued w' = queued w + mset (take n pending) + extra \<and> set_mset extra \<subseteq> set (take (Suc n) pending) \<and>
    size extra + losses w' \<le> losses w \<and> t' = t \<and> outcomes s' = []"
  using assms
proof (induction pending arbitrary: s c w)
  case Nil
  then show ?case by (intro exI [of _ 0] exI [of _ "{#}"]) auto
next
  case (Cons run pending)
  obtain o1 c1 w1 where offer: "offerRunToWorker submit run c w = (o1, c1, w1)" by (cases "offerRunToWorker submit run c w")
  from offer_queued [OF this] obtain k where k: "k + losses w1 \<le> losses w"
    "queued w1 = queued w + replicate_mset k run + (if o1 = Inr True then {#run#} else {#})" by blast
  let ?s = "s\<lparr>tables := mark now {RunRequest_RunId run} (tables s)\<rparr>"
  have pick: "tx_call (pick_stmt (RunRequest_RunId run) now) t s = (Inr (), t, ?s)"
    using Cons.prems(2,3) by (simp add: pick_stmt_mark exec_def)
  show ?case
  proof (cases "o1 = Inr True")
    case True
    have rest: "dispatch_loop submit now pending t ?s c1 w1 = (t', s', c', w')"
      using Cons.prems(1) by (simp add: offer True pick)
    obtain n extra where "tables s' = mark now (RunRequest_RunId ` set (take n pending)) (tables ?s)"
        and "queued w' = queued w1 + mset (take n pending) + extra" and "set_mset extra \<subseteq> set (take (Suc n) pending)"
        and "size extra + losses w' \<le> losses w1" and "t' = t \<and> outcomes s' = []"
      using Cons.IH [OF rest _ Cons.prems(3)] Cons.prems(2) by auto
    then show ?thesis
      using k True by (intro exI [of _ "Suc n"] exI [of _ "replicate_mset k run + extra"])
        (auto simp: mark_mark dest: in_replicate_mset [THEN iffD1])
  next
    case False
    then have "t' = t \<and> s' = s \<and> w' = w1" using Cons.prems(1) by (cases o1) (auto simp: offer)
    then show ?thesis
      using k False Cons.prems(2) by (intro exI [of _ 0] exI [of _ "replicate_mset k run"]) (auto simp: in_replicate_mset)
  qed
qed

lemma dispatch_queued:
  assumes "dispatchPendingRuns submit locked now s c w = (s', c', w')" and "outcomes s = []"
  shows "\<exists>n extra. tables s' = mark now (r_id ` set (take n (pending_rows locked now (tables s)))) (tables s) \<and>
    queued w' = queued w + mset (map run_request (take n (pending_rows locked now (tables s)))) + extra \<and>
    set_mset extra \<subseteq> run_request ` set (take (Suc n) (pending_rows locked now (tables s))) \<and>
    size extra + losses w' \<le> losses w"
proof -
  let ?t = "\<lparr>tx_saved = tables s, tx_failed = False\<rparr>" and ?rows = "pending_rows locked now (tables s)"
  have b: "Begin s = (Inr ?t, s)" using assms(2) by (simp add: Begin_def)
  have q: "tx_call (query (pending_rows locked now)) ?t s = (Inr ?rows, ?t, s)"
    using assms(2) by (simp add: query_def)
  obtain t3 s3 c3 w3 where l: "dispatch_loop submit now (map run_request ?rows) ?t s c w = (t3, s3, c3, w3)"
    by (cases "dispatch_loop submit now (map run_request ?rows) ?t s c w")
  from dispatch_loop_queued [OF l assms(2)] obtain n extra
    where n: "tables s3 = mark now (RunRequest_RunId ` set (take n (map run_request ?rows))) (tables s)"
      "queued w3 = queued w + mset (take n (map run_request ?rows)) + extra" "t3 = ?t" "outcomes s3 = []"
      "set_mset extra \<subseteq> set (take (Suc n) (map run_request ?rows))" "size extra + losses w3 \<le> losses w" by auto
  have "Commit t3 s3 = (Inr (), s3)" using n(3,4) by (simp add: Commit_def)
  then have "s' = s3 \<and> w' = w3" using assms(1) by (simp add: dispatchPendingRuns_def b q l)
  then show ?thesis
    using n by (intro exI [of _ n] exI [of _ extra]) (simp add: take_map image_image run_request_def)
qed

end

section \<open>Properties\<close>

text \<open>
  C15: what a dispatch may write. Whatever the workers answer and however the database calls end,
  all it leaves behind is a prefix of the batch (at most fifty due pending runs no other
  transaction holds, oldest first) marked as running with a lease of one TTL; every other run,
  and every other table, is as before.
\<close>

theorem dispatch_marks_only_due_pending_runs:
  assumes "distinct (map r_id (runs (tables s)))"
  shows "\<exists>picked. length picked \<le> 50 \<and> (\<exists>n. picked = take n (pending_rows locked now (tables s))) \<and>
    (\<forall>r \<in> set picked. r_status r = RunPending \<and> r_scheduled_for r \<le> now \<and> \<not> locked (r_id r)) \<and>
    tables (fst (dispatchPendingRuns submit locked now s c w)) =
      (tables s)\<lparr>runs := map (\<lambda>r. if r \<in> set picked then r\<lparr>r_status := RunRunning,
         r_picked_at := Some now, r_lease_expires_at := Some (now + LeaseTTL)\<rparr> else r) (runs (tables s))\<rparr>"
proof -
  obtain n where n: "tables (fst (dispatchPendingRuns submit locked now s c w)) =
      mark now (r_id ` set (take n (pending_rows locked now (tables s)))) (tables s)"
    using dispatch_tables [of submit locked now s c w] by blast
  let ?picked = "take n (pending_rows locked now (tables s))"
  have sub: "\<And>r. r \<in> set ?picked \<Longrightarrow> r \<in> set (runs (tables s)) \<and> is_dispatchable now r \<and> \<not> locked (r_id r)"
    by (auto dest!: in_set_takeD pending_rows_member)
  have "r_id r \<in> r_id ` set ?picked \<longleftrightarrow> r \<in> set ?picked" if "r \<in> set (runs (tables s))" for r
    using that sub assms by (auto simp: distinct_map dest: inj_onD)
  then have "mark now (r_id ` set ?picked) (tables s) = (tables s)\<lparr>runs := map (\<lambda>r. if r \<in> set ?picked then
      r\<lparr>r_status := RunRunning, r_picked_at := Some now, r_lease_expires_at := Some (now + LeaseTTL)\<rparr> else r)
      (runs (tables s))\<rparr>"
    by (simp add: mark_def update_where_def pick_row_def cong: map_cong)
  moreover have "length ?picked \<le> 50" using pending_rows_length [of locked now "tables s"] by (simp add: dispatchBatchSize_def)
  ultimately show ?thesis
    using n sub by (intro exI [of _ ?picked]) (auto simp: is_dispatchable_def)
qed

definition three_workers :: CoordinatorServer where
  "three_workers = NewServerWithClock\<lparr>
     WorkerPool := [(1, \<lparr>heartbeatMisses = 0, worker_address = ''a''\<rparr>),
                    (2, \<lparr>heartbeatMisses = 0, worker_address = ''b''\<rparr>),
                    (3, \<lparr>heartbeatMisses = 0, worker_address = ''c''\<rparr>)],
     WorkerPoolKeys := [1, 2, 3]\<rparr>"

definition only_c :: "string list submit" where
  "only_c addr run asked =
     (Inr \<lparr>RunResponse_RunId = RunRequest_RunId run, RunResponse_Accepted = (addr = ''c''),
           RunResponse_Message = []\<rparr>, asked @ [addr])"

definition demo_request :: RunRequest where
  "demo_request = \<lparr>RunRequest_RunId = ''r1'', RunRequest_AgentId = ''a1''\<rparr>"

theorem dispatch_marks_only_due_pending_runs_witness:
  "map r_status (runs (tables (fst (dispatchPendingRuns only_c (\<lambda>_. False) 20 demo_server three_workers []))))
     = [RunRunning] \<and>
   (\<exists>picked. length picked \<le> 50 \<and> (\<forall>r \<in> set picked. r_status r = RunPending) \<and>
     tables (fst (dispatchPendingRuns only_c (\<lambda>_. False) 20 demo_server three_workers [])) =
      demo_db\<lparr>runs := map (\<lambda>r. if r \<in> set picked then r\<lparr>r_status := RunRunning,
         r_picked_at := Some 20, r_lease_expires_at := Some (20 + LeaseTTL)\<rparr> else r) (runs demo_db)\<rparr>)"
proof (rule conjI)
  show "map r_status (runs (tables (fst (dispatchPendingRuns only_c (\<lambda>_. False) 20 demo_server three_workers []))))
     = [RunRunning]" by code_simp
  have d: "distinct (map r_id (runs (tables demo_server)))" by (simp add: demo_defs)
  have t: "tables demo_server = demo_db" by (simp add: demo_server_def)
  from dispatch_marks_only_due_pending_runs [OF d, of "\<lambda>_. False" 20 only_c three_workers "[]", unfolded t]
  show "\<exists>picked. length picked \<le> 50 \<and> (\<forall>r \<in> set picked. r_status r = RunPending) \<and>
     tables (fst (dispatchPendingRuns only_c (\<lambda>_. False) 20 demo_server three_workers [])) =
      demo_db\<lparr>runs := map (\<lambda>r. if r \<in> set picked then r\<lparr>r_status := RunRunning,
         r_picked_at := Some 20, r_lease_expires_at := Some (20 + LeaseTTL)\<rparr> else r) (runs demo_db)\<rparr>"
    by blast
qed

text \<open>
  One saturated worker does not hold up a run another could take: when some registered
  worker would accept the run, the offer ends accepted, whatever the other workers answer, as
  long as the rotation does not pass the end of its 32-bit counter during this offer.
\<close>

theorem offer_finds_accepting_worker:
  assumes "pool_wf c" and "length (WorkerPoolKeys c) < 2 ^ 32"
    and "unat (roundRobinIndex c) + length (WorkerPoolKeys c) \<le> 2 ^ 32"
    and "(k, wi) \<in> set (WorkerPool c)" and "accepts submit run (worker_address wi)"
  shows "fst (offerRunToWorker submit run c w) = Inr True"
proof -
  from assms(1,4) have "k \<in> set (WorkerPoolKeys c)" and look: "map_of (WorkerPool c) k = Some wi"
    by (force simp: pool_wf_def)+
  then obtain i where i: "i < length (WorkerPoolKeys c)" "WorkerPoolKeys c ! i = k"
    by (auto simp: in_set_conv_nth)
  then obtain j where "j < length (WorkerPoolKeys c)"
      and "worker_at c (unat (roundRobinIndex c) + j) = Some wi"
    using rotation_reaches [OF i(1)] look by (force simp: worker_at_def)
  with offer_loop_accepted [OF assms(1-3) this assms(5)] i(1) show ?thesis
    by (auto simp: offerRunToWorker_def Let_def)
qed

lemma three_workers_wf: "pool_wf three_workers"
  by (simp add: pool_wf_def three_workers_def NewServerWithClock_def)

theorem offer_finds_accepting_worker_witness:
  "fst (offerRunToWorker only_c demo_request three_workers []) = Inr True"
  by (rule offer_finds_accepting_worker [OF three_workers_wf, where k = 3 and wi = "\<lparr>heartbeatMisses = 0, worker_address = ''c''\<rparr>"])
    (auto simp: three_workers_def NewServerWithClock_def accepts_def only_c_def)

text \<open>
  The rotation at the end of its counter. With three workers and the counter at its largest
  value the same worker is asked twice and another is not asked at all, so the run is turned
  away although that worker would have taken it: an offer does not always try each worker.
\<close>

theorem wrapped_rotation_skips_worker:
  "offerRunToWorker only_c demo_request (three_workers\<lparr>roundRobinIndex := 2 ^ 32 - 1\<rparr>) [] =
     (Inr False, three_workers\<lparr>roundRobinIndex := 2\<rparr>, [''a'', ''a'', ''b''])"
  by code_simp

end
