(* ===== verification/Worker.thy ===== *)
theory Worker
  imports Dispatch
begin

text \<open>
  \<open>pkg/worker\<close>: the worker's queue and its backpressure (\<open>SubmitRun\<close>), the execution of one
  run and its reports (\<open>executeRun\<close>), and the goroutines of the pool with the worker's
  shutdown, as a step relation whose steps are the points where the code can be interleaved.
\<close>

section \<open>The queue\<close>

definition workerPoolSize :: nat where "workerPoolSize = 5"

definition runQueueSize :: nat where "runQueueSize = 5"

record WorkerServer =
  runQueue :: "RunRequest list"
  draining :: bool

definition NewServerWithExecutor :: WorkerServer where
  "NewServerWithExecutor = \<lparr>runQueue = [], draining = False\<rparr>"

definition declined :: "RunRequest \<Rightarrow> string \<Rightarrow> RunResponse" where
  "declined req message =
     \<lparr>RunResponse_RunId = RunRequest_RunId req, RunResponse_Accepted = False,
      RunResponse_Message = message\<rparr>"

definition SubmitRun :: "RunRequest \<Rightarrow> WorkerServer \<Rightarrow> RunResponse res \<times> WorkerServer" where
  "SubmitRun req w =
     (if draining w then (Inr (declined req ''worker is shutting down''), w)
      else if length (runQueue w) < runQueueSize then
        (Inr \<lparr>RunResponse_RunId = RunRequest_RunId req, RunResponse_Accepted = True,
              RunResponse_Message = ''accepted''\<rparr>,
         w\<lparr>runQueue := runQueue w @ [req]\<rparr>)
      else (Inr (declined req ''worker is at capacity''), w))"

text \<open>The workers a coordinator can reach, by address; there is none behind any other address.\<close>

definition Unavailable :: go_error where
  "Unavailable = Errorf ''rpc error: code = Unavailable''"

fun cluster_submit :: "(string \<times> WorkerServer) list submit" where
  "cluster_submit addr run [] = (Inl Unavailable, [])"
| "cluster_submit addr run ((a, w) # ws) =
     (if a = addr then (case SubmitRun run w of (r, w') \<Rightarrow> (r, (a, w') # ws))
      else (case cluster_submit addr run ws of (r, ws') \<Rightarrow> (r, (a, w) # ws')))"

text \<open>
  How a call of \<open>SubmitRun\<close> ends. The coordinator's call has a deadline, so it may end in an error
  before the worker has seen the run, and also after the worker has answered; a list of outcomes
  says how the next calls end, and calls past its end are answered.
\<close>

datatype rpc_outcome = Answered | NotDelivered go_error | AnswerLost go_error

fun rpc_submit :: "(rpc_outcome list \<times> (string \<times> WorkerServer) list) submit" where
  "rpc_submit addr run ([], ws) = (case cluster_submit addr run ws of (r, ws') \<Rightarrow> (r, ([], ws')))"
| "rpc_submit addr run (Answered # os, ws) = (case cluster_submit addr run ws of (r, ws') \<Rightarrow> (r, (os, ws')))"
| "rpc_submit addr run (NotDelivered e # os, ws) = (Inl e, (os, ws))"
| "rpc_submit addr run (AnswerLost e # os, ws) = (Inl e, (os, snd (cluster_submit addr run ws)))"

definition lost_answers :: "rpc_outcome list \<Rightarrow> nat" where
  "lost_answers os = length (filter (\<lambda>x. case x of AnswerLost e \<Rightarrow> True | _ \<Rightarrow> False) os)"

definition cluster_queued :: "(string \<times> WorkerServer) list \<Rightarrow> RunRequest multiset" where
  "cluster_queued ws = sum_list (map (\<lambda>(a, w). mset (runQueue w)) ws)"

section \<open>Executing one run\<close>

record Result =
  Output :: string
  PromptTokens :: int
  CompletionTokens :: int
  BudgetExceeded :: bool

definition no_result :: Result where
  "no_result = \<lparr>Output = [], PromptTokens = 0, CompletionTokens = 0, BudgetExceeded = False\<rparr>"

text \<open>
  \<open>report\<close> is \<open>reportStatus\<close> (its error is only logged) and \<open>execute\<close> the worker's \<open>Executor\<close>,
  on the state of the world they share. The renewals that run beside the executor are steps
  of their own, below.
\<close>

type_synonym 'w executor = "string \<Rightarrow> string \<Rightarrow> 'w \<Rightarrow> Result res \<times> 'w"

definition noopExecutor :: "'w executor" where
  "noopExecutor runID agentID w = (Inr no_result, w)"

definition result_report :: "string \<Rightarrow> Result \<Rightarrow> UpdateRunStatusRequest" where
  "result_report runID result =
     \<lparr>Update_RunId = runID,
      Update_Status = (if BudgetExceeded result then BUDGET_EXCEEDED else SUCCEEDED),
      Update_Output = Output result, Update_Error = [],
      Update_PromptTokens = word_of_int (PromptTokens result),
      Update_CompletionTokens = word_of_int (CompletionTokens result)\<rparr>"

definition executeRun ::
    "(UpdateRunStatusRequest \<Rightarrow> 'w \<Rightarrow> 'w) \<Rightarrow> 'w executor \<Rightarrow> RunRequest \<Rightarrow> 'w \<Rightarrow> 'w" where
  "executeRun report execute run w =
     (let runID = RunRequest_RunId run;
          w1 = report (status_request runID RUNNING []) w
      in case execute runID (RunRequest_AgentId run) w1 of
           (Inl err, w2) \<Rightarrow> report (status_request runID FAILED (Error err)) w2
         | (Inr result, w2) \<Rightarrow> report (result_report runID result) w2)"

text \<open>\<open>reportStatus\<close> when the coordinator is reached: its handler runs, the answer is dropped.\<close>

definition reportStatus :: "postgres \<Rightarrow> time \<Rightarrow> UpdateRunStatusRequest \<Rightarrow> server \<Rightarrow> server" where
  "reportStatus pg now request s = snd (UpdateRunStatus pg now request s)"

section \<open>The goroutines of a worker\<close>

text \<open>
  Where a pool goroutine is in \<open>worker()\<close>: at the outer select, in \<open>executeRun\<close>, at the select
  of the draining loop, in its \<open>executeRun\<close>, or returned.
\<close>

datatype goroutine = Selecting | Executing RunRequest | Draining | Finishing RunRequest | Returned

text \<open>
  \<open>submitting\<close> holds the \<open>SubmitRun\<close> calls that have passed their \<open>isDraining\<close> check and are at
  their select; \<open>accepted_runs\<close> and \<open>finished_runs\<close> record what was answered with accepted and
  what has been executed.
\<close>

record worker_process = WorkerServer +
  cancelled :: bool
  goroutines :: "goroutine list"
  submitting :: "RunRequest list"
  accepted_runs :: "RunRequest list"
  finished_runs :: "RunRequest list"

definition startWorkerPool :: worker_process where
  "startWorkerPool =
     \<lparr>runQueue = [], draining = False, cancelled = False,
      goroutines = replicate workerPoolSize Selecting, submitting = [], accepted_runs = [],
      finished_runs = []\<rparr>"

text \<open>\<open>SubmitRun\<close>: the check, then the select.\<close>

definition submit_check :: "RunRequest \<Rightarrow> worker_process \<Rightarrow> worker_process" where
  "submit_check req p = (if draining p then p else p\<lparr>submitting := req # submitting p\<rparr>)"

definition submit_select :: "RunRequest \<Rightarrow> worker_process \<Rightarrow> worker_process" where
  "submit_select req p =
     (if req \<notin> set (submitting p) then p
      else let p1 = p\<lparr>submitting := remove1 req (submitting p)\<rparr> in
        if length (runQueue p) < runQueueSize then
          p1\<lparr>runQueue := runQueue p @ [req], accepted_runs := req # accepted_runs p\<rparr>
        else p1)"

text \<open>
  One step of a goroutine. At the outer select it takes a run or, once the context is
  cancelled, may go to the draining loop; which of two ready cases is taken is up to the
  runtime (\<open>prefer_done\<close>).
\<close>

definition worker_move :: "bool \<Rightarrow> nat \<Rightarrow> worker_process \<Rightarrow> worker_process" where
  "worker_move prefer_done i p =
     (if i \<ge> length (goroutines p) then p
      else case goroutines p ! i of
        Selecting \<Rightarrow>
          if cancelled p \<and> (prefer_done \<or> runQueue p = []) then
            p\<lparr>goroutines := (goroutines p)[i := Draining]\<rparr>
          else (case runQueue p of
                  [] \<Rightarrow> p
                | run # queue \<Rightarrow>
                    p\<lparr>runQueue := queue, goroutines := (goroutines p)[i := Executing run]\<rparr>)
      | Executing run \<Rightarrow>
          p\<lparr>goroutines := (goroutines p)[i := Selecting], finished_runs := run # finished_runs p\<rparr>
      | Draining \<Rightarrow>
          (case runQueue p of
             [] \<Rightarrow> p\<lparr>goroutines := (goroutines p)[i := Returned]\<rparr>
           | run # queue \<Rightarrow>
               p\<lparr>runQueue := queue, goroutines := (goroutines p)[i := Finishing run]\<rparr>)
      | Finishing run \<Rightarrow>
          p\<lparr>goroutines := (goroutines p)[i := Draining], finished_runs := run # finished_runs p\<rparr>
      | Returned \<Rightarrow> p)"

text \<open>\<open>Stop\<close>: decline new work, then cancel the context; it then waits for the goroutines.\<close>

definition stop_draining :: "worker_process \<Rightarrow> worker_process" where
  "stop_draining p = p\<lparr>draining := True\<rparr>"

definition stop_cancel :: "worker_process \<Rightarrow> worker_process" where
  "stop_cancel p = (if draining p then p\<lparr>cancelled := True\<rparr> else p)"

definition stopped :: "worker_process \<Rightarrow> bool" where
  "stopped p \<longleftrightarrow> (\<forall>g \<in> set (goroutines p). g = Returned)"

inductive worker_step :: "worker_process \<Rightarrow> worker_process \<Rightarrow> bool" where
  check: "worker_step p (submit_check req p)"
| select: "worker_step p (submit_select req p)"
| move: "worker_step p (worker_move prefer_done i p)"
| drain: "worker_step p (stop_draining p)"
| cancel: "worker_step p (stop_cancel p)"

inductive_cases worker_stepE: "worker_step p p'"

section \<open>Lemmas\<close>

lemma SubmitRun_answers: "\<exists>response w'. SubmitRun req w = (Inr response, w')"
  by (simp add: SubmitRun_def)

lemma SubmitRun_queue:
  assumes "SubmitRun req w = (Inr response, w')"
  shows "runQueue w' = (if RunResponse_Accepted response then runQueue w @ [req] else runQueue w)"
  using assms by (auto simp: SubmitRun_def declined_def split: if_splits)

lemma cluster_submit_queued:
  "cluster_submit addr run ws = (r, ws') \<Longrightarrow>
     cluster_queued ws' =
       (case r of Inl e \<Rightarrow> cluster_queued ws
        | Inr response \<Rightarrow> if RunResponse_Accepted response then add_mset run (cluster_queued ws) else cluster_queued ws)"
proof (induction addr run ws arbitrary: r ws' rule: cluster_submit.induct)
  case (2 addr run a w ws)
  show ?case
  proof (cases "a = addr")
    case True
    obtain response w' where sub: "SubmitRun run w = (Inr response, w')" using SubmitRun_answers by blast
    then have "r = Inr response \<and> ws' = (a, w') # ws" using 2(2) True by auto
    then show ?thesis using SubmitRun_queue [OF sub] by (auto simp: cluster_queued_def)
  next
    case False
    obtain r1 ws1 where rest: "cluster_submit addr run ws = (r1, ws1)" by (cases "cluster_submit addr run ws")
    then have "r = r1 \<and> ws' = (a, w) # ws1" using 2(2) False by auto
    then show ?thesis
      using 2(1) [OF False rest] by (auto simp: cluster_queued_def split: sum.splits)
  qed
qed auto

lemma lost_answers_simps [simp]:
  "lost_answers [] = 0" "lost_answers (Answered # os) = lost_answers os"
  "lost_answers (NotDelivered e # os) = lost_answers os" "lost_answers (AnswerLost e # os) = Suc (lost_answers os)"
  by (simp_all add: lost_answers_def)

lemma rpc_submit_queued:
  "rpc_submit addr run w = (r, w') \<Longrightarrow>
     \<exists>k. k + lost_answers (fst w') \<le> lost_answers (fst w) \<and> (k = 0 \<or> (\<exists>e. r = Inl e)) \<and>
       cluster_queued (snd w') = cluster_queued (snd w) + replicate_mset k run +
         (if \<exists>response. r = Inr response \<and> RunResponse_Accepted response then {#run#} else {#})"
proof (induction addr run w rule: rpc_submit.induct)
  case (4 addr run e os ws)
  obtain r1 ws1 where c: "cluster_submit addr run ws = (r1, ws1)" by (cases "cluster_submit addr run ws")
  from cluster_submit_queued [OF c] 4 show ?case
    by (intro exI [of _ "if \<exists>response. r1 = Inr response \<and> RunResponse_Accepted response then 1 else 0"])
      (auto simp: c split: sum.splits if_splits)
qed (force dest: cluster_submit_queued split: prod.splits sum.splits if_splits)+

interpretation rpc: worker_service rpc_submit "\<lambda>w. cluster_queued (snd w)" "\<lambda>w. lost_answers (fst w)"
  by unfold_locales (drule rpc_submit_queued; force)+

subsection \<open>The accounting of accepted runs\<close>

primrec in_hand :: "goroutine \<Rightarrow> RunRequest multiset" where
  "in_hand Selecting = {#}"
| "in_hand (Executing run) = {#run#}"
| "in_hand Draining = {#}"
| "in_hand (Finishing run) = {#run#}"
| "in_hand Returned = {#}"

definition executing_runs :: "worker_process \<Rightarrow> RunRequest multiset" where
  "executing_runs p = sum_list (map in_hand (goroutines p))"

definition accounted :: "worker_process \<Rightarrow> bool" where
  "accounted p \<longleftrightarrow>
     length (goroutines p) = workerPoolSize \<and> length (runQueue p) \<le> runQueueSize \<and>
     mset (accepted_runs p) = mset (runQueue p) + executing_runs p + mset (finished_runs p)"

lemma sum_list_update:
  fixes f :: "'a \<Rightarrow> 'b multiset"
  assumes "i < length xs"
  shows "sum_list (map f (xs[i := x])) + f (xs ! i) = sum_list (map f xs) + f x"
  using assms by (induction xs arbitrary: i) (auto simp: ac_simps split: nat.split)

lemma executing_runs_update:
  assumes "i < length (goroutines p)" and "goroutines p ! i = g"
  shows "sum_list (map in_hand ((goroutines p)[i := g'])) + in_hand g = executing_runs p + in_hand g'"
  using sum_list_update [OF assms(1), of in_hand g'] assms(2) by (simp add: executing_runs_def)

lemma accounted_init: "accounted startWorkerPool"
  by (simp add: accounted_def startWorkerPool_def executing_runs_def workerPoolSize_def runQueueSize_def numeral_eq_Suc)

lemma accounted_move:
  assumes "accounted p" shows "accounted (worker_move prefer_done i p)"
proof (cases "i < length (goroutines p)")
  case True
  note up = executing_runs_update [OF True]
  show ?thesis
  proof (cases "goroutines p ! i")
    case Selecting
    with assms True up [OF Selecting, of Draining] up [OF Selecting, of "Executing (hd (runQueue p))"] show ?thesis
      by (cases "runQueue p") (auto simp: worker_move_def accounted_def executing_runs_def)
  next
    case (Executing run)
    with assms True up [OF Executing, of Selecting] show ?thesis
      by (auto simp: worker_move_def accounted_def executing_runs_def)
  next
    case Draining
    with assms True up [OF Draining, of Returned] up [OF Draining, of "Finishing (hd (runQueue p))"] show ?thesis
      by (cases "runQueue p") (auto simp: worker_move_def accounted_def executing_runs_def)
  next
    case (Finishing run)
    with assms True up [OF Finishing, of Draining] show ?thesis
      by (auto simp: worker_move_def accounted_def executing_runs_def)
  qed (use assms in \<open>simp add: worker_move_def\<close>)
qed (use assms in \<open>simp add: worker_move_def\<close>)

lemma accounted_step: "accounted p \<Longrightarrow> worker_step p p' \<Longrightarrow> accounted p'"
  by (erule worker_stepE)
    (auto simp: accounted_move,
     auto simp: accounted_def executing_runs_def submit_check_def submit_select_def Let_def
       stop_draining_def stop_cancel_def)

interpretation worker_accounting: step_invariant "\<lambda>p. p = startWorkerPool" worker_step accounted
  by unfold_locales (auto intro: accounted_init accounted_step)

text \<open>A worker that started to drain with no submission past its check.\<close>

definition draining_clean :: "worker_process \<Rightarrow> bool" where
  "draining_clean p \<longleftrightarrow> draining p \<and> submitting p = [] \<and> (Returned \<in> set (goroutines p) \<longrightarrow> runQueue p = [])"

lemma draining_clean_step: "draining_clean p \<Longrightarrow> worker_step p p' \<Longrightarrow> draining_clean p'"
  by (erule worker_stepE)
    (auto simp: draining_clean_def submit_check_def submit_select_def stop_draining_def stop_cancel_def
       worker_move_def Let_def split: goroutine.splits list.splits dest!: subsetD [OF set_update_subset_insert])

interpretation worker_draining: step_invariant draining_clean worker_step draining_clean
  by unfold_locales (auto intro: draining_clean_step)

subsection \<open>Reports\<close>

lemma final_served:
  assumes "Update_Status req \<in> {SUCCEEDED, FAILED, BUDGET_EXCEEDED}"
    and "uuid_in pg (Update_RunId req) = Some u" and "outcomes s = []"
  shows "runs (tables (snd (UpdateRunStatus pg now req s))) =
    update_where (\<lambda>r. r_id r = u) (finish_row (reported_status (Update_Status req)) now req) (runs (tables s))"
proof -
  have "Update_Status req \<noteq> RUNNING" using assms(1) by auto
  then show ?thesis
    using assms
    by (simp add: UpdateRunStatus_def Let_def finish_stmt_def with_uuid_Some exec_def recordAgentOutcome_eq)
qed

lemma final_served_row:
  assumes "Update_Status req \<in> {SUCCEEDED, FAILED, BUDGET_EXCEEDED}"
    and "uuid_in pg (Update_RunId req) = Some u" and "outcomes s = []"
    and "r \<in> set (runs (tables (snd (UpdateRunStatus pg now req s))))" and "r_id r = u"
  shows "\<exists>x. r = finish_row (reported_status (Update_Status req)) now req x"
  using assms(4,5) unfolding final_served [OF assms(1-3)]
  by (auto simp: set_update_where split: if_splits)

lemma sint_of_int32: "- (2 ^ 31) \<le> i \<Longrightarrow> i < 2 ^ 31 \<Longrightarrow> sint (word_of_int i :: 32 word) = i"
  by (simp add: sint_sbintrunc' signed_take_bit_int_eq_self)

section \<open>Properties\<close>

text \<open>
  C3: dispatch and the workers agree. When the database serves every call of a dispatch, then,
  however the RPCs to the workers end, the dispatch marks as running a prefix of the batch of due
  pending runs (oldest first) and each run it marks has been added to the workers' queues. What
  the queues gain beyond one copy of each marked run are copies of marked runs, or of the run after the last
  marked one, and there are no more of these than calls whose answer was lost on its way back;
  with no answer lost, marked and queued are the same runs, each once. (The queues are taken as
  the dispatch alone changes them: no goroutine takes a run off during it.)
\<close>

theorem dispatch_marks_what_workers_queued:
  assumes "outcomes s = []"
    and "dispatchPendingRuns rpc_submit locked now s c (os, ws) = (s', c', (os', ws'))"
  shows "\<exists>n extra. let batch = pending_rows locked now (tables s) in
     tables s' = mark now (r_id ` set (take n batch)) (tables s) \<and>
     cluster_queued ws' = cluster_queued ws + mset (map run_request (take n batch)) + extra \<and>
     set_mset extra \<subseteq> run_request ` set (take (n + 1) batch) \<and>
     size extra \<le> lost_answers os - lost_answers os'"
proof -
  from rpc.dispatch_queued [OF assms(2,1)] obtain n extra where
    "tables s' = mark now (r_id ` set (take n (pending_rows locked now (tables s)))) (tables s)"
    "cluster_queued ws' = cluster_queued ws + mset (map run_request (take n (pending_rows locked now (tables s)))) + extra"
    "set_mset extra \<subseteq> run_request ` set (take (n + 1) (pending_rows locked now (tables s)))"
    "size extra + lost_answers os' \<le> lost_answers os" by auto
  then show ?thesis unfolding Let_def by (intro exI [of _ n] exI [of _ extra]) simp
qed

text \<open>
  Two workers that take runs and one that is draining: the first answer is lost, so the run is
  queued by both, and marked.
\<close>

definition demo_cluster :: "(string \<times> WorkerServer) list" where
  "demo_cluster = [(''a'', NewServerWithExecutor\<lparr>draining := True\<rparr>), (''b'', NewServerWithExecutor)]"

definition rpc_cluster :: "rpc_outcome list \<times> (string \<times> WorkerServer) list" where
  "rpc_cluster = ([Answered, AnswerLost (Errorf ''deadline''), Answered],
     demo_cluster @ [(''c'', NewServerWithExecutor)])"

theorem dispatch_marks_what_workers_queued_witness:
  "\<exists>s' c' os' ws' n extra. dispatchPendingRuns rpc_submit (\<lambda>_. False) 20 demo_server three_workers rpc_cluster = (s', c', (os', ws')) \<and>
     map (\<lambda>(a, w). map RunRequest_RunId (runQueue w)) ws' = [[], [''r1''], [''r1'']] \<and> lost_answers os' = 0 \<and>
     map r_status (runs (tables s')) = [RunRunning] \<and> size extra \<le> 1 \<and>
     cluster_queued ws' = cluster_queued (snd rpc_cluster) +
       mset (map run_request (take n (pending_rows (\<lambda>_. False) 20 (tables demo_server)))) + extra"
proof -
  let ?d = "dispatchPendingRuns rpc_submit (\<lambda>_. False) 20 demo_server three_workers rpc_cluster"
  obtain s' c' os' ws' where d: "?d = (s', c', (os', ws'))" by (cases ?d) auto
  have "map (\<lambda>(a, w). map RunRequest_RunId (runQueue w)) (snd (snd (snd ?d))) = [[], [''r1''], [''r1'']]"
    "lost_answers (fst (snd (snd ?d))) = 0" "map r_status (runs (tables (fst ?d))) = [RunRunning]"
    by code_simp+
  moreover have "outcomes demo_server = []" by (simp add: demo_server_def)
  moreover have "lost_answers (fst rpc_cluster) = 1" by (simp add: rpc_cluster_def)
  ultimately show ?thesis
    using dispatch_marks_what_workers_queued [of demo_server "\<lambda>_. False" 20 three_workers "fst rpc_cluster" "snd rpc_cluster" s' c' os' ws'] d
    unfolding Let_def by (auto simp: d)
qed

text \<open>
  A dispatch whose write is lost hands the run out again. The worker has accepted the run
  before the coordinator's update fails and aborts the transaction; the run stays pending, the
  next dispatch offers it again and a second copy of it is queued.
\<close>

theorem lost_update_dispatches_twice:
  "let s0 = demo_server\<lparr>outcomes := [Served, Served, Refused (Errorf ''conn reset'')]\<rparr>;
       (s1, c1, ws1) = dispatchPendingRuns cluster_submit (\<lambda>_. False) 20 s0 three_workers demo_cluster;
       (s2, c2, ws2) = dispatchPendingRuns cluster_submit (\<lambda>_. False) 30 s1 c1 ws1
   in map r_status (runs (tables s1)) = [RunPending] \<and>
      map (\<lambda>(a, w). map RunRequest_RunId (runQueue w)) ws2 = [[], [''r1'', ''r1'']]"
  by code_simp

text \<open>
  C4: a worker loses and duplicates nothing it accepted. However submissions, the pool's
  goroutines and a shutdown interleave, the runs it has answered accepted for are exactly the
  ones in its queue, the ones its goroutines execute and the ones executed, and the queue never
  holds more than its five places.
\<close>

theorem accepted_runs_accounted:
  assumes "worker_step\<^sup>*\<^sup>* startWorkerPool p"
  shows "mset (accepted_runs p) = mset (runQueue p) + executing_runs p + mset (finished_runs p) \<and>
    length (runQueue p) \<le> 5 \<and> size (executing_runs p) \<le> 5"
proof -
  have acc: "accounted p" by (rule worker_accounting.reachable_inv [OF refl assms])
  have "size (in_hand g) \<le> 1" for g by (cases g) auto
  then have "size (sum_list (map in_hand gs)) \<le> length gs" for gs
    by (induction gs) (auto intro: order_trans [OF add_mono])
  from this [of "goroutines p"] acc show ?thesis
    by (simp add: accounted_def executing_runs_def workerPoolSize_def runQueueSize_def)
qed

definition demo_accepting :: worker_process where
  "demo_accepting = worker_move False 2 (submit_select demo_request (submit_check demo_request startWorkerPool))"

lemma demo_accepting_reachable: "worker_step\<^sup>*\<^sup>* startWorkerPool demo_accepting"
  unfolding demo_accepting_def
  by (meson worker_step.check worker_step.select worker_step.move rtranclp.rtrancl_refl rtranclp.rtrancl_into_rtrancl)

theorem accepted_runs_accounted_witness:
  "accepted_runs demo_accepting = [demo_request] \<and> runQueue demo_accepting = [] \<and>
   executing_runs demo_accepting = {#demo_request#}"
proof -
  have "accepted_runs demo_accepting = [demo_request]" "runQueue demo_accepting = []"
      "finished_runs demo_accepting = []"
    by code_simp+
  with accepted_runs_accounted [OF demo_accepting_reachable] show ?thesis by simp
qed

text \<open>
  C23: a clean shutdown. When the worker starts to drain while no submission is past its check
  and no goroutine has returned, then whatever happens next, a worker that has stopped has
  executed every run it accepted: nothing is left in its queue or in a goroutine's hands.
\<close>

theorem clean_shutdown_strands_nothing:
  assumes "worker_step\<^sup>*\<^sup>* startWorkerPool p" and "submitting p = []"
    and "Returned \<notin> set (goroutines p)" and "worker_step\<^sup>*\<^sup>* (stop_draining p) p'" and "stopped p'"
  shows "mset (accepted_runs p') = mset (finished_runs p')"
proof -
  have "draining_clean (stop_draining p)" using assms(2,3) by (simp add: draining_clean_def stop_draining_def)
  then have clean: "draining_clean p'" by (rule worker_draining.steps_inv [OF assms(4)])
  have "worker_step\<^sup>*\<^sup>* startWorkerPool p'"
    using assms(1,4) worker_step.drain by (meson rtranclp.rtrancl_into_rtrancl rtranclp_trans)
  then have acc: "accounted p'" by (rule worker_accounting.reachable_inv [OF refl])
  then have "goroutines p' \<noteq> []" by (auto simp: accounted_def workerPoolSize_def)
  then have "Returned \<in> set (goroutines p')" using assms(5) by (cases "goroutines p'") (auto simp: stopped_def)
  then have queue: "runQueue p' = []" using clean by (simp add: draining_clean_def)
  have "map in_hand (goroutines p') = map (\<lambda>_. {#}) (goroutines p')"
    using assms(5) by (auto simp: stopped_def)
  then have "executing_runs p' = {#}" unfolding executing_runs_def by (metis sum_list_0)
  with acc queue show ?thesis by (simp add: accounted_def)
qed

text \<open>The schedule in which every goroutine notices the cancelled context and returns.\<close>

definition all_return :: "worker_process \<Rightarrow> worker_process" where
  "all_return p = fold (\<lambda>i. worker_move True i \<circ> worker_move True i) [0, 1, 2, 3, 4] (stop_cancel p)"

lemma move_steps: "worker_step\<^sup>*\<^sup>* p (fold (\<lambda>i. worker_move b i \<circ> worker_move b i) is p)"
proof (induction "is" arbitrary: p)
  case (Cons i "is")
  have "worker_step\<^sup>*\<^sup>* p (worker_move b i (worker_move b i p))"
    by (meson worker_step.move rtranclp.rtrancl_refl rtranclp.rtrancl_into_rtrancl)
  with Cons [of "worker_move b i (worker_move b i p)"] show ?case by (simp add: rtranclp_trans)
qed simp

lemma all_return_steps: "worker_step\<^sup>*\<^sup>* p (all_return p)"
  unfolding all_return_def
  by (rule converse_rtranclp_into_rtranclp [OF worker_step.cancel move_steps])

theorem clean_shutdown_strands_nothing_witness:
  "stopped (all_return (stop_draining startWorkerPool)) \<and>
   mset (accepted_runs (all_return (stop_draining startWorkerPool))) =
     mset (finished_runs (all_return (stop_draining startWorkerPool)))"
proof -
  have s: "stopped (all_return (stop_draining startWorkerPool))" by code_simp
  have "submitting startWorkerPool = []" "Returned \<notin> set (goroutines startWorkerPool)"
    by (simp_all add: startWorkerPool_def)
  from clean_shutdown_strands_nothing [OF rtranclp.rtrancl_refl this all_return_steps s] s show ?thesis by simp
qed

text \<open>
  A submission that races with the shutdown. A call that passed its draining check before
  \<open>Stop\<close> set the flag can enqueue its run after every goroutine has seen an empty queue and
  returned: the worker answers accepted, has stopped, and never executes the run, which waits
  for the reaper.
\<close>

theorem racing_submission_stranded:
  "\<exists>p. worker_step\<^sup>*\<^sup>* startWorkerPool p \<and> stopped p \<and> accepted_runs p = [demo_request] \<and>
     runQueue p = [demo_request] \<and> finished_runs p = []"
proof -
  define p where "p = submit_select demo_request (all_return (stop_draining (submit_check demo_request startWorkerPool)))"
  have "worker_step\<^sup>*\<^sup>* startWorkerPool (stop_draining (submit_check demo_request startWorkerPool))"
    by (meson worker_step.check worker_step.drain rtranclp.rtrancl_refl rtranclp.rtrancl_into_rtrancl)
  then have "worker_step\<^sup>*\<^sup>* startWorkerPool p"
    unfolding p_def by (meson all_return_steps rtranclp_trans worker_step.select rtranclp.rtrancl_into_rtrancl)
  moreover have "stopped p \<and> accepted_runs p = [demo_request] \<and> runQueue p = [demo_request] \<and> finished_runs p = []"
    unfolding p_def by code_simp
  ultimately show ?thesis by blast
qed

text \<open>
  C21: how an executed run ends. Once the executor has returned and the worker's final report
  reaches a database that serves it, the run has the status that names the executor's outcome
  (failed with the error's text, stopped by its budget, or succeeded with its output), its
  lease is gone, and its token counts are the executor's as long as they fit in 32 bits.
\<close>

theorem executed_run_ends_as_reported:
  assumes "uuid_in pg (RunRequest_RunId run) = Some u"
    and "execute (RunRequest_RunId run) (RunRequest_AgentId run)
          (reportStatus pg now (status_request (RunRequest_RunId run) RUNNING []) s) = (outcome, s2)"
    and "outcomes s2 = []"
    and "r \<in> set (runs (tables (executeRun (reportStatus pg now) execute run s)))" and "r_id r = u"
  shows "r_finished_at r = Some now \<and> r_lease_expires_at r = None \<and>
    (case outcome of
       Inl err \<Rightarrow> r_status r = RunFailed \<and> r_error r = Error err \<and> r_output r = []
     | Inr result \<Rightarrow>
         r_status r = (if BudgetExceeded result then RunBudgetExceeded else RunSucceeded) \<and>
         r_error r = [] \<and> r_output r = Output result \<and>
         (PromptTokens result \<in> {- (2 ^ 31) ..< 2 ^ 31} \<longrightarrow> r_prompt_tokens r = PromptTokens result) \<and>
         (CompletionTokens result \<in> {- (2 ^ 31) ..< 2 ^ 31} \<longrightarrow> r_completion_tokens r = CompletionTokens result))"
proof -
  let ?req = "case outcome of Inl err \<Rightarrow> status_request (RunRequest_RunId run) FAILED (Error err)
     | Inr result \<Rightarrow> result_report (RunRequest_RunId run) result"
  have run: "executeRun (reportStatus pg now) execute run s = reportStatus pg now ?req s2"
    by (simp add: executeRun_def Let_def assms(2) split: sum.split)
  have req: "Update_RunId ?req = RunRequest_RunId run" "Update_Status ?req \<in> {SUCCEEDED, FAILED, BUDGET_EXCEEDED}"
    by (auto simp: status_request_def result_report_def split: sum.split)
  obtain x where "r = finish_row (reported_status (Update_Status ?req)) now ?req x"
    using assms(4,5) final_served_row [OF req(2) _ assms(3), of pg u] assms(1) req(1) by (auto simp: run reportStatus_def)
  then show ?thesis
    by (cases outcome) (auto simp: finish_row_def status_request_def result_report_def reported_status_def sint_of_int32)
qed

definition demo_executor :: "server executor" where
  "demo_executor runID agentID s = (Inr (no_result\<lparr>Output := ''hello'', PromptTokens := 12\<rparr>), s)"

theorem executed_run_ends_as_reported_witness:
  "\<exists>r. runs (tables (executeRun (reportStatus demo_pg 20) demo_executor demo_request demo_server)) = [r] \<and>
     r_status r = RunSucceeded \<and> r_output r = ''hello'' \<and> r_prompt_tokens r = 12"
proof -
  let ?runs = "runs (tables (executeRun (reportStatus demo_pg 20) demo_executor demo_request demo_server))"
  let ?s1 = "reportStatus demo_pg 20 (status_request ''r1'' RUNNING []) demo_server"
  have "map r_id ?runs = [''r1'']" by code_simp
  then obtain r where r: "?runs = [r]" "r_id r = ''r1''" by auto
  moreover have "outcomes ?s1 = []" by code_simp
  ultimately show ?thesis
    using executed_run_ends_as_reported [of demo_pg demo_request "''r1''" demo_executor 20 demo_server _ ?s1 r]
    by (simp add: demo_request_def demo_pg_def demo_executor_def no_result_def)
qed

end
