(* ===== verification/Lease.thy ===== *)
theory Lease
  imports Worker
begin

text \<open>
  The lease of a run over time: the worker's renewals (\<open>renewLeasePeriodically\<close> of
  \<open>pkg/worker\<close>) against the reaper's passes, from the moment a run is handed to a worker.
\<close>

section \<open>Renewals and passes\<close>

text \<open>
  What happens to a lease: a tick of the renewal goroutine, whose call reaches the coordinator or
  is lost (its error is only logged); the end of the goroutine's context; a pass of the reaper.
\<close>

datatype lease_event = RenewalTick time bool | RenewalCancelled | ReaperPass time

fun renewLeasePeriodically ::
    "postgres \<Rightarrow> string \<Rightarrow> lease_event \<Rightarrow> server \<times> bool \<Rightarrow> server \<times> bool" where
  "renewLeasePeriodically pg runID (RenewalTick now reached) (s, renewing) =
     (if renewing \<and> reached then (snd (RenewLease pg now runID s), renewing) else (s, renewing))"
| "renewLeasePeriodically pg runID RenewalCancelled (s, renewing) = (s, False)"
| "renewLeasePeriodically pg runID (ReaperPass now) (s, renewing) = (snd (Reaper_RunOnce now s), renewing)"

text \<open>
  The ticker fires no later than one interval after the last tick (at \<open>t\<close>), and a pass between
  two ticks comes before the next is due.
\<close>

fun timely :: "time \<Rightarrow> lease_event list \<Rightarrow> bool" where
  "timely t [] = True"
| "timely t (RenewalTick now reached # es) = (t \<le> now \<and> now \<le> t + RenewalInterval \<and> timely now es)"
| "timely t (ReaperPass now # es) = (now \<le> t + RenewalInterval \<and> timely t es)"
| "timely t (RenewalCancelled # es) = False"

text \<open>At most \<open>n\<close> ticks are lost before the first that gets through, and three between two that do.\<close>

fun lost_at_most :: "nat \<Rightarrow> lease_event list \<Rightarrow> bool" where
  "lost_at_most n [] = True"
| "lost_at_most n (RenewalTick now True # es) = lost_at_most 3 es"
| "lost_at_most 0 (RenewalTick now False # es) = False"
| "lost_at_most (Suc n) (RenewalTick now False # es) = lost_at_most n es"
| "lost_at_most n (ReaperPass now # es) = lost_at_most n es"
| "lost_at_most n (RenewalCancelled # es) = lost_at_most n es"

text \<open>The run is running, and its lease lasts until after an instant.\<close>

definition lease_held :: "string \<Rightarrow> time \<Rightarrow> server \<Rightarrow> bool" where
  "lease_held u t s \<longleftrightarrow> (\<exists>r \<in> set (runs (tables s)). r_id r = u \<and> r_status r = RunRunning \<and>
     (\<exists>e. r_lease_expires_at r = Some e \<and> t \<le> e))"

lemma renewal_holds:
  assumes "uuid_in pg runID = Some u" and "outcomes s = []" and "lease_held u t s"
  shows "lease_held u (now + LeaseTTL) (snd (RenewLease pg now runID s)) \<and> outcomes (snd (RenewLease pg now runID s)) = []"
proof -
  obtain r where r: "r \<in> set (runs (tables s))" "r_id r = u" "r_status r = RunRunning"
    using assms(3) by (auto simp: lease_held_def)
  let ?p = "\<lambda>r. r_id r = u \<and> r_status r = RunRunning" and ?f = "renew_row (now + LeaseTTL)"
  have s': "snd (RenewLease pg now runID s) = s\<lparr>tables := (tables s)\<lparr>runs := update_where ?p ?f (runs (tables s))\<rparr>\<rparr>"
    using assms(1,2) by (simp add: RenewLease_def with_uuid_def renew_stmt_def Let_def)
  have "?f r \<in> set (update_where ?p ?f (runs (tables s)))"
    using r by (auto simp: set_update_where image_iff intro!: bexI [of _ r])
  then show ?thesis
    using r assms(2) by (auto simp: lease_held_def s' renew_row_def intro!: bexI [of _ "?f r"])
qed

lemma pass_spares:
  assumes "outcomes s = []" and "lease_held u t s" and "now \<le> t"
  shows "lease_held u t (snd (Reaper_RunOnce now s)) \<and> outcomes (snd (Reaper_RunOnce now s)) = []"
proof -
  obtain r e where r: "r \<in> set (runs (tables s))" "r_id r = u" "r_status r = RunRunning" "r_lease_expires_at r = Some e" "t \<le> e"
    using assms(2) by (auto simp: lease_held_def)
  then have "\<not> lease_expired now r" using assms(3) by (simp add: lease_expired_def)
  then have "r \<in> set (update_where (lease_expired now) (reap_row now) (runs (tables s)))"
    using reap_upd.other_rows_kept r(1) by blast
  then show ?thesis
    using r assms(1) by (auto simp: lease_held_def Reaper_RunOnce_def reap_stmt_def Let_def)
qed

lemma lease_kept:
  assumes "uuid_in pg runID = Some u"
  shows "outcomes s = [] \<Longrightarrow> lease_held u (t + (int n + 1) * RenewalInterval) s \<Longrightarrow> timely t es \<Longrightarrow> lost_at_most n es \<Longrightarrow>
    \<exists>t'. lease_held u t' (fst (fold (renewLeasePeriodically pg runID) es (s, True)))"
proof (induction es arbitrary: s t n)
  case (Cons ev es)
  have le: "t + RenewalInterval \<le> t + (int n + 1) * RenewalInterval"
    by (simp add: RenewalInterval_def Second_def)
  show ?case
  proof (cases ev)
    case (RenewalTick now reached)
    then have now: "now \<le> t + RenewalInterval" "timely now es" using Cons.prems(3) by auto
    show ?thesis
    proof (cases reached)
      case True
      have "now + LeaseTTL = now + (int 3 + 1) * RenewalInterval" by (simp add: LeaseTTL_def RenewalInterval_def)
      with renewal_holds [OF assms Cons.prems(1,2), of now] Cons.IH [of _ now 3] now(2) Cons.prems(4)
      show ?thesis by (simp add: RenewalTick True)
    next
      case False
      then obtain m where m: "n = Suc m" "lost_at_most m es" using Cons.prems(4) by (cases n) (auto simp: RenewalTick)
      have "now + (int m + 1) * RenewalInterval \<le> t + (int n + 1) * RenewalInterval"
        using now(1) by (simp add: m(1) algebra_simps)
      then have "lease_held u (now + (int m + 1) * RenewalInterval) s"
        using Cons.prems(2) unfolding lease_held_def by (meson order_trans)
      from Cons.IH [OF Cons.prems(1) this now(2) m(2)] show ?thesis by (simp add: RenewalTick False)
    qed
  next
    case (ReaperPass now)
    then have "now \<le> t + (int n + 1) * RenewalInterval" using Cons.prems(3) le by simp
    note spared = pass_spares [OF Cons.prems(1,2) this]
    have "timely t es" "lost_at_most n es" using Cons.prems(3,4) ReaperPass by simp_all
    with Cons.IH [of "snd (Reaper_RunOnce now s)" t n] spared show ?thesis by (simp add: ReaperPass)
  qed (use Cons.prems(3) in simp)
qed auto

text \<open>
  C22: a run that executes keeps its lease. From a lease that covers \<open>n + 1\<close> intervals on, as long as
  the goroutine's ticks come in time, at most \<open>n\<close> of them are lost before the first renewal and
  never more than three between two renewals, no pass of the reaper at any moment between ends
  the run.
\<close>

theorem executing_run_survives_lost_renewals:
  assumes "uuid_in pg runID = Some u" and "outcomes s = []" and "r \<in> set (runs (tables s))" and "r_id r = u"
    and "r_status r = RunRunning" and "r_lease_expires_at r = Some e" and "t + (int n + 1) * RenewalInterval \<le> e"
    and "timely t es" and "lost_at_most n es"
  shows "\<exists>r' \<in> set (runs (tables (fst (fold (renewLeasePeriodically pg runID) es (s, True))))).
     r_id r' = u \<and> r_status r' = RunRunning"
proof -
  have "lease_held u (t + (int n + 1) * RenewalInterval) s" using assms(3-7) by (auto simp: lease_held_def)
  from lease_kept [OF assms(1,2) this assms(8,9)] show ?thesis by (auto simp: lease_held_def)
qed

definition busy_minutes :: "lease_event list" where
  "busy_minutes =
     [ReaperPass (10 * Second), RenewalTick (15 * Second) False, RenewalTick (30 * Second) False, ReaperPass (40 * Second),
      RenewalTick (45 * Second) False, ReaperPass (60 * Second), RenewalTick (60 * Second) True, ReaperPass (75 * Second)]"

definition picked_server :: server where
  "picked_server = demo_server\<lparr>tables := demo_db\<lparr>runs := [pick_row 0 (demo_run ''r1'' ''a1'' RunPending 0)]\<rparr>\<rparr>"

theorem executing_run_survives_lost_renewals_witness:
  "\<exists>r' \<in> set (runs (tables (fst (fold (renewLeasePeriodically demo_pg ''r1'') busy_minutes (picked_server, True))))).
     r_id r' = ''r1'' \<and> r_status r' = RunRunning"
  by (rule executing_run_survives_lost_renewals
      [where t = 0 and n = 3 and e = "60 * Second" and r = "pick_row 0 (demo_run ''r1'' ''a1'' RunPending 0)"])
    (simp_all add: demo_pg_def picked_server_def demo_server_def pick_row_def demo_run_def new_run_row_def busy_minutes_def
      LeaseTTL_def RenewalInterval_def Second_def eval_nat_numeral)

section \<open>Waiting in a queue\<close>

text \<open>
  Renewals begin with \<open>executeRun\<close>; dispatch sets a lease when the worker has only queued the run.
\<close>

lemma dispatched_row:
  assumes "distinct (map r_id (runs (tables s)))" and "dispatchPendingRuns submit locked t s c w = (s1, c1, w1)"
    and "r0 \<in> set (runs (tables s))" and "r_status r0 = RunPending"
    and "r \<in> set (runs (tables s1))" and "r_id r = r_id r0" and "r_status r = RunRunning"
  shows "r = pick_row t r0"
proof -
  obtain n where m: "tables s1 = mark t (r_id ` set (take n (pending_rows locked t (tables s)))) (tables s)"
    using dispatch_tables [of submit locked t s c w] assms(2) by auto
  let ?ids = "r_id ` set (take n (pending_rows locked t (tables s)))"
  obtain x where x: "x \<in> set (runs (tables s))" "r = (if r_id x \<in> ?ids then pick_row t x else x)"
    using assms(5) by (auto simp: m mark_def set_update_where)
  then have "r_id x = r_id r0" using assms(6) by (auto simp: pick_row_def split: if_splits)
  then have "x = r0" using assms(1,3) x(1) by (auto simp: distinct_map dest: inj_onD)
  then show ?thesis using x(2) assms(4,7) by (auto split: if_splits)
qed

lemma success_report_row:
  assumes "uuid_in pg (RunRequest_RunId run) = Some u"
    and "execute (RunRequest_RunId run) (RunRequest_AgentId run)
          (reportStatus pg now (status_request (RunRequest_RunId run) RUNNING []) s) = (Inr result, s2)"
    and "\<not> BudgetExceeded result" and "outcomes s2 = []" and "u \<in> r_id ` set (runs (tables s2))"
  shows "\<exists>r \<in> set (runs (tables (executeRun (reportStatus pg now) execute run s))). r_id r = u \<and> r_status r = RunSucceeded"
proof -
  let ?req = "result_report (RunRequest_RunId run) result"
  obtain x where "x \<in> set (runs (tables s2))" "r_id x = u" using assms(5) by auto
  moreover have "executeRun (reportStatus pg now) execute run s = snd (UpdateRunStatus pg now ?req s2)"
    unfolding executeRun_def Let_def assms(2) by (simp add: reportStatus_def)
  moreover have "Update_Status ?req \<in> {SUCCEEDED, FAILED, BUDGET_EXCEEDED}" "Update_RunId ?req = RunRequest_RunId run"
    "Update_Status ?req = SUCCEEDED"
    using assms(3) by (simp_all add: result_report_def)
  ultimately show ?thesis
    using final_served [of ?req pg u s2 now] assms(1,4)
    by (auto simp: set_update_where finish_row_def reported_status_def intro!: bexI [of _ "finish_row RunSucceeded now ?req x"])
qed

text \<open>
  C37: a run that waits in a worker's queue longer than its lease is failed there. Whichever worker a
  dispatch at \<open>t\<close> handed the run to, if by a pass of the reaper later than one TTL after \<open>t\<close> nothing has touched
  its row (renewals and reports start only when a goroutine takes it off the queue), that pass,
  when the database serves it, fails it as abandoned and counts the failure against its agent.
  The worker still has it and executes it when it comes to it; if the executor then succeeds and the
  database serves the final report, the run that was failed is recorded as succeeded.
\<close>

theorem queued_run_is_reaped:
  assumes "distinct (map r_id (runs (tables s)))"
    and "dispatchPendingRuns submit locked t s c w = (s1, c1, w1)"
    and "r0 \<in> set (runs (tables s))" and "r_status r0 = RunPending"
    and "r \<in> set (runs (tables s1))" and "r_id r = r_id r0" and "r_status r = RunRunning"
    and "r \<in> set (runs (tables s2))" and "outcomes s2 = []" and "t + LeaseTTL < now"
  shows "\<exists>n s3. Reaper_RunOnce now s2 = (Inr n, s3) \<and>
     r\<lparr>r_status := RunFailed, r_error := lostWorkerMessage, r_finished_at := Some now\<rparr> \<in> set (runs (tables s3)) \<and>
     (\<forall>a \<in> set (agents (tables s2)). ag_id a = r_agent_id r \<longrightarrow>
        a\<lparr>ag_consecutive_failures := ag_consecutive_failures a + 1\<rparr> \<in> set (agents (tables s3))) \<and>
     (\<forall>pg later execute result s4. uuid_in pg (r_id r) = Some (r_id r) \<longrightarrow>
        execute (r_id r) (r_agent_id r) (reportStatus pg later (status_request (r_id r) RUNNING []) s3) = (Inr result, s4) \<longrightarrow>
        \<not> BudgetExceeded result \<longrightarrow> outcomes s4 = [] \<longrightarrow> r_id r \<in> r_id ` set (runs (tables s4)) \<longrightarrow>
        (\<exists>r' \<in> set (runs (tables (executeRun (reportStatus pg later) execute (run_request r) s3))).
           r_id r' = r_id r \<and> r_status r' = RunSucceeded))"
proof -
  have "r = pick_row t r0" by (rule dispatched_row [OF assms(1-7)])
  then have lease: "lease_expired now r" using assms(10) by (simp add: lease_expired_def pick_row_def)
  obtain n s3 where pass: "Reaper_RunOnce now s2 = (Inr n, s3)"
    using assms(9) by (simp add: Reaper_RunOnce_def reap_stmt_def Let_def)
  note ok = Reaper_ok [OF pass]
  have "reap_row now r \<in> set (runs (tables s3))"
    using lease assms(8) by (auto simp: ok set_update_where)
  moreover have "a\<lparr>ag_consecutive_failures := ag_consecutive_failures a + 1\<rparr> \<in> set (agents (tables s3))"
    if "a \<in> set (agents (tables s2))" "ag_id a = r_agent_id r" for a
    using that lease assms(8) by (auto simp: ok set_update_where count_failure_def)
  moreover have "RunRequest_RunId (run_request r) = r_id r" "RunRequest_AgentId (run_request r) = r_agent_id r"
    by (simp_all add: run_request_def)
  ultimately show ?thesis
    using pass success_report_row [where run = "run_request r" and u = "r_id r"]
    by (intro exI [of _ n] exI [of _ s3]) (simp add: reap_row_def)
qed

text \<open>A coordinator with one worker, whose goroutines are busy and whose queue has room.\<close>

definition one_worker :: CoordinatorServer where
  "one_worker = NewServerWithClock\<lparr>WorkerPool := [(1, \<lparr>heartbeatMisses = 0, worker_address = ''w''\<rparr>)], WorkerPoolKeys := [1]\<rparr>"

definition queued_dispatch :: "server \<times> CoordinatorServer \<times> (rpc_outcome list \<times> (string \<times> WorkerServer) list)" where
  "queued_dispatch = dispatchPendingRuns rpc_submit (\<lambda>_. False) 10 demo_server one_worker ([], [(''w'', NewServerWithExecutor)])"

theorem queued_run_is_reaped_witness:
  "\<exists>s c w r n s'. queued_dispatch = (s, c, w) \<and> cluster_queued (snd w) = {#run_request r#} \<and>
     Reaper_RunOnce (10 + LeaseTTL + 1) s = (Inr n, s') \<and>
     map r_status (runs (tables s')) = [RunFailed] \<and> map ag_consecutive_failures (agents (tables s')) = [1] \<and>
     (\<exists>r' \<in> set (runs (tables (executeRun (reportStatus demo_pg (200 * Second)) demo_executor (run_request r) s'))).
        r_id r' = ''r1'' \<and> r_status r' = RunSucceeded)"
proof -
  let ?row = "demo_run ''r1'' ''a1'' RunPending 5" and ?now = "10 + LeaseTTL + 1"
  let ?r = "pick_row 10 ?row" and ?s3 = "snd (Reaper_RunOnce (10 + LeaseTTL + 1) (fst queued_dispatch))"
  let ?s4 = "reportStatus demo_pg (200 * Second) (status_request ''r1'' RUNNING []) ?s3"
  obtain s c w where q: "queued_dispatch = (s, c, w)" by (cases queued_dispatch)
  have st: "runs (tables (fst queued_dispatch)) = [?r]" "outcomes (fst queued_dispatch) = []"
    and w: "map (\<lambda>(a, w). runQueue w) (snd (snd (snd queued_dispatch))) = [[run_request ?r]]"
    and s3: "map r_status (runs (tables ?s3)) = [RunFailed]" "map ag_consecutive_failures (agents (tables ?s3)) = [1]"
    and s4: "outcomes ?s4 = []" "map r_id (runs (tables ?s4)) = [''r1'']"
    by code_simp+
  have r: "r_id ?r = ''r1''" "r_agent_id ?r = ''a1''" "r_id ?row = ''r1''" "r_status ?r = RunRunning" "r_status ?row = RunPending"
    and db: "runs (tables demo_server) = [?row]"
    by code_simp+
  have pg: "uuid_in demo_pg ''r1'' = Some ''r1''" by (simp add: demo_pg_def)
  have d: "dispatchPendingRuns rpc_submit (\<lambda>_. False) 10 demo_server one_worker ([], [(''w'', NewServerWithExecutor)]) = (s, c, w)"
    using q by (simp add: queued_dispatch_def)
  have s: "runs (tables s) = [?r]" "outcomes s = []" "?s3 = snd (Reaper_RunOnce ?now s)" using st by (simp_all add: q)
  obtain n s3 where n: "Reaper_RunOnce ?now s = (Inr n, s3)"
    and late: "\<forall>pg later execute result s4. uuid_in pg ''r1'' = Some ''r1'' \<longrightarrow>
        execute ''r1'' ''a1'' (reportStatus pg later (status_request ''r1'' RUNNING []) s3) = (Inr result, s4) \<longrightarrow>
        \<not> BudgetExceeded result \<longrightarrow> outcomes s4 = [] \<longrightarrow> ''r1'' \<in> r_id ` set (runs (tables s4)) \<longrightarrow>
        (\<exists>r' \<in> set (runs (tables (executeRun (reportStatus pg later) execute (run_request ?r) s3))).
           r_id r' = ''r1'' \<and> r_status r' = RunSucceeded)"
    using queued_run_is_reaped [OF _ d, where ?r0.0 = ?row and r = ?r and ?s2.0 = s and now = ?now] r db s by auto
  have "?s3 = s3" using n s(3) by simp
  note n = n [folded this] and ex = late [folded this, rule_format, OF pg, where execute = demo_executor and later = "200 * Second"]
  have "''r1'' \<in> r_id ` set (runs (tables ?s4))" using s4(2) by (metis list.set_intros(1) list.set_map)
  from ex [of _ ?s4, OF _ _ s4(1) this]
  have "\<exists>r' \<in> set (runs (tables (executeRun (reportStatus demo_pg (200 * Second)) demo_executor (run_request ?r) ?s3))).
      r_id r' = ''r1'' \<and> r_status r' = RunSucceeded"
    by (simp add: demo_executor_def no_result_def)
  moreover have "cluster_queued (snd w) = {#run_request ?r#}" using w by (auto simp: q cluster_queued_def)
  ultimately show ?thesis
    using q n s3 by (intro exI [of _ s] exI [of _ c] exI [of _ w] exI [of _ ?r] exI [of _ n] exI [of _ ?s3] conjI)
qed

end
