(* ===== verification/Json.thy ===== *)
theory Json
  imports Taskd_Prelude
begin

text \<open>
  What the sources use of Go's \<open>encoding/json\<close>: \<open>json.Valid\<close>, as the library's own scanner, a
  state machine over the bytes with a stack of open objects and arrays; and the values a JSON
  schema is built from.
\<close>

section \<open>The scanner (encoding/json/scanner.go)\<close>

datatype parse_state = ParseObjectKey | ParseObjectValue | ParseArrayValue

datatype scan_state =
    BeginValue | BeginValueOrEmpty | BeginString | BeginStringOrEmpty | EndValue | EndTop
  | InString | InStringEsc | InStringEscU nat
  | Neg | Digits1 | Digit0 | Dot | Dot0 | Exp | ExpSign | Exp0
  | Literal string

definition is_space :: "char \<Rightarrow> bool" where
  "is_space c \<longleftrightarrow> c \<in> {CHR 0x20, CHR 0x09, CHR 0x0D, CHR 0x0A}"

definition is_digit :: "char \<Rightarrow> bool" where
  "is_digit c \<longleftrightarrow> 48 \<le> (of_char c :: nat) \<and> (of_char c :: nat) \<le> 57"

definition is_hex :: "char \<Rightarrow> bool" where
  "is_hex c \<longleftrightarrow> is_digit c \<or> (let n = (of_char c :: nat) in 97 \<le> n \<and> n \<le> 102 \<or> 65 \<le> n \<and> n \<le> 70)"

definition maxNestingDepth :: nat where "maxNestingDepth = 10000"

type_synonym scanner = "scan_state \<times> parse_state list"

definition pushParseState :: "scan_state \<Rightarrow> parse_state \<Rightarrow> parse_state list \<Rightarrow> scanner option" where
  "pushParseState st p stack = (if length stack + 1 \<le> maxNestingDepth then Some (st, p # stack) else None)"

definition popParseState :: "parse_state list \<Rightarrow> scanner" where
  "popParseState stack = (if tl stack = [] then EndTop else EndValue, tl stack)"

definition stateBeginValue :: "char \<Rightarrow> parse_state list \<Rightarrow> scanner option" where
  "stateBeginValue c stack =
     (if is_space c then Some (BeginValue, stack)
      else if c = CHR ''{'' then pushParseState BeginStringOrEmpty ParseObjectKey stack
      else if c = CHR ''['' then pushParseState BeginValueOrEmpty ParseArrayValue stack
      else if c = CHR 0x22 then Some (InString, stack)
      else if c = CHR ''-'' then Some (Neg, stack)
      else if c = CHR ''0'' then Some (Digit0, stack)
      else if c = CHR ''t'' then Some (Literal ''rue'', stack)
      else if c = CHR ''f'' then Some (Literal ''alse'', stack)
      else if c = CHR ''n'' then Some (Literal ''ull'', stack)
      else if is_digit c then Some (Digits1, stack)
      else None)"

definition stateBeginString :: "char \<Rightarrow> parse_state list \<Rightarrow> scanner option" where
  "stateBeginString c stack =
     (if is_space c then Some (BeginString, stack)
      else if c = CHR 0x22 then Some (InString, stack)
      else None)"

definition stateEndValue :: "char \<Rightarrow> parse_state list \<Rightarrow> scanner option" where
  "stateEndValue c stack =
     (case stack of
        [] \<Rightarrow> if is_space c then Some (EndTop, []) else None
      | p # rest \<Rightarrow>
          if is_space c then Some (EndValue, stack)
          else (case p of
                  ParseObjectKey \<Rightarrow>
                    if c = CHR '':'' then Some (BeginValue, ParseObjectValue # rest) else None
                | ParseObjectValue \<Rightarrow>
                    if c = CHR '','' then Some (BeginString, ParseObjectKey # rest)
                    else if c = CHR ''}'' then Some (popParseState stack)
                    else None
                | ParseArrayValue \<Rightarrow>
                    if c = CHR '','' then Some (BeginValue, stack)
                    else if c = CHR '']'' then Some (popParseState stack)
                    else None))"

definition stateNumberEnd :: "char \<Rightarrow> parse_state list \<Rightarrow> scanner option" where
  "stateNumberEnd c stack =
     (if c = CHR ''.'' then Some (Dot, stack)
      else if c = CHR ''e'' \<or> c = CHR ''E'' then Some (Exp, stack)
      else stateEndValue c stack)"

fun scan_step :: "char \<Rightarrow> scanner \<Rightarrow> scanner option" where
  "scan_step c (BeginValue, stack) = stateBeginValue c stack"
| "scan_step c (BeginValueOrEmpty, stack) =
     (if is_space c then Some (BeginValueOrEmpty, stack)
      else if c = CHR '']'' then stateEndValue c stack
      else stateBeginValue c stack)"
| "scan_step c (BeginString, stack) = stateBeginString c stack"
| "scan_step c (BeginStringOrEmpty, stack) =
     (if is_space c then Some (BeginStringOrEmpty, stack)
      else if c = CHR ''}'' then stateEndValue c (ParseObjectValue # tl stack)
      else stateBeginString c stack)"
| "scan_step c (EndValue, stack) = stateEndValue c stack"
| "scan_step c (EndTop, stack) = (if is_space c then Some (EndTop, stack) else None)"
| "scan_step c (InString, stack) =
     (if c = CHR 0x22 then Some (EndValue, stack)
      else if c = CHR 0x5C then Some (InStringEsc, stack)
      else if (of_char c :: nat) < 32 then None
      else Some (InString, stack))"
| "scan_step c (InStringEsc, stack) =
     (if c \<in> {CHR ''b'', CHR ''f'', CHR ''n'', CHR ''r'', CHR ''t'', CHR 0x5C, CHR ''/'', CHR 0x22}
      then Some (InString, stack)
      else if c = CHR ''u'' then Some (InStringEscU 3, stack)
      else None)"
| "scan_step c (InStringEscU n, stack) =
     (if is_hex c then Some (if n = 0 then InString else InStringEscU (n - 1), stack) else None)"
| "scan_step c (Neg, stack) =
     (if c = CHR ''0'' then Some (Digit0, stack)
      else if is_digit c then Some (Digits1, stack)
      else None)"
| "scan_step c (Digits1, stack) =
     (if is_digit c then Some (Digits1, stack) else stateNumberEnd c stack)"
| "scan_step c (Digit0, stack) = stateNumberEnd c stack"
| "scan_step c (Dot, stack) = (if is_digit c then Some (Dot0, stack) else None)"
| "scan_step c (Dot0, stack) =
     (if is_digit c then Some (Dot0, stack)
      else if c = CHR ''e'' \<or> c = CHR ''E'' then Some (Exp, stack)
      else stateEndValue c stack)"
| "scan_step c (Exp, stack) =
     (if c = CHR ''+'' \<or> c = CHR ''-'' then Some (ExpSign, stack)
      else if is_digit c then Some (Exp0, stack) else None)"
| "scan_step c (ExpSign, stack) = (if is_digit c then Some (Exp0, stack) else None)"
| "scan_step c (Exp0, stack) = (if is_digit c then Some (Exp0, stack) else stateEndValue c stack)"
| "scan_step c (Literal rest, stack) =
     (case rest of
        [] \<Rightarrow> None
      | x # xs \<Rightarrow> if c = x then Some (if xs = [] then EndValue else Literal xs, stack) else None)"

fun scan :: "string \<Rightarrow> scanner \<Rightarrow> scanner option" where
  "scan [] sc = Some sc"
| "scan (c # cs) sc = (case scan_step c sc of None \<Rightarrow> None | Some sc' \<Rightarrow> scan cs sc')"

text \<open>\<open>eof\<close>: the value has ended, or ends when a space follows.\<close>

definition scan_eof :: "scanner \<Rightarrow> bool" where
  "scan_eof sc \<longleftrightarrow> (case scan_step CHR 0x20 sc of Some (EndTop, _) \<Rightarrow> True | _ \<Rightarrow> False)"

definition Valid :: "string \<Rightarrow> bool" where
  "Valid data \<longleftrightarrow> (case scan data (BeginValue, []) of None \<Rightarrow> False | Some sc \<Rightarrow> scan_eof sc)"

section \<open>Values of a schema\<close>

datatype json = JString string | JArray "json list" | JObject "(string \<times> json) list"

end
