(* ===== verification/Mux.thy ===== *)
theory Mux
  imports Json
begin

text \<open>
  The paths of requests and the request multiplexer of \<open>net/http\<close> as the API server uses it:
  patterns with a method and one-segment wildcards, and the pattern \<open>/\<close> for everything else.
\<close>

section \<open>Escaped paths\<close>

definition unhex :: "char \<Rightarrow> nat" where
  "unhex c =
     (let n = of_char c in
      if 48 \<le> n \<and> n \<le> 57 then n - 48 else if 97 \<le> n \<and> n \<le> 102 then n - 87 else n - 55)"

text \<open>\<open>url.PathUnescape\<close>; None is an escape that is not two hexadecimal digits.\<close>

fun PathUnescape :: "string \<Rightarrow> string option" where
  "PathUnescape [] = Some []"
| "PathUnescape (c # cs) =
     (if c = CHR ''%'' then
        (case cs of
           a # b # rest \<Rightarrow>
             if is_hex a \<and> is_hex b
             then map_option (Cons (char_of (unhex a * 16 + unhex b))) (PathUnescape rest) else None
         | _ \<Rightarrow> None)
      else map_option (Cons c) (PathUnescape cs))"

text \<open>The multiplexer leaves a segment as it stands when it does not unescape.\<close>

definition pathUnescape :: "string \<Rightarrow> string" where
  "pathUnescape s = (case PathUnescape s of None \<Rightarrow> s | Some u \<Rightarrow> u)"

definition slash :: char where "slash = CHR ''/''"

text \<open>\<open>path.Clean\<close> on the segments of a rooted path: empty and dot segments go, a double dot drops the one before.\<close>

fun clean_segments :: "string list \<Rightarrow> string list \<Rightarrow> string list" where
  "clean_segments acc [] = rev acc"
| "clean_segments acc (seg # segs) =
     (if seg = [] \<or> seg = ''.'' then clean_segments acc segs
      else if seg = ''..'' then clean_segments (drop 1 acc) segs
      else clean_segments (seg # acc) segs)"

definition cleanPath :: "string \<Rightarrow> string" where
  "cleanPath p =
     (let p1 = (if p = [] then [slash] else if hd p \<noteq> slash then slash # p else p);
          np = slash # Join (clean_segments [] (Split (tl p1) slash)) [slash]
      in if last p1 = slash \<and> np \<noteq> [slash] then np @ [slash] else np)"

section \<open>Patterns\<close>

datatype segment = Lit string | Wild

text \<open>
  The values of the wildcards, when the pattern matches. A wildcard takes one segment; it does not
  take the empty segment of a trailing slash, nor a segment that unescapes to a slash.
\<close>

fun match_segments :: "segment list \<Rightarrow> string list \<Rightarrow> string list option" where
  "match_segments [] [] = Some []"
| "match_segments (Lit l # ps) (seg # segs) =
     (if seg \<noteq> [] \<and> pathUnescape seg = l then match_segments ps segs else None)"
| "match_segments (Wild # ps) (seg # segs) =
     (if seg \<noteq> [] \<and> pathUnescape seg \<noteq> [slash]
      then map_option (Cons (pathUnescape seg)) (match_segments ps segs) else None)"
| "match_segments _ _ = None"

type_synonym 'e route = "string \<times> segment list \<times> (string list \<Rightarrow> 'e)"

fun find_route :: "'e route list \<Rightarrow> string \<Rightarrow> string list \<Rightarrow> 'e option" where
  "find_route [] method segs = None"
| "find_route ((m, ps, e) # rs) method segs =
     (case (m = method, match_segments ps segs) of
        (True, Some vs) \<Rightarrow> Some (e vs)
      | _ \<Rightarrow> find_route rs method segs)"

text \<open>
  Where a request goes: a path that is not clean is redirected, GET patterns also take HEAD, and
  what no pattern takes goes to the pattern \<open>/\<close>. A CONNECT is not cleaned; no pattern has that
  method.
\<close>

datatype 'e destination = Redirect string | Endpoint 'e | Fallback

definition mux_match :: "'e route list \<Rightarrow> string \<Rightarrow> string \<Rightarrow> 'e destination" where
  "mux_match rs method escaped =
     (if method = ''CONNECT'' then Fallback
      else if cleanPath escaped \<noteq> escaped then Redirect (cleanPath escaped)
      else
        (let segs = Split (tl escaped) slash in
         case find_route rs method segs of
           Some e \<Rightarrow> Endpoint e
         | None \<Rightarrow>
             (case (if method = ''HEAD'' then find_route rs ''GET'' segs else None) of
                Some e \<Rightarrow> Endpoint e
              | None \<Rightarrow> Fallback)))"

section \<open>Lemmas\<close>

lemma PathUnescape_slash:
  "PathUnescape (xs @ slash # ys) =
     (case (PathUnescape xs, PathUnescape ys) of (Some a, Some b) \<Rightarrow> Some (a @ slash # b) | _ \<Rightarrow> None)"
proof (induction xs rule: PathUnescape.induct)
  case (2 c cs)
  show ?case
  proof (cases "c = CHR ''%''")
    case True
    have "\<not> is_hex slash" by (simp add: is_hex_def is_digit_def slash_def)
    note nohex = this
    consider "cs = []" | a where "cs = [a]" | a b rest where "cs = a # b # rest"
      by (cases cs; cases "tl cs") auto
    then show ?thesis
    proof cases
      case (3 a b rest)
      with 2(1) [OF True 3] show ?thesis using True by (simp split: option.splits)
    qed (use True nohex in \<open>simp_all split: list.splits\<close>)
  next
    case False
    with 2(2) show ?thesis by (auto split: option.splits)
  qed
qed (auto simp: slash_def split: option.splits)

lemma Join_Split: "Join (Split s c) [c] = s"
proof (induction s)
  case (Cons x s)
  have "Split s c \<noteq> []" by (induction s) (auto split: list.splits)
  then show ?case using Cons by (cases "Split s c"; cases "tl (Split s c)") auto
qed simp

lemma Join_Cons: "ps \<noteq> [] \<Longrightarrow> Join (p # ps) sep = p @ sep @ Join ps sep"
  by (cases ps) auto

text \<open>Unescaping a path is unescaping its segments.\<close>

lemma PathUnescape_Join:
  "PathUnescape (Join segs [slash]) = Some path \<Longrightarrow> path = Join (map pathUnescape segs) [slash]"
proof (induction segs arbitrary: path)
  case (Cons seg segs)
  show ?case
  proof (cases "segs = []")
    case False
    then obtain a b where "PathUnescape seg = Some a" "PathUnescape (Join segs [slash]) = Some b" "path = a @ slash # b"
      using Cons.prems by (auto simp: Join_Cons PathUnescape_slash split: option.splits)
    then show ?thesis using Cons.IH False by (simp add: Join_Cons pathUnescape_def)
  qed (use Cons.prems in \<open>simp add: pathUnescape_def\<close>)
qed simp

text \<open>The segments a pattern stands for, its wildcards filled in.\<close>

fun fill :: "segment list \<Rightarrow> string list \<Rightarrow> string list" where
  "fill [] vs = []"
| "fill (Lit l # ps) vs = l # fill ps vs"
| "fill (Wild # ps) [] = []"
| "fill (Wild # ps) (v # vs) = v # fill ps vs"

lemma match_fill: "match_segments ps segs = Some vs \<Longrightarrow> fill ps vs = map pathUnescape segs"
  by (induction ps segs arbitrary: vs rule: match_segments.induct) (auto split: if_splits)

lemma clean_rooted: "cleanPath p = p \<Longrightarrow> \<exists>t. p = slash # t"
  by (cases p) (auto simp: cleanPath_def Let_def split: if_splits)

lemma find_route_Some:
  "find_route rs method segs = Some e \<Longrightarrow> \<exists>ps f vs. (method, ps, f) \<in> set rs \<and> match_segments ps segs = Some vs \<and> e = f vs"
proof (induction rs)
  case (Cons r rs)
  obtain m ps f where r: "r = (m, ps, f)" by (cases r)
  show ?case
  proof (cases "m = method \<and> match_segments ps segs \<noteq> None")
    case True
    with Cons.prems show ?thesis unfolding r by fastforce
  next
    case False
    then have "find_route (r # rs) method segs = find_route rs method segs"
      by (auto simp: r split: option.splits bool.splits)
    with Cons show ?thesis by (metis list.set_intros(2))
  qed
qed simp

text \<open>
  What the multiplexer routes by is what the whole path says: a request a pattern takes has, once
  its path is unescaped, the path of that pattern.
\<close>

lemma mux_match_path:
  assumes "mux_match rs method escaped = Endpoint e" and "PathUnescape escaped = Some path"
  shows "\<exists>m ps f vs. (m, ps, f) \<in> set rs \<and> e = f vs \<and> path = slash # Join (fill ps vs) [slash] \<and>
    (m = method \<or> m = ''GET'' \<and> method = ''HEAD'')"
proof -
  from assms(1) obtain m where clean: "cleanPath escaped = escaped" and m: "m = method \<or> m = ''GET'' \<and> method = ''HEAD''"
      and route: "find_route rs m (Split (tl escaped) slash) = Some e"
    by (auto simp: mux_match_def Let_def split: if_splits option.splits)
  obtain t where t: "escaped = slash # t" using clean_rooted [OF clean] by blast
  obtain ps f vs where ps: "(m, ps, f) \<in> set rs" "e = f vs" and match: "match_segments ps (Split t slash) = Some vs"
    using find_route_Some [OF route] t by auto
  obtain u where u: "PathUnescape t = Some u" "path = slash # u"
    using assms(2) PathUnescape_slash [of "[]" t] t by (auto split: option.splits)
  then have "u = Join (map pathUnescape (Split t slash)) [slash]"
    using PathUnescape_Join [of "Split t slash" u] by (simp add: Join_Split)
  then have "path = slash # Join (fill ps vs) [slash]" using match_fill [OF match] u(2) by simp
  with ps m show ?thesis by blast
qed

end
