(* ===== verification/Base64.thy ===== *)
theory Base64
  imports Taskd_Prelude
begin

text \<open>
  \<open>encoding/base64\<close> of the Go library, as far as the program uses it: the standard encoding with
  padding for the master key, and the URL alphabet without padding for session tokens. Where
  the library's decoding error names an offset, here is only None.
\<close>

section \<open>Encoding\<close>

definition base64_std :: string where
  "base64_std = ''ABCDEFGHIJKLMNOPQRSTUVWXYZabcdefghijklmnopqrstuvwxyz0123456789+/''"

definition base64_url :: string where
  "base64_url = ''ABCDEFGHIJKLMNOPQRSTUVWXYZabcdefghijklmnopqrstuvwxyz0123456789-_''"

definition byte :: "char \<Rightarrow> nat" where "byte c = of_char c"

fun base64_encode :: "string \<Rightarrow> string \<Rightarrow> string \<Rightarrow> string" where
  "base64_encode alphabet pad [] = []"
| "base64_encode alphabet pad [a] =
     [alphabet ! (byte a div 4), alphabet ! (byte a mod 4 * 16)] @ pad @ pad"
| "base64_encode alphabet pad [a, b] =
     [alphabet ! (byte a div 4), alphabet ! (byte a mod 4 * 16 + byte b div 16),
      alphabet ! (byte b mod 16 * 4)] @ pad"
| "base64_encode alphabet pad (a # b # c # rest) =
     [alphabet ! (byte a div 4), alphabet ! (byte a mod 4 * 16 + byte b div 16),
      alphabet ! (byte b mod 16 * 4 + byte c div 64), alphabet ! (byte c mod 64)]
     @ base64_encode alphabet pad rest"

definition StdEncoding_EncodeToString :: "string \<Rightarrow> string" where
  "StdEncoding_EncodeToString = base64_encode base64_std ''=''"

definition RawURLEncoding_EncodeToString :: "string \<Rightarrow> string" where
  "RawURLEncoding_EncodeToString = base64_encode base64_url []"

section \<open>Decoding\<close>

definition sextet :: "char \<Rightarrow> nat option" where
  "sextet c = map_of (zip base64_std [0..<64]) c"

text \<open>One quantum of four characters, the last one or two possibly padding.\<close>

definition quantum :: "char \<Rightarrow> char \<Rightarrow> char \<Rightarrow> char \<Rightarrow> bool \<Rightarrow> string option" where
  "quantum p q r s final =
     (case (sextet p, sextet q) of
        (Some a, Some b) \<Rightarrow>
          (if final \<and> r = CHR ''='' \<and> s = CHR ''='' then Some [char_of (a * 4 + b div 16)]
           else (case sextet r of
             None \<Rightarrow> None
           | Some c \<Rightarrow>
               if final \<and> s = CHR ''='' then
                 Some [char_of (a * 4 + b div 16), char_of (b mod 16 * 16 + c div 4)]
               else (case sextet s of
                 None \<Rightarrow> None
               | Some d \<Rightarrow> Some [char_of (a * 4 + b div 16), char_of (b mod 16 * 16 + c div 4),
                   char_of (c mod 4 * 64 + d)])))
      | _ \<Rightarrow> None)"

fun quanta :: "string \<Rightarrow> string option" where
  "quanta [] = Some []"
| "quanta (p # q # r # s # rest) =
     (case quantum p q r s (rest = []) of
        None \<Rightarrow> None
      | Some bs \<Rightarrow> map_option (\<lambda>more. bs @ more) (quanta rest))"
| "quanta _ = None"

text \<open>Line breaks are skipped wherever they stand.\<close>

definition StdEncoding_DecodeString :: "string \<Rightarrow> string option" where
  "StdEncoding_DecodeString s = quanta (filter (\<lambda>c. c \<noteq> newline \<and> c \<noteq> CHR 0x0D) s)"

section \<open>Round trip\<close>

lemma byte_less: "byte c < 256"
  by (simp add: byte_def)

lemma char_of_byte [simp]: "char_of (byte c) = c"
  by (simp add: byte_def)

lemma alphabet_table:
  "list_all (\<lambda>i. sextet (base64_std ! i) = Some i \<and> base64_std ! i \<noteq> CHR ''='' \<and>
     base64_std ! i \<noteq> newline \<and> base64_std ! i \<noteq> CHR 0x0D) [0..<64]"
  by code_simp

lemma alphabet_char:
  assumes "i < 64"
  shows "sextet (base64_std ! i) = Some i" "base64_std ! i \<noteq> CHR ''=''"
    "base64_std ! i \<noteq> newline" "base64_std ! i \<noteq> CHR 0x0D"
  using alphabet_table assms by (auto simp: list_all_iff)

lemma sextet_pad: "sextet CHR ''='' = None"
  by code_simp

text \<open>The six-bit groups of three bytes, and the bytes back from them.\<close>

lemma sextets_less [simp]:
  "byte a div 4 < 64" "byte a mod 4 * 16 < 64" "byte a mod 4 * 16 + byte b div 16 < 64" "byte b mod 16 * 4 < 64"
  "byte b mod 16 * 4 + byte c div 64 < 64" "byte c mod 64 < 64"
proof -
  have d: "byte a div 4 < 64" "byte b div 16 < 16" "byte c div 64 < 4"
    using byte_less by (simp_all add: less_mult_imp_div_less)
  have m: "byte a mod 4 < 4" "byte b mod 16 < 16" "byte c mod 64 < 64" by simp_all
  show "byte a div 4 < 64" "byte a mod 4 * 16 < 64" "byte a mod 4 * 16 + byte b div 16 < 64" "byte b mod 16 * 4 < 64"
    "byte b mod 16 * 4 + byte c div 64 < 64" "byte c mod 64 < 64" using d m by linarith+
qed

lemma high_bits [simp]:
  "byte b div 16 div 16 = 0" "byte b div 16 mod 16 = byte b div 16"
  "byte c div 64 div 4 = 0" "byte c div 64 mod 4 = byte c div 64"
  using byte_less [of b] byte_less [of c] by (simp_all add: less_mult_imp_div_less)

lemma encode_chars: "set (base64_encode base64_std ''='' bs) \<subseteq> insert CHR ''='' (set base64_std)"
proof -
  have "length base64_std = 64" by (simp add: base64_std_def)
  then have "base64_std ! i \<in> set base64_std" if "i < 64" for i using that by simp
  then show ?thesis
    by (induction base64_std "''=''" bs rule: base64_encode.induct) simp_all
qed

lemma quanta_encode: "quanta (base64_encode base64_std ''='' bs) = Some bs"
proof (induction base64_std "''=''" bs rule: base64_encode.induct)
  case (4 a b c rest)
  then show ?case
    by (simp add: quantum_def alphabet_char)
qed (simp_all add: quantum_def alphabet_char sextet_pad)

lemma decode_encode: "StdEncoding_DecodeString (StdEncoding_EncodeToString bs) = Some bs"
proof -
  have "\<forall>c \<in> insert CHR ''='' (set base64_std). c \<noteq> newline \<and> c \<noteq> CHR 0x0D"
    by (simp add: base64_std_def newline_def)
  then have "filter (\<lambda>c. c \<noteq> newline \<and> c \<noteq> CHR 0x0D) (base64_encode base64_std ''='' bs) = base64_encode base64_std ''='' bs"
    using encode_chars by (intro filter_True) blast
  then show ?thesis by (simp add: StdEncoding_DecodeString_def StdEncoding_EncodeToString_def quanta_encode)
qed

end
