(* ===== verification/Secretbox.thy ===== *)
theory Secretbox
  imports Base64
begin

text \<open>
  \<open>pkg/secretbox\<close>: envelope encryption of stored credentials. The AEAD (AES-GCM of the Go
  library) is a parameter; the random source is the bytes it will hand out.
\<close>

section \<open>The primitives\<close>

text \<open>
  \<open>gcm_seal key nonce plaintext\<close> is the ciphertext with its tag, \<open>gcm_open\<close> undoes it or fails
  to authenticate.
\<close>

record gcm =
  gcm_seal :: "string \<Rightarrow> string \<Rightarrow> string \<Rightarrow> string"
  gcm_open :: "string \<Rightarrow> string \<Rightarrow> string \<Rightarrow> string option"

definition gcm_correct :: "gcm \<Rightarrow> bool" where
  "gcm_correct g \<longleftrightarrow> (\<forall>key nonce plaintext.
     gcm_open g key nonce (gcm_seal g key nonce plaintext) = Some plaintext)"

definition NonceSize :: nat where "NonceSize = 12"

definition keyLength :: nat where "keyLength = 32"

text \<open>\<open>io.ReadFull(rand.Reader, ...)\<close>: the next \<open>n\<close> bytes, or an error when there are not as many.\<close>

definition ReadFull :: "nat \<Rightarrow> string \<Rightarrow> string res \<times> string" where
  "ReadFull n rng =
     (if length rng < n then (Inl (Errorf ''unexpected EOF''), []) else (Inr (take n rng), drop n rng))"

text \<open>\<open>aes.NewCipher\<close> takes keys of 16, 24 or 32 bytes.\<close>

definition newGCM :: "string \<Rightarrow> unit res" where
  "newGCM key =
     (if length key \<in> {16, 24, 32} then Inr ()
      else Inl (Errorf (''crypto/aes: invalid key size '' @ Itoa (int (length key)))))"

section \<open>The master key\<close>

definition MasterKeyEnvVar :: string where "MasterKeyEnvVar = ''TASKD_SECRET_KEY''"

definition ErrNoMasterKey :: string where "ErrNoMasterKey = ''no master key configured''"

text \<open>A sealer is its master key.\<close>

definition secretbox_New :: "string \<Rightarrow> string res" where
  "secretbox_New encodedMasterKey =
     (case StdEncoding_DecodeString encodedMasterKey of
        None \<Rightarrow> Inl (Errorf (MasterKeyEnvVar @ '' is not valid base64: illegal base64 data''))
      | Some masterKey \<Rightarrow>
          if length masterKey \<noteq> keyLength then
            Inl (Errorf (MasterKeyEnvVar @ '' must decode to '' @ Itoa (int keyLength) @ '' bytes, got ''
              @ Itoa (int (length masterKey))))
          else Inr masterKey)"

definition NewFromEnv :: "(string \<Rightarrow> string) \<Rightarrow> string res" where
  "NewFromEnv Getenv =
     (let encoded = Getenv MasterKeyEnvVar in
      if encoded = [] then
        Inl (Errorf (ErrNoMasterKey @ '': set '' @ MasterKeyEnvVar @ '' to a base64-encoded 32-byte key ''
          @ ''(openssl rand -base64 32)''))
      else secretbox_New encoded)"

definition GenerateMasterKey :: "string \<Rightarrow> string res \<times> string" where
  "GenerateMasterKey rng =
     (case ReadFull keyLength rng of
        (Inl e, rng1) \<Rightarrow> (Inl e, rng1)
      | (Inr key, rng1) \<Rightarrow> (Inr (StdEncoding_EncodeToString key), rng1))"

section \<open>Sealing and opening\<close>

definition encrypt :: "gcm \<Rightarrow> string \<Rightarrow> string \<Rightarrow> string \<Rightarrow> string res \<times> string" where
  "encrypt g key plaintext rng =
     (case newGCM key of
        Inl e \<Rightarrow> (Inl e, rng)
      | Inr _ \<Rightarrow>
          (case ReadFull NonceSize rng of
             (Inl e, rng1) \<Rightarrow> (Inl e, rng1)
           | (Inr nonce, rng1) \<Rightarrow> (Inr (nonce @ gcm_seal g key nonce plaintext), rng1)))"

definition decrypt :: "gcm \<Rightarrow> string \<Rightarrow> string \<Rightarrow> string res" where
  "decrypt g key sealed =
     (case newGCM key of
        Inl e \<Rightarrow> Inl e
      | Inr _ \<Rightarrow>
          if length sealed < NonceSize then Inl (Errorf ''the sealed value is too short'')
          else (case gcm_open g key (take NonceSize sealed) (drop NonceSize sealed) of
                  None \<Rightarrow> Inl (Errorf ''cipher: message authentication failed'')
                | Some plaintext \<Rightarrow> Inr plaintext))"

definition Seal :: "gcm \<Rightarrow> string \<Rightarrow> string \<Rightarrow> string \<Rightarrow> (string \<times> string) res \<times> string" where
  "Seal g masterKey plaintext rng =
     (case ReadFull keyLength rng of
        (Inl e, rng1) \<Rightarrow> (Inl e, rng1)
      | (Inr dataKey, rng1) \<Rightarrow>
          (case encrypt g dataKey plaintext rng1 of
             (Inl e, rng2) \<Rightarrow> (Inl e, rng2)
           | (Inr sealedValue, rng2) \<Rightarrow>
               (case encrypt g masterKey dataKey rng2 of
                  (Inl e, rng3) \<Rightarrow> (Inl e, rng3)
                | (Inr sealedDataKey, rng3) \<Rightarrow> (Inr (sealedValue, sealedDataKey), rng3))))"

definition Open :: "gcm \<Rightarrow> string \<Rightarrow> string \<Rightarrow> string \<Rightarrow> string res" where
  "Open g masterKey sealedValue sealedDataKey =
     (case decrypt g masterKey sealedDataKey of
        Inl e \<Rightarrow> Inl (Errorf (''could not unseal the data key: '' @ Error e))
      | Inr dataKey \<Rightarrow>
          (case decrypt g dataKey sealedValue of
             Inl e \<Rightarrow> Inl (Errorf (''could not unseal the value: '' @ Error e))
           | Inr plaintext \<Rightarrow> Inr plaintext))"

text \<open>The ellipsis is its three UTF-8 bytes.\<close>

definition Mask :: "string \<Rightarrow> string" where
  "Mask value =
     (let visible = 4; dots = [CHR 0xE2, CHR 0x80, CHR 0xA6] in
      if length value \<le> visible then dots else dots @ drop (length value - visible) value)"

section \<open>Lemmas\<close>

lemma ReadFull_ok: "ReadFull n rng = (Inr bs, rng') \<Longrightarrow> length bs = n \<and> bs = take n rng \<and> rng' = drop n rng"
  by (auto simp: ReadFull_def split: if_splits)

lemma ReadFull_enough: "n \<le> length rng \<Longrightarrow> ReadFull n rng = (Inr (take n rng), drop n rng)"
  by (simp add: ReadFull_def)

lemma decrypt_encrypt:
  assumes "gcm_correct g" and "encrypt g key plaintext rng = (Inr sealed, rng')"
  shows "decrypt g key sealed = Inr plaintext"
proof -
  obtain nonce rng1 where "newGCM key = Inr ()" and "ReadFull NonceSize rng = (Inr nonce, rng1)"
      and "sealed = nonce @ gcm_seal g key nonce plaintext"
    using assms(2) by (auto simp: encrypt_def split: sum.splits prod.splits)
  moreover from this(2) have "length nonce = NonceSize" by (simp add: ReadFull_ok)
  ultimately show ?thesis
    using assms(1) by (simp add: decrypt_def gcm_correct_def)
qed

lemma Open_Seal:
  assumes "gcm_correct g" and "Seal g masterKey value rng = (Inr (sealedValue, sealedDataKey), rng')"
  shows "Open g masterKey sealedValue sealedDataKey = Inr value"
proof -
  obtain dataKey rng1 rng2 where "encrypt g dataKey value rng1 = (Inr sealedValue, rng2)"
      and "encrypt g masterKey dataKey rng2 = (Inr sealedDataKey, rng')"
    using assms(2) by (auto simp: Seal_def split: sum.splits prod.splits)
  with decrypt_encrypt [OF assms(1)] show ?thesis by (simp add: Open_def)
qed

lemma Seal_succeeds:
  assumes "length masterKey = keyLength" and "keyLength + 2 * NonceSize \<le> length rng"
  shows "\<exists>sealed rng'. Seal g masterKey value rng = (Inr sealed, rng')"
  using assms by (simp add: Seal_def encrypt_def ReadFull_def newGCM_def keyLength_def NonceSize_def) linarith

section \<open>Properties\<close>

text \<open>
  A generated master key works. What \<open>GenerateMasterKey\<close> prints, put into the environment,
  starts a sealer with the 32 random bytes it drew; every value that sealer seals it opens again,
  and with enough random bytes left sealing does not fail. The AEAD is assumed to open what it
  sealed.
\<close>

theorem generated_key_seals_and_opens:
  assumes "gcm_correct g" and "GenerateMasterKey rng = (Inr encoded, rng')" and "Getenv MasterKeyEnvVar = encoded"
  shows "\<exists>masterKey. NewFromEnv Getenv = Inr masterKey \<and> masterKey = take 32 rng \<and> length masterKey = 32 \<and>
    (\<forall>value bytes. 56 \<le> length bytes \<longrightarrow>
       (\<exists>sealedValue sealedDataKey rest. Seal g masterKey value bytes = (Inr (sealedValue, sealedDataKey), rest) \<and>
          Open g masterKey sealedValue sealedDataKey = Inr value))"
proof -
  obtain key where key: "ReadFull keyLength rng = (Inr key, rng')" and enc: "encoded = StdEncoding_EncodeToString key"
    using assms(2) by (auto simp: GenerateMasterKey_def split: prod.splits sum.splits)
  have len: "length key = keyLength" "key = take keyLength rng" using ReadFull_ok [OF key] by blast+
  then have "key \<noteq> []" by (auto simp: keyLength_def)
  then have "encoded \<noteq> []" using enc decode_encode [of key] by (auto simp: StdEncoding_DecodeString_def)
  then have new: "NewFromEnv Getenv = Inr key"
    using assms(3) enc len by (simp add: NewFromEnv_def secretbox_New_def decode_encode Let_def)
  have "\<exists>v k rest. Seal g key plaintext bytes = (Inr (v, k), rest) \<and> Open g key v k = Inr plaintext"
    if "56 \<le> length bytes" for plaintext bytes
    using Seal_succeeds [OF len(1), of bytes g plaintext] that Open_Seal [OF assms(1)]
    by (fastforce simp: keyLength_def NonceSize_def)
  then show ?thesis using new len by (simp add: keyLength_def)
qed

definition plain_gcm :: gcm where
  "plain_gcm = \<lparr>gcm_seal = (\<lambda>_ _ v. v), gcm_open = (\<lambda>_ _ v. Some v)\<rparr>"

theorem generated_key_seals_and_opens_witness:
  "\<exists>encoded rng'. GenerateMasterKey (replicate 40 CHR 0x07) = (Inr encoded, rng') \<and>
     NewFromEnv (\<lambda>_. encoded) = Inr (replicate 32 CHR 0x07)"
proof -
  have g: "gcm_correct plain_gcm" by (simp add: gcm_correct_def plain_gcm_def)
  obtain encoded rng' where gen: "GenerateMasterKey (replicate 40 CHR 0x07) = (Inr encoded, rng')"
    by (simp add: GenerateMasterKey_def ReadFull_def keyLength_def)
  from generated_key_seals_and_opens [OF g gen, of "\<lambda>_. encoded"] gen show ?thesis by auto
qed

end
