(* ===== verification/Secret_Store.thy ===== *)
theory Secret_Store
  imports Run_Store Secretbox Fixtures "HOL-Library.List_Lexorder" "HOL-Library.Char_ord"
begin

text \<open>
  \<open>store/secrets.go\<close> and \<open>store/settings.go\<close>: credentials sealed at rest, and the user's
  settings with the Telegram channel they describe.
\<close>

section \<open>Credentials (store/secrets.go)\<close>

record Sealer =
  aead :: gcm
  masterKey :: string

record Secret =
  Secret_ID :: string
  Secret_Name :: string
  Secret_MaskedSuffix :: string
  Secret_CreatedAt :: time
  Secret_UpdatedAt :: time

definition scanSecret :: "secret_row \<Rightarrow> Secret" where
  "scanSecret c =
     \<lparr>Secret_ID = sec_id c, Secret_Name = sec_name c, Secret_MaskedSuffix = sec_masked_suffix c,
      Secret_CreatedAt = sec_created_at c, Secret_UpdatedAt = sec_updated_at c\<rparr>"

definition names_secret :: "string \<Rightarrow> string \<Rightarrow> secret_row \<Rightarrow> bool" where
  "names_secret userID name c \<longleftrightarrow> sec_user_id c = userID \<and> sec_name c = name"

text \<open>The INSERT with its \<open>ON CONFLICT (user_id, name) DO UPDATE\<close>.\<close>

definition upsert_secret ::
    "postgres \<Rightarrow> string \<Rightarrow> string \<Rightarrow> string \<Rightarrow> string \<Rightarrow> string \<Rightarrow> server \<Rightarrow> secret_row res \<times> server" where
  "upsert_secret pg userID name value dataKey masked s =
     (case filter (names_secret userID name) (secrets (tables s)) of
        c # _ \<Rightarrow>
          (let upd = (\<lambda>x. x\<lparr>sec_encrypted_value := value, sec_encrypted_data_key := dataKey,
                 sec_masked_suffix := masked, sec_updated_at := pg_now s\<rparr>) in
           (Inr (upd c),
            s\<lparr>tables := (tables s)\<lparr>secrets :=
              update_where (names_secret userID name) upd (secrets (tables s))\<rparr>\<rparr>))
      | [] \<Rightarrow>
          if userID \<notin> usr_id ` set (users (tables s)) then (Inl foreignKeyViolation, s)
          else
          (let row = \<lparr>sec_id = uuid_v4 pg (serial s), sec_user_id = userID, sec_name = name,
                 sec_encrypted_value = value, sec_encrypted_data_key = dataKey,
                 sec_masked_suffix = masked, sec_created_at = pg_now s, sec_updated_at = pg_now s\<rparr> in
           (Inr row,
            s\<lparr>serial := Suc (serial s),
              tables := (tables s)\<lparr>secrets := secrets (tables s) @ [row]\<rparr>\<rparr>)))"

definition SecretStore_Put ::
    "postgres \<Rightarrow> Sealer \<Rightarrow> string \<Rightarrow> string \<Rightarrow> string \<Rightarrow> string \<Rightarrow> server
      \<Rightarrow> Secret res \<times> string \<times> server" where
  "SecretStore_Put pg sealer userID name value rng s =
     (case Seal (aead sealer) (masterKey sealer) value rng of
        (Inl e, rng1) \<Rightarrow> (Inl e, rng1, s)
      | (Inr (sealedValue, sealedDataKey), rng1) \<Rightarrow>
          (case pool_call (upsert_secret pg userID name sealedValue sealedDataKey (Mask value)) s of
             (r, s1) \<Rightarrow> (map_sum id scanSecret (translate_res r), rng1, s1)))"

text \<open>\<open>ORDER BY name\<close>, in byte order.\<close>

definition SecretStore_List :: "string \<Rightarrow> server \<Rightarrow> Secret list res \<times> server" where
  "SecretStore_List userID s =
     (case pool_call (query (\<lambda>d. order_by sec_name
             (filter (\<lambda>c. sec_user_id c = userID) (secrets d)))) s of
        (Inl e, s1) \<Rightarrow> (Inl e, s1)
      | (Inr rows, s1) \<Rightarrow> (Inr (map scanSecret rows), s1))"

definition Reveal :: "Sealer \<Rightarrow> string \<Rightarrow> string \<Rightarrow> server \<Rightarrow> string res \<times> server" where
  "Reveal sealer userID name s =
     (case pool_call (query_row (\<lambda>d. filter (names_secret userID name) (secrets d))) s of
        (Inl e, s1) \<Rightarrow> (Inl (translateNoRows e), s1)
      | (Inr c, s1) \<Rightarrow>
          (Open (aead sealer) (masterKey sealer) (sec_encrypted_value c) (sec_encrypted_data_key c), s1))"

definition delete_secret_stmt :: "string \<Rightarrow> string \<Rightarrow> server \<Rightarrow> nat res \<times> server" where
  "delete_secret_stmt userID name s =
     (Inr (length (filter (names_secret userID name) (secrets (tables s)))),
      s\<lparr>tables := (tables s)\<lparr>secrets := delete_where (names_secret userID name) (secrets (tables s))\<rparr>\<rparr>)"

definition SecretStore_Delete :: "string \<Rightarrow> string \<Rightarrow> server \<Rightarrow> unit res \<times> server" where
  "SecretStore_Delete userID name s =
     (case pool_call (delete_secret_stmt userID name) s of
        (Inl e, s1) \<Rightarrow> (Inl e, s1)
      | (Inr affected, s1) \<Rightarrow> (if affected = 0 then (Inl ErrNotFound, s1) else (Inr (), s1)))"

section \<open>Settings (store/settings.go)\<close>

definition TelegramTokenSecret :: string where "TelegramTokenSecret = ''telegram_bot_token''"

record Settings =
  TelegramChatID :: string
  TelegramConfigured :: bool
  FailureAlertsEnabled :: bool
  CustomProviders :: "CustomProvider list"

text \<open>A settings store may have no secret store.\<close>

definition TelegramToken :: "Sealer option \<Rightarrow> string \<Rightarrow> server \<Rightarrow> string res \<times> server" where
  "TelegramToken sealer userID s =
     (case sealer of
        None \<Rightarrow> (Inr [], s)
      | Some sl \<Rightarrow>
          (case Reveal sl userID TelegramTokenSecret s of
             (Inl e, s1) \<Rightarrow> (if e = ErrNotFound then (Inr [], s1) else (Inl e, s1))
           | (Inr token, s1) \<Rightarrow> (Inr token, s1)))"

definition Settings_Get :: "Sealer option \<Rightarrow> string \<Rightarrow> server \<Rightarrow> Settings res \<times> server" where
  "Settings_Get sealer userID s =
     (case pool_call (query_row (\<lambda>d. filter (\<lambda>u. usr_id u = userID) (users d))) s of
        (Inl e, s1) \<Rightarrow> (Inl (translateNoRows e), s1)
      | (Inr u, s1) \<Rightarrow>
          (case TelegramToken sealer userID s1 of
             (Inl e, s2) \<Rightarrow> (Inl e, s2)
           | (Inr token, s2) \<Rightarrow>
               (Inr \<lparr>TelegramChatID = usr_telegram_chat_id u,
                     TelegramConfigured = (token \<noteq> [] \<and> usr_telegram_chat_id u \<noteq> []),
                     FailureAlertsEnabled = usr_failure_alerts_enabled u,
                     CustomProviders = usr_custom_providers u\<rparr>, s2)))"

definition Settings_Update ::
    "Sealer option \<Rightarrow> string \<Rightarrow> Settings \<Rightarrow> server \<Rightarrow> Settings res \<times> server" where
  "Settings_Update sealer userID settings s =
     (case pool_call (exec (\<lambda>d. d\<lparr>users := update_where (\<lambda>u. usr_id u = userID)
             (\<lambda>u. u\<lparr>usr_telegram_chat_id := TelegramChatID settings,
                    usr_failure_alerts_enabled := FailureAlertsEnabled settings,
                    usr_custom_providers := CustomProviders settings\<rparr>) (users d)\<rparr>)) s of
        (Inl e, s1) \<Rightarrow> (Inl (translateNoRows e), s1)
      | (Inr _, s1) \<Rightarrow> Settings_Get sealer userID s1)"

text \<open>The token and the chat, when both are there; None is \<open>ok = false\<close>.\<close>

definition TelegramDelivery ::
    "Sealer option \<Rightarrow> string \<Rightarrow> server \<Rightarrow> (string \<times> string) option \<times> server" where
  "TelegramDelivery sealer userID s =
     (case Settings_Get sealer userID s of
        (Inl e, s1) \<Rightarrow> (None, s1)
      | (Inr settings, s1) \<Rightarrow>
          (case TelegramToken sealer userID s1 of
             (Inl e, s2) \<Rightarrow> (None, s2)
           | (Inr token, s2) \<Rightarrow>
               if token = [] \<or> TelegramChatID settings = [] then (None, s2)
               else (Some (token, TelegramChatID settings), s2)))"

section \<open>Lemmas\<close>

lemma Open_not_ErrNotFound: "Open g key value dataKey \<noteq> Inl ErrNotFound"
  by (auto simp: Open_def split: sum.splits)

lemma translateNoRows_ErrNoRows [simp]: "translateNoRows ErrNoRows = ErrNotFound"
  by (simp add: translateNoRows_def)

text \<open>What the two stores read when the database answers.\<close>

definition stored_token :: "Sealer option \<Rightarrow> string \<Rightarrow> database \<Rightarrow> string res" where
  "stored_token sealer userID d =
     (case sealer of
        None \<Rightarrow> Inr []
      | Some sl \<Rightarrow>
          (case filter (names_secret userID TelegramTokenSecret) (secrets d) of
             [] \<Rightarrow> Inr []
           | c # _ \<Rightarrow> Open (aead sl) (masterKey sl) (sec_encrypted_value c) (sec_encrypted_data_key c)))"

definition channel :: "Sealer option \<Rightarrow> string \<Rightarrow> database \<Rightarrow> (string \<times> string) option" where
  "channel sealer userID d =
     (case (filter (\<lambda>u. usr_id u = userID) (users d), stored_token sealer userID d) of
        (u # _, Inr token) \<Rightarrow>
          if token = [] \<or> usr_telegram_chat_id u = [] then None else Some (token, usr_telegram_chat_id u)
      | _ \<Rightarrow> None)"

lemma TelegramToken_served:
  "outcomes s = [] \<Longrightarrow> TelegramToken sealer userID s = (stored_token sealer userID (tables s), s)"
  using Open_not_ErrNotFound
  by (auto simp: TelegramToken_def stored_token_def Reveal_def query_row_def first_row_def
      split: option.splits list.splits sum.splits)

lemma TelegramDelivery_served:
  "outcomes s = [] \<Longrightarrow> TelegramDelivery sealer userID s = (channel sealer userID (tables s), s)"
  by (auto simp: TelegramDelivery_def Settings_Get_def TelegramToken_served channel_def query_row_def
      first_row_def split: list.splits sum.splits)

lemma channel_tables: "users d' = users d \<Longrightarrow> secrets d' = secrets d \<Longrightarrow> channel sealer u d' = channel sealer u d"
  by (simp add: channel_def stored_token_def cong: option.case_cong)

interpretation upsert_stmt: statement "upsert_secret pg userID name v dataKey masked"
  for pg userID name v dataKey masked
  by unfold_locales (auto simp: upsert_secret_def Let_def split: list.splits if_splits)

lemma filter_names_update:
  assumes "\<And>c. sec_user_id (f c) = sec_user_id c" and "\<And>c. sec_name (f c) = sec_name c"
  shows "filter (names_secret u n) (update_where (names_secret u n) f cs) = map f (filter (names_secret u n) cs)"
  using assms by (induction cs) (auto simp: names_secret_def)

lemma filter_names_update_other:
  assumes "\<And>c. sec_user_id (f c) = sec_user_id c" and "\<And>c. sec_name (f c) = sec_name c" and "n' \<noteq> n"
  shows "filter (names_secret u' n') (update_where (names_secret u n) f cs) = filter (names_secret u' n') cs"
  using assms by (induction cs) (auto simp: names_secret_def)

lemma upsert_secret_stored:
  assumes "upsert_secret pg userID name value dataKey masked s = (Inr c, s')"
  shows "\<exists>cs. filter (names_secret userID name) (secrets (tables s')) = c # cs"
    and "sec_encrypted_value c = value \<and> sec_encrypted_data_key c = dataKey \<and> sec_masked_suffix c = masked"
    and "name' \<noteq> name \<Longrightarrow>
      filter (names_secret u name') (secrets (tables s')) = filter (names_secret u name') (secrets (tables s))"
  using assms
  by (auto simp: upsert_secret_def Let_def names_secret_def filter_names_update
      filter_names_update_other
      split: if_splits list.splits)

section \<open>Properties\<close>

text \<open>
  C31: a stored credential comes back. After a credential was put under a name, whether it was new
  or replaced an older one, revealing that name gives exactly the value that was put, the row
  carries only its mask, and the credentials under every other name are as they were. The
  AEAD is assumed to open what it sealed.
\<close>

theorem put_then_reveal:
  assumes "gcm_correct (aead sealer)"
    and "SecretStore_Put pg sealer userID name value rng s = (Inr secret, rng', s')"
    and "outcomes s' = []"
  shows "fst (Reveal sealer userID name s') = Inr value \<and> Secret_MaskedSuffix secret = Mask value \<and>
    (\<forall>u name'. name' \<noteq> name \<longrightarrow>
       filter (names_secret u name') (secrets (tables s')) = filter (names_secret u name') (secrets (tables s)))"
proof -
  obtain sv sk c where seal: "Seal (aead sealer) (masterKey sealer) value rng = (Inr (sv, sk), rng')"
      and ups: "pool_call (upsert_secret pg userID name sv sk (Mask value)) s = (Inr c, s')"
      and sec: "secret = scanSecret c"
    using assms(2)
    by (auto simp: SecretStore_Put_def translate_res_def split: sum.splits prod.splits)
  obtain s1 where run: "upsert_secret pg userID name sv sk (Mask value) s = (Inr c, s1)" and t: "tables s' = tables s1"
    using upsert_stmt.pool_ok [OF ups] by (metis prod.collapse)
  obtain cs where "filter (names_secret userID name) (secrets (tables s')) = c # cs"
    using upsert_secret_stored(1) [OF run] t by auto
  then have "fst (Reveal sealer userID name s') = Inr value"
    using Open_Seal [OF assms(1) seal] upsert_secret_stored(2) [OF run] assms(3)
    by (simp add: Reveal_def query_row_def first_row_def)
  then show ?thesis
    using upsert_secret_stored(2,3) [OF run] t by (simp add: sec scanSecret_def)
qed

text \<open>An AEAD that only prefixes the key and nonce: enough to run the code on.\<close>

definition demo_gcm :: gcm where
  "demo_gcm = \<lparr>gcm_seal = (\<lambda>key nonce p. key @ nonce @ p),
     gcm_open = (\<lambda>key nonce c. if prefix (key @ nonce) c then Some (drop (length (key @ nonce)) c) else None)\<rparr>"

definition demo_sealer :: Sealer where
  "demo_sealer = \<lparr>aead = demo_gcm, masterKey = replicate 32 CHR ''k''\<rparr>"

lemma demo_gcm_correct: "gcm_correct demo_gcm"
  by (simp add: gcm_correct_def demo_gcm_def)

theorem put_then_reveal_witness:
  "\<exists>secret rng' s'. SecretStore_Put demo_pg demo_sealer OwnerUserID ''openai'' ''sk-123456'' (replicate 56 CHR ''r'') demo_server
      = (Inr secret, rng', s') \<and> fst (Reveal demo_sealer OwnerUserID ''openai'' s') = Inr ''sk-123456''"
proof -
  let ?put = "SecretStore_Put demo_pg demo_sealer OwnerUserID ''openai'' ''sk-123456'' (replicate 56 CHR ''r'') demo_server"
  obtain secret where ok: "fst ?put = Inr secret"
  proof -
    have "\<not> is_err (fst ?put)" by code_simp
    then show ?thesis using that by (cases "fst ?put") auto
  qed
  have out: "outcomes (snd (snd ?put)) = []" by code_simp
  have put: "?put = (Inr secret, fst (snd ?put), snd (snd ?put))" using ok by (metis prod.collapse)
  have "gcm_correct (aead demo_sealer)" using demo_gcm_correct by (simp add: demo_sealer_def)
  from put_then_reveal [OF this put out] put show ?thesis by blast
qed

end
