(* ===== verification/Sessions.thy ===== *)
theory Sessions
  imports Secret_Store
begin

text \<open>
  \<open>store/sessions.go\<close>: the owner's password and the sessions a login issues. bcrypt is a
  parameter; the random source is the bytes it will hand out.
\<close>

section \<open>Definitions\<close>

text \<open>
  \<open>bcrypt.GenerateFromPassword\<close> draws a salt from the random source and may refuse a password;
  \<open>bcrypt.CompareHashAndPassword\<close> tells whether a hash was made from a password.
\<close>

record bcrypt =
  GenerateFromPassword :: "string \<Rightarrow> string \<Rightarrow> string res \<times> string"
  CompareHashAndPassword :: "string \<Rightarrow> string \<Rightarrow> bool"

text \<open>What bcrypt documents: a hash is not empty and matches the password it was made from.\<close>

definition bcrypt_correct :: "bcrypt \<Rightarrow> bool" where
  "bcrypt_correct b \<longleftrightarrow> (\<forall>password rng hash rng'.
     GenerateFromPassword b password rng = (Inr hash, rng') \<longrightarrow>
       hash \<noteq> [] \<and> CompareHashAndPassword b hash password)"

definition SessionLifetime :: duration where "SessionLifetime = 30 * 24 * Hour"

text \<open>\<open>SELECT password_hash FROM users WHERE id = $1\<close>, as every operation here begins.\<close>

definition select_hash :: "string \<Rightarrow> server \<Rightarrow> string res \<times> server" where
  "select_hash userID s =
     (case pool_call (query_row (\<lambda>d. map usr_password_hash (filter (\<lambda>u. usr_id u = userID) (users d)))) s of
        (r, s1) \<Rightarrow> (translate_res r, s1))"

definition set_hash :: "string \<Rightarrow> string \<Rightarrow> database \<Rightarrow> database" where
  "set_hash userID hash d =
     d\<lparr>users := update_where (\<lambda>u. usr_id u = userID) (\<lambda>u. u\<lparr>usr_password_hash := hash\<rparr>) (users d)\<rparr>"

definition EnsurePassword ::
    "bcrypt \<Rightarrow> string \<Rightarrow> string \<Rightarrow> string \<Rightarrow> server \<Rightarrow> unit res \<times> string \<times> server" where
  "EnsurePassword b userID password rng s =
     (case select_hash userID s of
        (Inl e, s1) \<Rightarrow> (Inl e, rng, s1)
      | (Inr existing, s1) \<Rightarrow>
          if existing \<noteq> [] then (Inr (), rng, s1)
          else (case GenerateFromPassword b password rng of
             (Inl e, rng1) \<Rightarrow> (Inl e, rng1, s1)
           | (Inr hash, rng1) \<Rightarrow>
               (case pool_call (exec (set_hash userID hash)) s1 of (r, s2) \<Rightarrow> (r, rng1, s2))))"

definition HasPassword :: "string \<Rightarrow> server \<Rightarrow> bool res \<times> server" where
  "HasPassword userID s =
     (case select_hash userID s of
        (Inl e, s1) \<Rightarrow> (Inl e, s1)
      | (Inr hash, s1) \<Rightarrow> (Inr (hash \<noteq> []), s1))"

definition CheckPassword :: "bcrypt \<Rightarrow> string \<Rightarrow> string \<Rightarrow> server \<Rightarrow> bool res \<times> server" where
  "CheckPassword b userID password s =
     (case select_hash userID s of
        (Inl e, s1) \<Rightarrow> (Inl e, s1)
      | (Inr hash, s1) \<Rightarrow>
          if hash = [] then (Inr False, s1) else (Inr (CompareHashAndPassword b hash password), s1))"

definition insert_session :: "string \<Rightarrow> string \<Rightarrow> time \<Rightarrow> server \<Rightarrow> unit res \<times> server" where
  "insert_session token userID expires s =
     (if token \<in> ses_id ` set (sessions (tables s)) then (Inl uniqueViolation, s)
      else if userID \<notin> usr_id ` set (users (tables s)) then (Inl foreignKeyViolation, s)
      else (Inr (),
        s\<lparr>tables := (tables s)\<lparr>sessions := sessions (tables s) @
          [\<lparr>ses_id = token, ses_user_id = userID, ses_expires_at = expires, ses_created_at = pg_now s\<rparr>]\<rparr>\<rparr>))"

definition CreateSession :: "string \<Rightarrow> time \<Rightarrow> string \<Rightarrow> server \<Rightarrow> string res \<times> string \<times> server" where
  "CreateSession userID now rng s =
     (case ReadFull 32 rng of
        (Inl e, rng1) \<Rightarrow> (Inl e, rng1, s)
      | (Inr raw, rng1) \<Rightarrow>
          (let token = RawURLEncoding_EncodeToString raw in
           case pool_call (insert_session token userID (now + SessionLifetime)) s of
             (Inl e, s1) \<Rightarrow> (Inl e, rng1, s1)
           | (Inr _, s1) \<Rightarrow> (Inr token, rng1, s1)))"

definition live_session :: "string \<Rightarrow> time \<Rightarrow> session_row \<Rightarrow> bool" where
  "live_session token now x \<longleftrightarrow> ses_id x = token \<and> ses_expires_at x > now"

definition UserForSession :: "string \<Rightarrow> time \<Rightarrow> server \<Rightarrow> string res \<times> server" where
  "UserForSession token now s =
     (case pool_call (query_row (\<lambda>d. map ses_user_id (filter (live_session token now) (sessions d)))) s of
        (r, s1) \<Rightarrow> (translate_res r, s1))"

definition DeleteSession :: "string \<Rightarrow> server \<Rightarrow> unit res \<times> server" where
  "DeleteSession token s =
     pool_call (exec (\<lambda>d. d\<lparr>sessions := delete_where (\<lambda>x. ses_id x = token) (sessions d)\<rparr>)) s"

section \<open>Lemmas\<close>

interpretation insert_session_stmt: statement "insert_session token userID expires" for token userID expires
  by unfold_locales (auto simp: insert_session_def split: if_splits)

lemma select_hash_tables [simp]: "tables (snd (select_hash userID s)) = tables s"
  by (simp add: select_hash_def split: prod.splits) (metis query_row_tables snd_conv)

lemma CheckPassword_tables [simp]: "tables (snd (CheckPassword b userID password s)) = tables s"
  using select_hash_tables [of userID s]
  by (auto simp: CheckPassword_def simp del: select_hash_tables split: prod.splits sum.splits)

lemma UserForSession_tables [simp]: "tables (snd (UserForSession token now s)) = tables s"
  by (simp add: UserForSession_def split: prod.splits) (metis query_row_tables snd_conv)

lemma UserForSession_served:
  "outcomes s = [] \<Longrightarrow> UserForSession token now s =
     (case filter (live_session token now) (sessions (tables s)) of [] \<Rightarrow> Inl ErrNotFound | x # _ \<Rightarrow> Inr (ses_user_id x), s)"
  by (auto simp: UserForSession_def query_row_def first_row_def translate_res_def split: list.splits)

text \<open>A session is only recognised while its row is there and has not expired.\<close>

lemma UserForSession_live:
  assumes "fst (UserForSession token now s) = Inr userID"
  shows "\<exists>x \<in> set (sessions (tables s)). live_session token now x \<and> ses_user_id x = userID"
proof -
  obtain s1 where "pool_call (query_row (\<lambda>d. map ses_user_id (filter (live_session token now) (sessions d)))) s = (Inr userID, s1)"
    using assms by (auto simp: UserForSession_def translate_res_def split: prod.splits sum.splits)
  from first_row_filter [OF query_row_ok [OF this]] show ?thesis by blast
qed

lemma CheckPassword_true:
  assumes "fst (CheckPassword b userID password s) = Inr True"
  shows "\<exists>u \<in> set (users (tables s)). usr_id u = userID \<and> usr_password_hash u \<noteq> [] \<and>
    CompareHashAndPassword b (usr_password_hash u) password"
proof -
  obtain hash s1 where "pool_call (query_row (\<lambda>d. map usr_password_hash (filter (\<lambda>u. usr_id u = userID) (users d)))) s
      = (Inr hash, s1)" and h: "hash \<noteq> []" "CompareHashAndPassword b hash password"
    using assms by (auto simp: CheckPassword_def select_hash_def translate_res_def split: prod.splits sum.splits if_splits)
  from first_row_filter [OF query_row_ok [OF this(1)]] h show ?thesis by blast
qed

lemma CreateSession_ok:
  assumes "CreateSession userID now rng s = (Inr token, rng', s')"
  shows "sessions (tables s') = sessions (tables s) @
      [\<lparr>ses_id = token, ses_user_id = userID, ses_expires_at = now + SessionLifetime, ses_created_at = pg_now s\<rparr>]"
    and "token \<notin> ses_id ` set (sessions (tables s))" and "token = RawURLEncoding_EncodeToString (take 32 rng)"
proof -
  from assms obtain raw where raw: "ReadFull 32 rng = (Inr raw, rng')" "token = RawURLEncoding_EncodeToString raw"
      and call: "pool_call (insert_session token userID (now + SessionLifetime)) s = (Inr (), s')"
    by (auto simp: CreateSession_def Let_def split: prod.splits sum.splits)
  show "sessions (tables s') = sessions (tables s) @
      [\<lparr>ses_id = token, ses_user_id = userID, ses_expires_at = now + SessionLifetime, ses_created_at = pg_now s\<rparr>]"
    "token \<notin> ses_id ` set (sessions (tables s))"
    using insert_session_stmt.pool_ok [OF call] by (auto simp: insert_session_def split: if_splits)
  show "token = RawURLEncoding_EncodeToString (take 32 rng)"
    using raw ReadFull_ok [OF raw(1)] by blast
qed

end
