(* ===== verification/Http.thy ===== *)
theory Http
  imports Taskd_Prelude
begin

text \<open>
  The outside world the tools, the model client and the notifier reach over HTTP: a parameter
  of the development. A request carries what the code put into it; the world answers it
  with a status, a body and a \<open>Location\<close> (empty when the header is not there) or with an
  error, and may remember it. A body may break off: after its bytes come the end of the stream
  or an error.
\<close>

text \<open>
  The body of a request: none, raw bytes, or the JSON object \<open>json.Marshal\<close> makes of a
  \<open>map[string]string\<close>, kept as its fields in key order.
\<close>

datatype http_body = NoBody | RawBody string | JsonFields "(string \<times> string) list"

record http_request =
  req_method :: string
  req_url :: string
  req_headers :: "(string \<times> string) list"
  req_body :: http_body

record http_response =
  resp_status :: int
  resp_body :: string
  resp_location :: string
  resp_broken :: "go_error option"

text \<open>\<open>io.ReadAll\<close> of a body, and of a body behind an \<open>io.LimitReader\<close>.\<close>

definition ReadAll :: "http_response \<Rightarrow> string res" where
  "ReadAll r = (case resp_broken r of None \<Rightarrow> Inr (resp_body r) | Some e \<Rightarrow> Inl e)"

definition ReadLimited :: "nat \<Rightarrow> http_response \<Rightarrow> string res" where
  "ReadLimited limit r = (if limit \<le> length (resp_body r) then Inr (take limit (resp_body r)) else ReadAll r)"

type_synonym 'h http = "http_request \<Rightarrow> 'h \<Rightarrow> http_response res \<times> 'h"

definition StatusOK :: int where "StatusOK = 200"

definition MethodGet :: string where "MethodGet = ''GET''"
definition MethodPost :: string where "MethodPost = ''POST''"

text \<open>The request both the notifier and the \<open>send_telegram\<close> tool make.\<close>

definition telegram_request :: "string \<Rightarrow> string \<Rightarrow> string \<Rightarrow> string \<Rightarrow> http_request" where
  "telegram_request baseURL token chatID message =
     \<lparr>req_method = MethodPost, req_url = baseURL @ ''/bot'' @ token @ ''/sendMessage'',
      req_headers = [(''Content-Type'', ''application/json'')],
      req_body = JsonFields [(''chat_id'', chatID), (''text'', message)]\<rparr>"

end
