(* ===== verification/Notifier.thy ===== *)
theory Notifier
  imports Secret_Store Http
begin

text \<open>
  \<open>pkg/notifier\<close>: reporting agents that have failed several times in a row, through the
  Telegram channel of their owner.
\<close>

section \<open>Definitions\<close>

definition FailureThreshold :: int where "FailureThreshold = 3"

record failingAgent =
  failing_id :: string
  failing_userID :: string
  failing_name :: string
  failing_failures :: int
  failing_lastErr :: string

text \<open>The correlated subquery: the error of the failed run that finished last, or empty.\<close>

definition last_error :: "database \<Rightarrow> string \<Rightarrow> string" where
  "last_error d agentID =
     (case order_by (\<lambda>r. desc_nulls_last (r_finished_at r))
             (filter (\<lambda>r. r_agent_id r = agentID \<and> r_status r = RunFailed) (runs d)) of
        [] \<Rightarrow> [] | r # _ \<Rightarrow> r_error r)"

definition is_reportable :: "database \<Rightarrow> agent_row \<Rightarrow> bool" where
  "is_reportable d a \<longleftrightarrow>
     (\<exists>u \<in> set (users d). usr_id u = ag_user_id a \<and> usr_failure_alerts_enabled u) \<and>
     ag_consecutive_failures a \<ge> FailureThreshold \<and> ag_failure_notified_at a = None"

definition failing_agent :: "database \<Rightarrow> agent_row \<Rightarrow> failingAgent" where
  "failing_agent d a =
     \<lparr>failing_id = ag_id a, failing_userID = ag_user_id a, failing_name = ag_name a,
      failing_failures = ag_consecutive_failures a, failing_lastErr = last_error d (ag_id a)\<rparr>"

definition failing_rows :: "database \<Rightarrow> failingAgent list" where
  "failing_rows d = map (failing_agent d) (filter (is_reportable d) (agents d))"

definition send ::
    "'h http \<Rightarrow> string \<Rightarrow> Sealer option \<Rightarrow> string \<Rightarrow> string \<Rightarrow> server \<Rightarrow> 'h \<Rightarrow> go_error option \<times> server \<times> 'h" where
  "send do_request baseURL sealer userID message s h =
     (case TelegramDelivery sealer userID s of
        (None, s1) \<Rightarrow> (Some (Errorf ''no notification channel is configured''), s1, h)
      | (Some (token, chatID), s1) \<Rightarrow>
          (case do_request (telegram_request baseURL token chatID message) h of
             (Inl e, h1) \<Rightarrow> (Some e, s1, h1)
           | (Inr response, h1) \<Rightarrow>
               if resp_status response \<noteq> StatusOK
               then (Some (Errorf (''telegram returned '' @ Itoa (resp_status response))), s1, h1)
               else (None, s1, h1)))"

definition alert_message :: "failingAgent \<Rightarrow> string" where
  "alert_message a =
     (let message = ''Taskd: '' @ Quote (failing_name a) @ '' has failed '' @ Itoa (failing_failures a)
            @ '' times in a row and is not producing results.''
      in if failing_lastErr a \<noteq> [] then message @ [newline, newline] @ ''Last error: '' @ failing_lastErr a
         else message)"

definition notified_row :: "time \<Rightarrow> agent_row \<Rightarrow> agent_row" where
  "notified_row now a = a\<lparr>ag_failure_notified_at := Some now\<rparr>"

definition notified_stmt :: "string \<Rightarrow> time \<Rightarrow> server \<Rightarrow> unit res \<times> server" where
  "notified_stmt i now = exec (\<lambda>d.
     d\<lparr>agents := update_where (\<lambda>a. ag_id a = i) (notified_row now) (agents d)\<rparr>)"

fun report_loop ::
    "'h http \<Rightarrow> string \<Rightarrow> Sealer option \<Rightarrow> time \<Rightarrow> failingAgent list \<Rightarrow> nat \<Rightarrow> server \<Rightarrow> 'h
      \<Rightarrow> nat \<times> go_error option \<times> server \<times> 'h" where
  "report_loop do_request baseURL sealer now [] reported s h = (reported, None, s, h)"
| "report_loop do_request baseURL sealer now (a # failing) reported s h =
     (case send do_request baseURL sealer (failing_userID a) (alert_message a) s h of
        (Some e, s1, h1) \<Rightarrow> report_loop do_request baseURL sealer now failing reported s1 h1
      | (None, s1, h1) \<Rightarrow>
          (case pool_call (notified_stmt (failing_id a) now) s1 of
             (Inl e, s2) \<Rightarrow> (reported, Some e, s2, h1)
           | (Inr _, s2) \<Rightarrow> report_loop do_request baseURL sealer now failing (Suc reported) s2 h1))"

text \<open>The count and the error, as Go returns both.\<close>

definition Notifier_RunOnce ::
    "'h http \<Rightarrow> string \<Rightarrow> Sealer option \<Rightarrow> time \<Rightarrow> server \<Rightarrow> 'h \<Rightarrow> nat \<times> go_error option \<times> server \<times> 'h" where
  "Notifier_RunOnce do_request baseURL sealer now s h =
     (case pool_call (query failing_rows) s of
        (Inl e, s1) \<Rightarrow> (0, Some e, s1, h)
      | (Inr failing, s1) \<Rightarrow> report_loop do_request baseURL sealer now failing 0 s1 h)"

text \<open>\<open>New\<close>: the address of the Telegram API without a trailing slash.\<close>

definition Notifier_New :: "string \<Rightarrow> string" where
  "Notifier_New telegramBaseURL =
     TrimSuffix (if telegramBaseURL = [] then ''https://api.telegram.org'' else telegramBaseURL) ''/''"

section \<open>Lemmas\<close>

interpretation notified_upd: row_update ag_id "notified_row now" for now
  by unfold_locales (simp add: notified_row_def)

interpretation notified_stmt: statement "notified_stmt i now" for i now
  unfolding notified_stmt_def by (rule statement_exec)

text \<open>The agents with the given identifiers marked as reported.\<close>

definition reported_db :: "time \<Rightarrow> string set \<Rightarrow> database \<Rightarrow> database" where
  "reported_db now ids d = d\<lparr>agents := update_where (\<lambda>a. ag_id a \<in> ids) (notified_row now) (agents d)\<rparr>"

lemma reported_db_empty [simp]: "reported_db now {} d = d"
  by (simp add: reported_db_def update_where_def)

lemma reported_db_twice: "reported_db now A (reported_db now B d) = reported_db now (B \<union> A) d"
  by (auto simp: reported_db_def update_where_def notified_upd.key_upd notified_row_def)

text \<open>Whether an alert gets through, when the endpoint's verdict depends on the request alone.\<close>

definition reachable ::
    "(http_request \<Rightarrow> http_response res) \<Rightarrow> string \<Rightarrow> Sealer option \<Rightarrow> database \<Rightarrow> failingAgent \<Rightarrow> bool" where
  "reachable verdict baseURL sealer d a \<longleftrightarrow>
     (case channel sealer (failing_userID a) d of
        None \<Rightarrow> False
      | Some (token, chatID) \<Rightarrow>
          (case verdict (telegram_request baseURL token chatID (alert_message a)) of
             Inl e \<Rightarrow> False | Inr response \<Rightarrow> resp_status response = StatusOK))"

lemma send_served:
  assumes "outcomes s = []" and "\<And>req h. fst (do_request req h) = verdict req"
  obtains e h' where "send do_request baseURL sealer (failing_userID a) (alert_message a) s h = (e, s, h')"
    and "(e = None) = reachable verdict baseURL sealer (tables s) a"
proof (cases "channel sealer (failing_userID a) (tables s)")
  case None
  then show thesis
    using that assms(1) by (simp add: send_def TelegramDelivery_served reachable_def)
next
  case (Some tc)
  obtain token chat where tc: "tc = (token, chat)" by (cases tc)
  let ?req = "telegram_request baseURL token chat (alert_message a)"
  obtain r h1 where r: "do_request ?req h = (r, h1)" by (cases "do_request ?req h")
  have v: "verdict ?req = r" using assms(2) [of ?req h] r by simp
  have "send do_request baseURL sealer (failing_userID a) (alert_message a) s h =
      (case r of Inl e \<Rightarrow> Some e | Inr response \<Rightarrow>
        if resp_status response \<noteq> StatusOK
        then Some (Errorf (''telegram returned '' @ Itoa (resp_status response))) else None, s, h1)"
    using assms(1) Some by (simp add: send_def TelegramDelivery_served tc r split: sum.split)
  then show thesis
    by (rule that) (simp add: Some reachable_def tc v split: sum.split)
qed

lemma channel_reported [simp]: "channel sealer u (reported_db now ids d) = channel sealer u d"
  by (rule channel_tables) (simp_all add: reported_db_def)

lemma reachable_reported [simp]:
  "reachable verdict baseURL sealer (reported_db now ids d) = reachable verdict baseURL sealer d"
  by (rule ext) (simp add: reachable_def)

lemma report_loop_served:
  assumes "outcomes s = []" and "\<And>req h. fst (do_request req h) = verdict req"
  shows "\<exists>s' h'. report_loop do_request baseURL sealer now failing n s h =
      (n + length (filter (reachable verdict baseURL sealer (tables s)) failing), None, s', h') \<and>
    outcomes s' = [] \<and>
    tables s' = reported_db now (failing_id ` set (filter (reachable verdict baseURL sealer (tables s)) failing)) (tables s)"
  using assms(1)
proof (induction failing arbitrary: n s h)
  case (Cons a failing)
  obtain e h1 where snd: "send do_request baseURL sealer (failing_userID a) (alert_message a) s h = (e, s, h1)"
      and e: "(e = None) = reachable verdict baseURL sealer (tables s) a"
    by (rule send_served [OF Cons.prems assms(2)])
  show ?case
  proof (cases e)
    case (Some err)
    then show ?thesis using Cons.IH [OF Cons.prems, of n h1] e by (simp add: snd)
  next
    case None
    let ?s = "s\<lparr>tables := reported_db now {failing_id a} (tables s)\<rparr>"
    have call: "pool_call (notified_stmt (failing_id a) now) s = (Inr (), ?s)"
      using Cons.prems by (simp add: notified_stmt_def exec_def reported_db_def)
    have "outcomes ?s = []" using Cons.prems by simp
    from Cons.IH [OF this, of "Suc n" h1] None e show ?thesis
      by (simp add: snd call reported_db_twice)
  qed
qed simp

lemma failing_id_agent [simp]: "failing_id (failing_agent d a) = ag_id a"
  by (simp add: failing_agent_def)

lemma still_failing:
  fixes d :: database and now :: time and ok :: "agent_row \<Rightarrow> bool"
  defines "d' \<equiv> d\<lparr>agents := map (\<lambda>a. if ok a then a\<lparr>ag_failure_notified_at := Some now\<rparr> else a) (agents d)\<rparr>"
  shows "map (failing_agent d') (filter (is_reportable d') (agents d')) =
    map (failing_agent d) (filter (\<lambda>a. is_reportable d a \<and> \<not> ok a) (agents d))"
proof -
  have same: "failing_agent d' = failing_agent d" "is_reportable d' = is_reportable d"
    by (simp_all add: d'_def failing_agent_def is_reportable_def last_error_def fun_eq_iff)
  have "filter (is_reportable d) (map (\<lambda>a. if ok a then a\<lparr>ag_failure_notified_at := Some now\<rparr> else a) as) =
      filter (\<lambda>a. is_reportable d a \<and> \<not> ok a) as" for "as"
    by (induction "as") (auto simp: is_reportable_def)
  then show ?thesis by (simp add: same) (simp add: d'_def)
qed

section \<open>Properties\<close>

text \<open>
  C33: one pass of the notifier. When the database answers and an endpoint's verdict depends on
  the request alone, the pass marks and counts exactly the agents with three or more failures
  in a row, alerts enabled and no alert yet, whose owner could be reached; an agent whose alert
  did not get through is left to the next pass, and one that was reported is not reported again.
\<close>

theorem notifier_marks_exactly_delivered:
  assumes "outcomes s = []" and "distinct (map ag_id (agents (tables s)))"
    and "\<And>req h. fst (do_request req h) = verdict req"
    and "Notifier_RunOnce do_request baseURL sealer now s h = (n, err, s', h')"
  shows "err = None \<and>
    n = length (filter (\<lambda>a. is_reportable (tables s) a \<and>
          reachable verdict baseURL sealer (tables s) (failing_agent (tables s) a)) (agents (tables s))) \<and>
    tables s' = (tables s)\<lparr>agents := map (\<lambda>a. if is_reportable (tables s) a \<and>
          reachable verdict baseURL sealer (tables s) (failing_agent (tables s) a)
        then a\<lparr>ag_failure_notified_at := Some now\<rparr> else a) (agents (tables s))\<rparr> \<and>
    failing_rows (tables s') =
      filter (\<lambda>f. \<not> reachable verdict baseURL sealer (tables s) f) (failing_rows (tables s))"
proof -
  let ?d = "tables s" and ?ok = "\<lambda>a. is_reportable (tables s) a \<and>
    reachable verdict baseURL sealer (tables s) (failing_agent (tables s) a)"
  have delivered: "filter (reachable verdict baseURL sealer ?d) (failing_rows ?d) =
      map (failing_agent ?d) (filter ?ok (agents ?d))"
    by (simp add: failing_rows_def filter_map comp_def conj_commute)
  from report_loop_served [where do_request = do_request and verdict = verdict and baseURL = baseURL and sealer = sealer
      and now = now and failing = "failing_rows ?d" and n = 0 and h = h, OF assms(1,3)] assms(1,4)
  have err: "err = None" and n: "n = length (filter ?ok (agents ?d))"
    and t: "tables s' = reported_db now (ag_id ` set (filter ?ok (agents ?d))) ?d"
    by (auto simp: Notifier_RunOnce_def query_def delivered image_image simp del: set_filter)
  have mem: "ag_id a \<in> ag_id ` set (filter ?ok (agents ?d)) \<longleftrightarrow> ?ok a" if "a \<in> set (agents ?d)" for a
    using that assms(2) by (auto simp: distinct_map dest: inj_onD)
  have t': "tables s' = ?d\<lparr>agents := map (\<lambda>a. if ?ok a then a\<lparr>ag_failure_notified_at := Some now\<rparr> else a) (agents ?d)\<rparr>"
    unfolding t reported_db_def update_where_def notified_row_def using mem by (auto intro: map_cong)
  have "failing_rows (tables s') = map (failing_agent ?d) (filter (\<lambda>a. is_reportable ?d a \<and> \<not> ?ok a) (agents ?d))"
    unfolding failing_rows_def t' by (rule still_failing)
  also have "\<dots> = filter (\<lambda>f. \<not> reachable verdict baseURL sealer ?d f) (failing_rows ?d)"
    by (auto simp: failing_rows_def filter_map comp_def intro!: arg_cong [of _ _ "map _"] filter_cong)
  finally show ?thesis using err n t' by simp
qed

definition broken_db :: database where
  "broken_db = demo_db\<lparr>agents := [(demo_agent ''a1'')\<lparr>ag_consecutive_failures := 3\<rparr>,
       (demo_agent ''a2'')\<lparr>ag_consecutive_failures := 2\<rparr>]\<rparr>"

definition token_secret :: secret_row where
  "token_secret = \<lparr>sec_id = ''c1'', sec_user_id = OwnerUserID, sec_name = TelegramTokenSecret,
     sec_encrypted_value = (case Seal demo_gcm (masterKey demo_sealer) ''tok'' (replicate 56 CHR ''r'') of
        (Inr (v, k), _) \<Rightarrow> v | _ \<Rightarrow> []),
     sec_encrypted_data_key = (case Seal demo_gcm (masterKey demo_sealer) ''tok'' (replicate 56 CHR ''r'') of
        (Inr (v, k), _) \<Rightarrow> k | _ \<Rightarrow> []),
     sec_masked_suffix = [], sec_created_at = 1, sec_updated_at = 1\<rparr>"

definition broken_server :: server where
  "broken_server = demo_server\<lparr>tables := broken_db\<lparr>secrets := [token_secret]\<rparr>\<rparr>"

definition always_ok :: "http_request list http" where
  "always_ok req h = (Inr \<lparr>resp_status = StatusOK, resp_body = [], resp_location = [], resp_broken = None\<rparr>, h @ [req])"

theorem notifier_marks_exactly_delivered_witness:
  "\<exists>s' h'. Notifier_RunOnce always_ok (Notifier_New []) (Some demo_sealer) 9 broken_server [] = (1, None, s', h') \<and>
     map ag_failure_notified_at (agents (tables s')) = [Some 9, None] \<and> failing_rows (tables s') = []"
proof -
  obtain n err s' h' where run: "Notifier_RunOnce always_ok (Notifier_New []) (Some demo_sealer) 9 broken_server [] = (n, err, s', h')"
    by (cases "Notifier_RunOnce always_ok (Notifier_New []) (Some demo_sealer) 9 broken_server []")
  have out: "outcomes broken_server = []" by (simp add: broken_server_def demo_server_def)
  have d: "distinct (map ag_id (agents (tables broken_server)))"
    by (simp add: broken_server_def broken_db_def demo_agent_def)
  have v: "\<And>req h. fst (always_ok req h) = Inr \<lparr>resp_status = StatusOK, resp_body = [], resp_location = [], resp_broken = None\<rparr>" by (simp add: always_ok_def)
  have c: "channel (Some demo_sealer) OwnerUserID (tables broken_server) = Some (''tok'', ''42'')" by code_simp
  from notifier_marks_exactly_delivered [OF out d v run] c run show ?thesis
    by (simp add: broken_server_def broken_db_def demo_agent_def demo_db_def demo_user_def is_reportable_def
        FailureThreshold_def reachable_def failing_rows_def failing_agent_def)
qed

end
