(* ===== verification/Agent_Store.thy ===== *)
theory Agent_Store
  imports Run_Store Fixtures "HOL-Library.List_Lexorder" "HOL-Library.Char_ord"
begin

text \<open>
  \<open>store/agents.go\<close>, \<open>store/schedules.go\<close> and \<open>store/overview.go\<close>: agents and what a delete
  of one takes with it, the schedule attached to an agent, and the rows of the home screen.
\<close>

section \<open>Agents (store/agents.go)\<close>

text \<open>
  The tool grants are a JSON array; a nil slice is stored as \<open>null\<close> and read back, like an
  empty array, as the empty slice.
\<close>

definition scanAgent :: "agent_row \<Rightarrow> Agent" where
  "scanAgent a =
     \<lparr>Agent_ID = ag_id a, Agent_Name = ag_name a, Agent_Description = ag_description a,
      Agent_Model = ag_model a, Agent_BaseURL = ag_base_url a,
      Agent_SystemPrompt = ag_system_prompt a, Agent_UserPrompt = ag_user_prompt a,
      Agent_Tools = Some (ag_tools a), Agent_MaxSteps = ag_max_steps a,
      Agent_MaxTokens = ag_max_tokens a, Agent_MaxDurationSeconds = ag_max_duration_seconds a,
      Agent_SecretName = ag_secret_name a, Agent_ContextMode = ag_context_mode a,
      Agent_ContextRuns = ag_context_runs a, Agent_Enabled = ag_enabled a,
      Agent_CreatedAt = ag_created_at a, Agent_UpdatedAt = ag_updated_at a\<rparr>"

text \<open>The columns both the INSERT and the UPDATE set from the struct.\<close>

definition set_agent_columns :: "Agent \<Rightarrow> agent_row \<Rightarrow> agent_row" where
  "set_agent_columns agent a =
     a\<lparr>ag_name := Agent_Name agent, ag_description := Agent_Description agent,
       ag_model := Agent_Model agent, ag_base_url := Agent_BaseURL agent,
       ag_system_prompt := Agent_SystemPrompt agent, ag_user_prompt := Agent_UserPrompt agent,
       ag_tools := tool_list (Agent_Tools agent), ag_max_steps := Agent_MaxSteps agent,
       ag_max_tokens := Agent_MaxTokens agent,
       ag_max_duration_seconds := Agent_MaxDurationSeconds agent,
       ag_context_mode := Agent_ContextMode agent, ag_context_runs := Agent_ContextRuns agent,
       ag_secret_name := Agent_SecretName agent, ag_enabled := Agent_Enabled agent\<rparr>"

text \<open>The defaults of the other columns; the user's row has to exist.\<close>

definition blank_agent_row :: "string \<Rightarrow> string \<Rightarrow> time \<Rightarrow> agent_row" where
  "blank_agent_row i userID now =
     \<lparr>ag_id = i, ag_user_id = userID, ag_name = [], ag_description = [], ag_model = [],
      ag_base_url = [], ag_system_prompt = [], ag_user_prompt = [], ag_tools = [],
      ag_max_steps = 20, ag_max_tokens = 100000, ag_max_duration_seconds = 600,
      ag_context_mode = ContextFresh, ag_context_runs = 0, ag_secret_name = DefaultSecretName,
      ag_enabled = True, ag_consecutive_failures = 0, ag_failure_notified_at = None,
      ag_created_at = now, ag_updated_at = now\<rparr>"

definition int4_columns :: "Agent \<Rightarrow> int list" where
  "int4_columns agent =
     [Agent_MaxSteps agent, Agent_MaxTokens agent, Agent_MaxDurationSeconds agent, Agent_ContextRuns agent]"

definition insert_agent :: "postgres \<Rightarrow> string \<Rightarrow> Agent \<Rightarrow> server \<Rightarrow> agent_row res \<times> server" where
  "insert_agent pg userID agent s =
     (if \<not> list_all fits_int4 (int4_columns agent) then (Inl outOfRange, s)
      else if userID \<notin> usr_id ` set (users (tables s)) then (Inl foreignKeyViolation, s)
      else
        let row = set_agent_columns agent (blank_agent_row (uuid_v4 pg (serial s)) userID (pg_now s))
        in (Inr row,
            s\<lparr>serial := Suc (serial s),
              tables := (tables s)\<lparr>agents := agents (tables s) @ [row]\<rparr>\<rparr>))"

definition AgentStore_Create :: "postgres \<Rightarrow> string \<Rightarrow> Agent \<Rightarrow> server \<Rightarrow> Agent res \<times> server" where
  "AgentStore_Create pg userID agent s =
     (case pool_call (insert_agent pg userID agent) s of
        (r, s') \<Rightarrow> (map_sum id scanAgent (translate_res r), s'))"

definition names_agent :: "string \<Rightarrow> string \<Rightarrow> agent_row \<Rightarrow> bool" where
  "names_agent userID u a \<longleftrightarrow> ag_id a = u \<and> ag_user_id a = userID"

definition AgentStore_Get :: "postgres \<Rightarrow> string \<Rightarrow> string \<Rightarrow> server \<Rightarrow> Agent res \<times> server" where
  "AgentStore_Get pg userID i s =
     (case pool_call (with_uuid pg i (\<lambda>u. query_row (\<lambda>d. filter (names_agent userID u) (agents d)))) s of
        (r, s') \<Rightarrow> (map_sum id scanAgent (translate_res r), s'))"

definition agent_rows :: "string \<Rightarrow> database \<Rightarrow> agent_row list" where
  "agent_rows userID d = order_by (\<lambda>a. - ag_created_at a) (filter (\<lambda>a. ag_user_id a = userID) (agents d))"

definition AgentStore_List :: "string \<Rightarrow> server \<Rightarrow> Agent list res \<times> server" where
  "AgentStore_List userID s =
     (case pool_call (query (agent_rows userID)) s of
        (Inl e, s') \<Rightarrow> (Inl e, s')
      | (Inr rows, s') \<Rightarrow> (Inr (map scanAgent rows), s'))"

record ModelEndpoint =
  Endpoint_Name :: string
  Endpoint_Model :: string
  Endpoint_BaseURL :: string
  Endpoint_SecretName :: string

text \<open>\<open>SELECT DISTINCT\<close>: each pair once; in which order is up to the server.\<close>

definition ListUniqueEndpoints :: "string \<Rightarrow> server \<Rightarrow> ModelEndpoint list res \<times> server" where
  "ListUniqueEndpoints userID s =
     (case pool_call (query (\<lambda>d. remdups (map (\<lambda>a. (ag_model a, ag_base_url a))
             (filter (\<lambda>a. ag_user_id a = userID) (agents d))))) s of
        (Inl e, s') \<Rightarrow> (Inl e, s')
      | (Inr rows, s') \<Rightarrow>
          (Inr (map (\<lambda>(m, b). \<lparr>Endpoint_Name = ''Custom: '' @ m, Endpoint_Model = m,
             Endpoint_BaseURL = b, Endpoint_SecretName = []\<rparr>) rows), s'))"

definition update_agent_row :: "Agent \<Rightarrow> time \<Rightarrow> agent_row \<Rightarrow> agent_row" where
  "update_agent_row agent now a = (set_agent_columns agent a)\<lparr>ag_updated_at := now\<rparr>"

definition update_agent_stmt ::
    "string \<Rightarrow> string \<Rightarrow> Agent \<Rightarrow> server \<Rightarrow> agent_row res \<times> server" where
  "update_agent_stmt userID u agent s =
     (if \<not> list_all fits_int4 (int4_columns agent) then (Inl outOfRange, s)
      else
        (first_row (map (update_agent_row agent (pg_now s))
           (filter (names_agent userID u) (agents (tables s)))),
         s\<lparr>tables := (tables s)\<lparr>agents :=
           update_where (names_agent userID u) (update_agent_row agent (pg_now s)) (agents (tables s))\<rparr>\<rparr>))"

definition AgentStore_Update ::
    "postgres \<Rightarrow> string \<Rightarrow> string \<Rightarrow> Agent \<Rightarrow> server \<Rightarrow> Agent res \<times> server" where
  "AgentStore_Update pg userID i agent s =
     (case pool_call (with_uuid pg i (\<lambda>u. update_agent_stmt userID u agent)) s of
        (r, s') \<Rightarrow> (map_sum id scanAgent (translate_res r), s'))"

text \<open>
  What the foreign keys do on a delete: the schedule, the runs and the memory of the agent go
  (\<open>ON DELETE CASCADE\<close>), with the runs their steps, and a run that refers to a deleted schedule
  keeps the row without the reference (\<open>ON DELETE SET NULL\<close>).
\<close>

definition forget_schedules :: "(schedule_row \<Rightarrow> bool) \<Rightarrow> database \<Rightarrow> database" where
  "forget_schedules p d =
     d\<lparr>schedules := delete_where p (schedules d),
       runs := update_where (\<lambda>r. \<exists>x \<in> set (schedules d). p x \<and> r_schedule_id r = Some (sch_id x))
         (\<lambda>r. r\<lparr>r_schedule_id := None\<rparr>) (runs d)\<rparr>"

definition cascade_runs :: "(run_row \<Rightarrow> bool) \<Rightarrow> database \<Rightarrow> database" where
  "cascade_runs p d =
     d\<lparr>runs := delete_where p (runs d),
       run_steps := delete_where (\<lambda>t. \<exists>r \<in> set (runs d). p r \<and> st_run_id t = r_id r) (run_steps d)\<rparr>"

definition cascade_agents :: "(agent_row \<Rightarrow> bool) \<Rightarrow> database \<Rightarrow> database" where
  "cascade_agents p d =
     (let gone = (\<lambda>i. \<exists>a \<in> set (agents d). p a \<and> ag_id a = i);
          d1 = cascade_runs (\<lambda>r. gone (r_agent_id r)) d;
          d2 = forget_schedules (\<lambda>x. gone (sch_agent_id x)) d1
      in d2\<lparr>agents := delete_where p (agents d2),
            memory_records := delete_where (\<lambda>m. gone (mem_agent_id m)) (memory_records d2)\<rparr>)"

definition delete_agent_stmt :: "string \<Rightarrow> string \<Rightarrow> server \<Rightarrow> nat res \<times> server" where
  "delete_agent_stmt userID u s =
     (Inr (length (filter (names_agent userID u) (agents (tables s)))),
      s\<lparr>tables := cascade_agents (names_agent userID u) (tables s)\<rparr>)"

definition affected_or_not_found :: "nat res \<Rightarrow> unit res" where
  "affected_or_not_found r =
     (case r of Inl e \<Rightarrow> Inl (translateNoRows e) | Inr n \<Rightarrow> if n = 0 then Inl ErrNotFound else Inr ())"

definition AgentStore_Delete :: "postgres \<Rightarrow> string \<Rightarrow> string \<Rightarrow> server \<Rightarrow> unit res \<times> server" where
  "AgentStore_Delete pg userID i s =
     (case pool_call (with_uuid pg i (delete_agent_stmt userID)) s of
        (r, s') \<Rightarrow> (affected_or_not_found r, s'))"

section \<open>Schedules (store/schedules.go)\<close>

definition scanSchedule :: "schedule_row \<Rightarrow> Schedule" where
  "scanSchedule x =
     \<lparr>Schedule_ID = sch_id x, Schedule_AgentID = sch_agent_id x,
      Schedule_CronExpression = sch_cron_expression x, Schedule_Timezone = sch_timezone x,
      Schedule_Enabled = sch_enabled x, Schedule_NextFireAt = sch_next_fire_at x,
      Schedule_LastFiredAt = sch_last_fired_at x, Schedule_CreatedAt = sch_created_at x,
      Schedule_UpdatedAt = sch_updated_at x\<rparr>"

definition set_schedule_columns :: "Schedule \<Rightarrow> time \<Rightarrow> string \<Rightarrow> schedule_row \<Rightarrow> schedule_row" where
  "set_schedule_columns schedule nextFireAt lastFiredWall x =
     x\<lparr>sch_cron_expression := Schedule_CronExpression schedule,
       sch_timezone := Schedule_Timezone schedule, sch_enabled := Schedule_Enabled schedule,
       sch_next_fire_at := Some nextFireAt, sch_last_fired_wall := lastFiredWall\<rparr>"

text \<open>The INSERT with its \<open>ON CONFLICT (agent_id) DO UPDATE\<close>.\<close>

definition upsert_schedule ::
    "postgres \<Rightarrow> string \<Rightarrow> string \<Rightarrow> Schedule \<Rightarrow> time \<Rightarrow> string \<Rightarrow> server \<Rightarrow> schedule_row res \<times> server" where
  "upsert_schedule pg userID u schedule nextFireAt lastFiredWall s =
     (case filter (\<lambda>x. sch_agent_id x = u) (schedules (tables s)) of
        x # _ \<Rightarrow>
          (let upd = (\<lambda>y. (set_schedule_columns schedule nextFireAt lastFiredWall y)\<lparr>sch_updated_at := pg_now s\<rparr>) in
           (Inr (upd x),
            s\<lparr>tables := (tables s)\<lparr>schedules :=
              update_where (\<lambda>y. sch_agent_id y = u) upd (schedules (tables s))\<rparr>\<rparr>))
      | [] \<Rightarrow>
          if u \<notin> ag_id ` set (agents (tables s)) \<or> userID \<notin> usr_id ` set (users (tables s))
          then (Inl foreignKeyViolation, s)
          else
          (let row = set_schedule_columns schedule nextFireAt lastFiredWall
                 \<lparr>sch_id = uuid_v4 pg (serial s), sch_user_id = userID, sch_agent_id = u,
                  sch_cron_expression = [], sch_timezone = [], sch_enabled = True,
                  sch_next_fire_at = None, sch_last_fired_at = None, sch_last_fired_wall = [],
                  sch_created_at = pg_now s, sch_updated_at = pg_now s\<rparr> in
           (Inr row,
            s\<lparr>serial := Suc (serial s),
              tables := (tables s)\<lparr>schedules := schedules (tables s) @ [row]\<rparr>\<rparr>)))"

definition ScheduleStore_Upsert ::
    "postgres \<Rightarrow> string \<Rightarrow> string \<Rightarrow> Schedule \<Rightarrow> time \<Rightarrow> string \<Rightarrow> server \<Rightarrow> Schedule res \<times> server" where
  "ScheduleStore_Upsert pg userID agentID schedule nextFireAt lastFiredWall s =
     (case pool_call (with_uuid pg agentID (\<lambda>u.
             upsert_schedule pg userID u schedule nextFireAt lastFiredWall)) s of
        (r, s') \<Rightarrow> (map_sum id scanSchedule (translate_res r), s'))"

definition names_schedule :: "string \<Rightarrow> string \<Rightarrow> schedule_row \<Rightarrow> bool" where
  "names_schedule userID u x \<longleftrightarrow> sch_agent_id x = u \<and> sch_user_id x = userID"

definition ScheduleStore_GetByAgent ::
    "postgres \<Rightarrow> string \<Rightarrow> string \<Rightarrow> server \<Rightarrow> Schedule res \<times> server" where
  "ScheduleStore_GetByAgent pg userID agentID s =
     (case pool_call (with_uuid pg agentID (\<lambda>u. query_row (\<lambda>d.
             filter (names_schedule userID u) (schedules d)))) s of
        (r, s') \<Rightarrow> (map_sum id scanSchedule (translate_res r), s'))"

definition delete_schedule_stmt :: "string \<Rightarrow> string \<Rightarrow> server \<Rightarrow> nat res \<times> server" where
  "delete_schedule_stmt userID u s =
     (Inr (length (filter (names_schedule userID u) (schedules (tables s)))),
      s\<lparr>tables := forget_schedules (names_schedule userID u) (tables s)\<rparr>)"

definition DeleteByAgent :: "postgres \<Rightarrow> string \<Rightarrow> string \<Rightarrow> server \<Rightarrow> unit res \<times> server" where
  "DeleteByAgent pg userID agentID s =
     (case pool_call (with_uuid pg agentID (delete_schedule_stmt userID)) s of
        (r, s') \<Rightarrow> (affected_or_not_found r, s'))"

section \<open>The home screen (store/overview.go)\<close>

record AgentOverview =
  Overview_Agent :: Agent
  Overview_Schedule :: "Schedule option"
  Overview_LastRun :: "Run option"

text \<open>A Go map filled by a loop: the last entry of a key stays.\<close>

definition by_agent :: "('r \<Rightarrow> string) \<Rightarrow> 'r list \<Rightarrow> string \<rightharpoonup> 'r" where
  "by_agent k rs = fold (\<lambda>r m. m(k r \<mapsto> r)) rs Map.empty"

definition schedulesByAgent :: "string \<Rightarrow> server \<Rightarrow> (string \<rightharpoonup> Schedule) res \<times> server" where
  "schedulesByAgent userID s =
     (case pool_call (query (\<lambda>d. filter (\<lambda>x. sch_user_id x = userID) (schedules d))) s of
        (Inl e, s') \<Rightarrow> (Inl e, s')
      | (Inr rows, s') \<Rightarrow> (Inr (by_agent Schedule_AgentID (map scanSchedule rows)), s'))"

text \<open>\<open>SELECT DISTINCT ON (k)\<close>: the first row of each group, in the order of the sort.\<close>

fun distinct_on :: "('r \<Rightarrow> 'k) \<Rightarrow> 'r list \<Rightarrow> 'r list" where
  "distinct_on k [] = []"
| "distinct_on k (r # rs) = r # distinct_on k (filter (\<lambda>x. k x \<noteq> k r) rs)"

definition last_run_rows :: "string \<Rightarrow> database \<Rightarrow> run_row list" where
  "last_run_rows userID d =
     distinct_on r_agent_id (order_by (\<lambda>r. (r_agent_id r, history_key r))
       (filter (\<lambda>r. r_user_id r = userID) (runs d)))"

definition lastRunByAgent :: "string \<Rightarrow> server \<Rightarrow> (string \<rightharpoonup> Run) res \<times> server" where
  "lastRunByAgent userID s =
     (case pool_call (query (last_run_rows userID)) s of
        (Inl e, s') \<Rightarrow> (Inl e, s')
      | (Inr rows, s') \<Rightarrow> (Inr (by_agent Run_AgentID (map scanRun rows)), s'))"

definition ListOverview :: "string \<Rightarrow> server \<Rightarrow> AgentOverview list res \<times> server" where
  "ListOverview userID s =
     (case AgentStore_List userID s of
        (Inl e, s1) \<Rightarrow> (Inl e, s1)
      | (Inr as, s1) \<Rightarrow>
          (case schedulesByAgent userID s1 of
             (Inl e, s2) \<Rightarrow> (Inl e, s2)
           | (Inr byAgent, s2) \<Rightarrow>
               (case lastRunByAgent userID s2 of
                  (Inl e, s3) \<Rightarrow> (Inl e, s3)
                | (Inr lastRuns, s3) \<Rightarrow>
                    (Inr (map (\<lambda>a. \<lparr>Overview_Agent = a, Overview_Schedule = byAgent (Agent_ID a),
                       Overview_LastRun = lastRuns (Agent_ID a)\<rparr>) as), s3))))"

section \<open>Lemmas\<close>

interpretation update_agent_upd: row_update ag_id "update_agent_row agent now" for agent now
  by unfold_locales (simp add: update_agent_row_def set_agent_columns_def)

interpretation insert_agent_stmt: statement "insert_agent pg userID agent" for pg userID agent
  by unfold_locales (auto simp: insert_agent_def Let_def split: if_splits)

interpretation delete_agent_stmt: statement "delete_agent_stmt userID u" for userID u
  by unfold_locales (auto simp: delete_agent_stmt_def)

interpretation upsert_schedule_stmt: statement "upsert_schedule pg userID u schedule nf wall"
  for pg userID u schedule nf wall
  by unfold_locales (auto simp: upsert_schedule_def Let_def split: list.splits if_splits)

subsection \<open>DISTINCT ON\<close>

lemma find_distinct_on: "find (\<lambda>r. k r = v) (distinct_on k rs) = find (\<lambda>r. k r = v) rs"
proof (induction k rs rule: distinct_on.induct)
  case (2 k r rs)
  have "find (\<lambda>x. k x = v) (filter (\<lambda>x. k x \<noteq> k r) rs) = find (\<lambda>x. k x = v) rs" if "k r \<noteq> v"
    using that by (induction rs) auto
  with 2 show ?case by auto
qed simp

lemma distinct_on_distinct: "distinct (map k (distinct_on k rs))"
proof (induction k rs rule: distinct_on.induct)
  case (2 k r rs)
  have "set (distinct_on k xs) \<subseteq> set xs" for xs
    by (induction k xs rule: distinct_on.induct) auto
  with 2 show ?case by fastforce
qed simp

lemma by_agent_find:
  assumes "distinct (map k rs)"
  shows "by_agent k rs i = find (\<lambda>r. k r = i) rs"
proof -
  have "fold (\<lambda>r m. m(k r \<mapsto> r)) rs m i = (case find (\<lambda>r. k r = i) rs of None \<Rightarrow> m i | Some r \<Rightarrow> Some r)" for m
    using assms
  proof (induction rs arbitrary: m)
    case (Cons r rs)
    have "find (\<lambda>x. k x = k r) rs = None" using Cons.prems by (auto simp: find_None_iff image_iff)
    then show ?case using Cons by (auto split: option.splits)
  qed simp
  then show ?thesis by (simp add: by_agent_def split: option.splits)
qed

lemma find_map: "find P (map f xs) = map_option f (find (\<lambda>x. P (f x)) xs)"
  by (induction xs) auto

lemma find_hd: "find P xs = (case filter P xs of [] \<Rightarrow> None | x # _ \<Rightarrow> Some x)"
  by (induction xs) auto

lemma insort_key_cong:
  "(\<And>y. y \<in> set ys \<Longrightarrow> (f x \<le> f y) = (g x \<le> g y)) \<Longrightarrow> insort_key f x ys = insort_key g x ys"
  by (induction ys) auto

lemma sort_key_same_order:
  "(\<And>x y. x \<in> set xs \<Longrightarrow> y \<in> set xs \<Longrightarrow> (f x \<le> f y) = (g x \<le> g y)) \<Longrightarrow> sort_key f xs = sort_key g xs"
  by (induction xs) (auto intro!: insort_key_cong)

lemma last_run_is_top:
  "find (\<lambda>r. r_agent_id r = i) (last_run_rows userID d) =
     (case order_by history_key (filter (\<lambda>r. r_agent_id r = i \<and> r_user_id r = userID) (runs d)) of
        [] \<Rightarrow> None | r # _ \<Rightarrow> Some r)"
proof -
  let ?rs = "filter (\<lambda>r. r_user_id r = userID) (runs d)"
  have "find (\<lambda>r. r_agent_id r = i) (last_run_rows userID d) =
      (case filter (\<lambda>r. r_agent_id r = i) (sort_key (\<lambda>r. (r_agent_id r, history_key r)) ?rs) of [] \<Rightarrow> None | r # _ \<Rightarrow> Some r)"
    unfolding last_run_rows_def order_by_def find_distinct_on by (rule find_hd)
  also have "filter (\<lambda>r. r_agent_id r = i) (sort_key (\<lambda>r. (r_agent_id r, history_key r)) ?rs) =
      sort_key (\<lambda>r. (r_agent_id r, history_key r)) (filter (\<lambda>r. r_agent_id r = i) ?rs)"
    by (rule filter_sort)
  also have "\<dots> = sort_key history_key (filter (\<lambda>r. r_agent_id r = i) ?rs)"
    by (rule sort_key_same_order) auto
  finally show ?thesis by (simp add: order_by_def conj_commute)
qed

subsection \<open>Cascading deletes\<close>

lemma cascade_agents_fields:
  "agents (cascade_agents p d) = delete_where p (agents d)"
  "schedules (cascade_agents p d) = delete_where (\<lambda>x. \<exists>a \<in> set (agents d). p a \<and> ag_id a = sch_agent_id x) (schedules d)"
  "memory_records (cascade_agents p d) =
     delete_where (\<lambda>m. \<exists>a \<in> set (agents d). p a \<and> ag_id a = mem_agent_id m) (memory_records d)"
  "map r_agent_id (runs (cascade_agents p d)) =
     map r_agent_id (delete_where (\<lambda>r. \<exists>a \<in> set (agents d). p a \<and> ag_id a = r_agent_id r) (runs d))"
  "map r_id (runs (cascade_agents p d)) =
     map r_id (delete_where (\<lambda>r. \<exists>a \<in> set (agents d). p a \<and> ag_id a = r_agent_id r) (runs d))"
  "map r_status (runs (cascade_agents p d)) =
     map r_status (delete_where (\<lambda>r. \<exists>a \<in> set (agents d). p a \<and> ag_id a = r_agent_id r) (runs d))"
  "run_steps (cascade_agents p d) = delete_where (\<lambda>t. \<exists>r \<in> set (runs d).
     (\<exists>a \<in> set (agents d). p a \<and> ag_id a = r_agent_id r) \<and> st_run_id t = r_id r) (run_steps d)"
  "users (cascade_agents p d) = users d" "secrets (cascade_agents p d) = secrets d"
  "sessions (cascade_agents p d) = sessions d"
  by (simp_all add: cascade_agents_def forget_schedules_def cascade_runs_def Let_def map_update_where)

lemma delete_keeps_references:
  assumes "set (map k xs) \<subseteq> set (map f rs)"
  shows "set (map k (delete_where (\<lambda>x. \<exists>r \<in> set rs. p r \<and> f r = k x) xs)) \<subseteq> set (map f (delete_where p rs))"
proof
  fix v assume "v \<in> set (map k (delete_where (\<lambda>x. \<exists>r \<in> set rs. p r \<and> f r = k x) xs))"
  then obtain x where x: "x \<in> set xs" "v = k x" and kept: "\<forall>r \<in> set rs. p r \<longrightarrow> f r \<noteq> k x" by auto
  with assms obtain r where "r \<in> set rs" "k x = f r" by auto
  with kept x(2) show "v \<in> set (map f (delete_where p rs))" by auto
qed

lemma cascade_runs_wf:
  assumes "db_wf d" shows "db_wf (cascade_runs p d)"
proof -
  note wf = assms [unfolded db_wf_defs]
  have "set (map st_run_id (delete_where (\<lambda>t. \<exists>r \<in> set (runs d). p r \<and> st_run_id t = r_id r) (run_steps d)))
      \<subseteq> set (map r_id (delete_where p (runs d)))"
    using delete_keeps_references [of st_run_id "run_steps d" r_id "runs d" p] wf by (simp add: eq_commute)
  with wf show ?thesis
    by (simp add: db_wf_defs cascade_runs_def distinct_map_delete_where image_part_subset)
qed

lemma forget_schedules_wf:
  assumes "db_wf d" shows "db_wf (forget_schedules p d)"
proof -
  note wf = assms [unfolded db_wf_defs]
  let ?runs = "runs (forget_schedules p d)"
  let ?q = "\<lambda>r. \<exists>x \<in> set (schedules d). p x \<and> r_schedule_id r = Some (sch_id x)"
  have cols: "map f ?runs = map f (runs d)" if "\<And>r. f (r\<lparr>r_schedule_id := None\<rparr>) = f r" for f
    using that by (simp add: forget_schedules_def map_update_where)
  have "set (map r_schedule_id ?runs) \<subseteq> insert None (set (map (\<lambda>x. Some (sch_id x)) (delete_where p (schedules d))))"
  proof
    fix v assume "v \<in> set (map r_schedule_id ?runs)"
    then obtain x where x: "x \<in> set (update_where ?q (\<lambda>r. r\<lparr>r_schedule_id := None\<rparr>) (runs d))" "v = r_schedule_id x"
      by (auto simp: forget_schedules_def)
    then obtain r where r: "r \<in> set (runs d)" "x = (if ?q r then r\<lparr>r_schedule_id := None\<rparr> else r)"
      using update_whereE [OF x(1)] by blast
    have "set (map r_schedule_id (runs d)) \<subseteq> insert None (set (map (\<lambda>x. Some (sch_id x)) (schedules d)))"
      using wf by simp
    then have "r_schedule_id r \<in> insert None (set (map (\<lambda>x. Some (sch_id x)) (schedules d)))"
      using r(1) by auto
    with x(2) r(2) show "v \<in> insert None (set (map (\<lambda>x. Some (sch_id x)) (delete_where p (schedules d))))"
      by (auto split: if_splits)
  qed
  with wf show ?thesis
    by (simp add: db_wf_defs cols) (simp add: forget_schedules_def distinct_map_delete_where image_part_subset)
qed

text \<open>Once nothing refers to them, the agents themselves go.\<close>

lemma delete_agents_wf:
  assumes "db_wf d" and "\<And>x. x \<in> set (schedules d) \<Longrightarrow> sch_agent_id x \<notin> ag_id ` {a \<in> set (agents d). p a}"
    and "\<And>r. r \<in> set (runs d) \<Longrightarrow> r_agent_id r \<notin> ag_id ` {a \<in> set (agents d). p a}"
  shows "db_wf (d\<lparr>agents := delete_where p (agents d),
    memory_records := delete_where (\<lambda>m. \<exists>a \<in> set (agents d). p a \<and> ag_id a = mem_agent_id m) (memory_records d)\<rparr>)"
proof -
  note wf = assms(1) [unfolded db_wf_defs]
  have stay: "set (map f xs) \<subseteq> set (map ag_id (delete_where p (agents d)))"
    if "set (map f xs) \<subseteq> set (map ag_id (agents d))" "\<And>x. x \<in> set xs \<Longrightarrow> f x \<notin> ag_id ` {a \<in> set (agents d). p a}"
    for f :: "'b \<Rightarrow> string" and xs
  proof
    fix v assume "v \<in> set (map f xs)"
    then obtain x where x: "x \<in> set xs" "v = f x" by auto
    with that(1) obtain a where "a \<in> set (agents d)" "f x = ag_id a" by auto
    with that(2) [OF x(1)] x(2) show "v \<in> set (map ag_id (delete_where p (agents d)))" by auto
  qed
  have "set (map sch_agent_id (schedules d)) \<subseteq> set (map ag_id (delete_where p (agents d)))"
      "set (map r_agent_id (runs d)) \<subseteq> set (map ag_id (delete_where p (agents d)))"
    using wf by (intro stay assms(2); simp) (use wf in \<open>intro stay assms(3); simp\<close>)
  moreover have "set (map mem_agent_id (delete_where (\<lambda>m. \<exists>a \<in> set (agents d). p a \<and> ag_id a = mem_agent_id m) (memory_records d)))
      \<subseteq> set (map ag_id (delete_where p (agents d)))"
    using delete_keeps_references [of mem_agent_id "memory_records d" ag_id "agents d" p] wf by simp
  ultimately show ?thesis
    using wf by (simp add: db_wf_defs distinct_map_delete_where image_part_subset)
qed

lemma cascade_agents_wf:
  assumes "db_wf d" shows "db_wf (cascade_agents p d)"
proof -
  let ?gone = "\<lambda>i. \<exists>a \<in> set (agents d). p a \<and> ag_id a = i"
  let ?d = "forget_schedules (\<lambda>x. ?gone (sch_agent_id x)) (cascade_runs (\<lambda>r. ?gone (r_agent_id r)) d)"
  have "db_wf ?d" by (intro forget_schedules_wf cascade_runs_wf assms)
  then have "db_wf (?d\<lparr>agents := delete_where p (agents ?d),
      memory_records := delete_where (\<lambda>m. \<exists>a \<in> set (agents ?d). p a \<and> ag_id a = mem_agent_id m) (memory_records ?d)\<rparr>)"
    by (rule delete_agents_wf) (auto simp: forget_schedules_def cascade_runs_def set_update_where)
  then show ?thesis by (simp add: cascade_agents_def Let_def forget_schedules_def cascade_runs_def)
qed

section \<open>Properties\<close>

text \<open>
  C32: the home screen and the run history agree. Whatever runs there are, the last run the
  overview shows for an agent is the run at the top of that agent's history, and an agent shows
  none exactly when its history is empty.
\<close>

theorem overview_shows_top_of_history:
  assumes "outcomes s = []" and "fst (ListOverview userID s) = Inr overviews" and "ov \<in> set overviews"
    and "uuid_in pg (Agent_ID (Overview_Agent ov)) = Some (Agent_ID (Overview_Agent ov))" and "0 < limit"
  shows "\<exists>history. fst (RunStore_ListByAgent pg userID (Agent_ID (Overview_Agent ov)) limit s) = Inr history \<and>
    Overview_LastRun ov = (case history of [] \<Rightarrow> None | run # _ \<Rightarrow> Some run)"
proof -
  let ?i = "Agent_ID (Overview_Agent ov)" and ?rows = "last_run_rows userID (tables s)"
  let ?top = "order_by history_key (filter (\<lambda>r. r_agent_id r = ?i \<and> r_user_id r = userID) (runs (tables s)))"
  have "distinct (map r_agent_id ?rows)" by (simp add: last_run_rows_def distinct_on_distinct)
  then have d: "distinct (map Run_AgentID (map scanRun ?rows))" by (simp add: scanRun_def comp_def)
  have "Overview_LastRun ov = by_agent Run_AgentID (map scanRun ?rows) ?i"
    using assms(1-3)
    by (auto simp: ListOverview_def AgentStore_List_def schedulesByAgent_def lastRunByAgent_def query_def)
  also have "\<dots> = map_option scanRun (find (\<lambda>r. r_agent_id r = ?i) ?rows)"
    unfolding by_agent_find [OF d] find_map by (simp add: scanRun_def)
  also have "\<dots> = (case ?top of [] \<Rightarrow> None | r # _ \<Rightarrow> Some (scanRun r))"
    unfolding last_run_is_top by (simp split: list.split)
  finally have last: "Overview_LastRun ov = (case ?top of [] \<Rightarrow> None | r # _ \<Rightarrow> Some (scanRun r))" .
  have "fst (RunStore_ListByAgent pg userID ?i limit s) = Inr (map scanRun (take limit ?top))"
    using assms(1,4) by (simp add: RunStore_ListByAgent_def with_uuid_def query_def)
  then show ?thesis
    using last assms(5) by (cases ?top; cases limit) auto
qed

theorem overview_shows_top_of_history_witness:
  "\<exists>ov. fst (ListOverview OwnerUserID demo_server) = Inr [ov] \<and>
     map_option Run_ID (Overview_LastRun ov) = Some ''r1''"
proof -
  obtain ov where ov: "fst (ListOverview OwnerUserID demo_server) = Inr [ov]"
    and i: "Agent_ID (Overview_Agent ov) = ''a1''"
    by (simp add: ListOverview_def AgentStore_List_def schedulesByAgent_def lastRunByAgent_def query_def
        agent_rows_def order_by_def demo_server_def demo_db_def demo_agent_def scanAgent_def)
  have "uuid_in demo_pg ''a1'' = Some ''a1''" by (simp add: demo_pg_def)
  with overview_shows_top_of_history [OF _ ov, of ov demo_pg 5] i
  obtain history where h: "fst (RunStore_ListByAgent demo_pg OwnerUserID ''a1'' 5 demo_server) = Inr history"
      and l: "Overview_LastRun ov = (case history of [] \<Rightarrow> None | run # _ \<Rightarrow> Some run)"
    by (auto simp: demo_server_def)
  have "map_sum id (map Run_ID) (fst (RunStore_ListByAgent demo_pg OwnerUserID ''a1'' 5 demo_server)) = Inr [''r1'']"
    by code_simp
  with h l have "map_option Run_ID (Overview_LastRun ov) = Some ''r1''" by auto
  with ov show ?thesis by blast
qed

text \<open>
  C28: deleting an agent. When the delete is answered with success, the agent and everything that
  belongs to it (its schedule, its runs with their steps, its memory) are gone, no row is left
  that refers to a row that is not there, and all other rows are as before, in their order:
  the other agents, their schedules, their memory, their runs and the steps of those, and the
  users, secrets and sessions; the one change is that a remaining run made for a schedule that is gone loses its
  reference to it.
\<close>

theorem delete_agent_leaves_no_orphans:
  assumes "db_wf (tables s)" and "uuid_in pg i = Some u"
    and "AgentStore_Delete pg userID i s = (Inr (), s')"
  shows "db_wf (tables s') \<and>
    u \<notin> ag_id ` set (agents (tables s')) \<and> u \<notin> sch_agent_id ` set (schedules (tables s')) \<and>
    u \<notin> r_agent_id ` set (runs (tables s')) \<and> u \<notin> mem_agent_id ` set (memory_records (tables s')) \<and>
    agents (tables s') = filter (\<lambda>a. ag_id a \<noteq> u) (agents (tables s)) \<and>
    schedules (tables s') = filter (\<lambda>x. sch_agent_id x \<noteq> u) (schedules (tables s)) \<and>
    memory_records (tables s') = filter (\<lambda>m. mem_agent_id m \<noteq> u) (memory_records (tables s)) \<and>
    runs (tables s') =
      map (\<lambda>r. if \<exists>x \<in> set (schedules (tables s)). sch_agent_id x = u \<and> r_schedule_id r = Some (sch_id x)
               then r\<lparr>r_schedule_id := None\<rparr> else r)
        (filter (\<lambda>r. r_agent_id r \<noteq> u) (runs (tables s))) \<and>
    run_steps (tables s') =
      filter (\<lambda>t. \<forall>r \<in> set (runs (tables s)). st_run_id t = r_id r \<longrightarrow> r_agent_id r \<noteq> u) (run_steps (tables s)) \<and>
    users (tables s') = users (tables s) \<and> secrets (tables s') = secrets (tables s) \<and>
    sessions (tables s') = sessions (tables s)"
proof -
  let ?d = "tables s" and ?p = "names_agent userID u"
  obtain n where n: "pool_call (with_uuid pg i (delete_agent_stmt userID)) s = (Inr n, s')" and "n \<noteq> 0"
    using assms(3) by (auto simp: AgentStore_Delete_def affected_or_not_found_def split: prod.splits sum.splits if_splits)
  have ok: "fst (delete_agent_stmt userID u s) = Inr n \<and> tables s' = tables (snd (delete_agent_stmt userID u s))"
    using statement.pool_ok [OF statement_with_uuid [OF delete_agent_stmt.statement_axioms] n] assms(2)
    by (simp add: with_uuid_def)
  then obtain a where a: "a \<in> set (agents ?d)" "?p a"
    using \<open>n \<noteq> 0\<close> by (auto simp: delete_agent_stmt_def filter_empty_conv)
  have d: "distinct (map ag_id (agents ?d))" using assms(1) by (simp add: db_wf_defs)
  have t: "tables s' = cascade_agents ?p ?d" using ok by (simp add: delete_agent_stmt_def)
  have p: "?p x = (ag_id x = u)" if "x \<in> set (agents ?d)" for x
    using that a d by (auto simp: names_agent_def distinct_map dest: inj_onD)
  have gone: "(\<exists>x \<in> set (agents ?d). ?p x \<and> ag_id x = j) = (j = u)" for j
    using a p by (auto simp: names_agent_def)
  note fields = cascade_agents_fields [of ?p ?d, unfolded gone]
  have ag: "agents (tables s') = filter (\<lambda>a. ag_id a \<noteq> u) (agents ?d)"
    unfolding t fields delete_where_def using p by (auto intro: filter_cong)
  have rs: "runs (tables s') =
      map (\<lambda>r. if \<exists>x \<in> set (schedules ?d). sch_agent_id x = u \<and> r_schedule_id r = Some (sch_id x)
               then r\<lparr>r_schedule_id := None\<rparr> else r) (filter (\<lambda>r. r_agent_id r \<noteq> u) (runs ?d))"
    by (simp add: t cascade_agents_def forget_schedules_def cascade_runs_def gone Let_def update_where_def delete_where_def)
  have st: "run_steps (tables s') =
      filter (\<lambda>t. \<forall>r \<in> set (runs ?d). st_run_id t = r_id r \<longrightarrow> r_agent_id r \<noteq> u) (run_steps ?d)"
    unfolding t fields delete_where_def by (auto intro: filter_cong)
  have wf: "db_wf (tables s')" unfolding t by (rule cascade_agents_wf [OF assms(1)])
  have other: "schedules (tables s') = filter (\<lambda>x. sch_agent_id x \<noteq> u) (schedules ?d)"
      "memory_records (tables s') = filter (\<lambda>m. mem_agent_id m \<noteq> u) (memory_records ?d)"
      "users (tables s') = users ?d" "secrets (tables s') = secrets ?d" "sessions (tables s') = sessions ?d"
    unfolding t fields by (simp_all add: delete_where_def)
  have "u \<notin> r_agent_id ` set (runs (tables s'))" unfolding rs by auto
  with wf ag rs st other show ?thesis by auto
qed

text \<open>Two agents with a run each, and a step in each run.\<close>

definition demo_step :: "string \<Rightarrow> string \<Rightarrow> step_row" where
  "demo_step i run =
     \<lparr>st_id = i, st_run_id = run, st_step_index = 0, st_kind = StepModelCall, st_content = [], st_tool_name = [],
      st_arguments = [], st_result = [], st_error = [], st_prompt_tokens = 0, st_completion_tokens = 0, st_created_at = 1\<rparr>"

definition two_agents :: server where
  "two_agents = demo_server\<lparr>tables := demo_db\<lparr>agents := [demo_agent ''a1'', demo_agent ''a2''],
     runs := [demo_run ''r1'' ''a1'' RunPending 5, demo_run ''r2'' ''a2'' RunRunning 6],
     run_steps := [demo_step ''t1'' ''r1'', demo_step ''t2'' ''r2'']\<rparr>\<rparr>"

lemma two_agents_wf: "db_wf (tables two_agents)"
  by (simp add: two_agents_def db_wf_defs demo_defs demo_step_def new_run_row_def run_statuses_def)

lemma two_agents_delete_answered: "fst (AgentStore_Delete demo_pg OwnerUserID ''a1'' two_agents) = Inr ()"
  by (simp add: AgentStore_Delete_def with_uuid_def demo_pg_def delete_agent_stmt_def affected_or_not_found_def
      two_agents_def demo_server_def demo_agent_def names_agent_def)

theorem delete_agent_leaves_no_orphans_witness:
  "\<exists>s'. AgentStore_Delete demo_pg OwnerUserID ''a1'' two_agents = (Inr (), s') \<and>
     db_wf (tables s') \<and> agents (tables s') = [demo_agent ''a2''] \<and> schedules (tables s') = [] \<and>
     runs (tables s') = [demo_run ''r2'' ''a2'' RunRunning 6] \<and> run_steps (tables s') = [demo_step ''t2'' ''r2'']"
proof -
  obtain s' where run: "AgentStore_Delete demo_pg OwnerUserID ''a1'' two_agents = (Inr (), s')"
    using two_agents_delete_answered by (metis prod.collapse)
  have u: "uuid_in demo_pg ''a1'' = Some ''a1''" by (simp add: demo_pg_def)
  from delete_agent_leaves_no_orphans [OF two_agents_wf u run] run show ?thesis
    by (simp add: two_agents_def demo_server_def demo_db_def demo_agent_def demo_schedule_def demo_step_def demo_run_def
        new_run_row_def)
qed

text \<open>
  C39: an agent reads back as it was stored. A create that is answered returns the agent with its
  new identifier and timestamps and every other field as given (a nil list of tools as the empty
  one); and getting that identifier, when the database serves the call, returns the same agent, provided the
  identifier Postgres generated is read back as itself and was not in use.
\<close>

theorem created_agent_reads_back:
  assumes "AgentStore_Create pg userID agent s = (Inr created, s')" and "outcomes s' = []"
    and "uuid_in pg (Agent_ID created) = Some (Agent_ID created)"
    and "Agent_ID created \<notin> ag_id ` set (agents (tables s))"
  shows "created = agent\<lparr>Agent_ID := Agent_ID created, Agent_Tools := Some (tool_list (Agent_Tools agent)),
      Agent_CreatedAt := pg_now s, Agent_UpdatedAt := pg_now s\<rparr> \<and>
    fst (AgentStore_Get pg userID (Agent_ID created) s') = Inr created"
proof -
  obtain row where call: "pool_call (insert_agent pg userID agent) s = (Inr row, s')" and c: "created = scanAgent row"
    using assms(1) by (auto simp: AgentStore_Create_def translate_res_def split: prod.splits sum.splits)
  have ok: "fst (insert_agent pg userID agent s) = Inr row" "tables s' = tables (snd (insert_agent pg userID agent s))"
    using insert_agent_stmt.pool_ok [OF call] by simp_all
  then have row: "row = set_agent_columns agent (blank_agent_row (uuid_v4 pg (serial s)) userID (pg_now s))"
    and t: "agents (tables s') = agents (tables s) @ [row]"
    by (auto simp: insert_agent_def Let_def split: if_splits)
  have "filter (names_agent userID (ag_id row)) (agents (tables s)) = []"
    using assms(4) unfolding c by (auto simp: names_agent_def filter_empty_conv scanAgent_def) (metis image_eqI)
  moreover have "names_agent userID (ag_id row) row"
    by (simp add: row names_agent_def set_agent_columns_def blank_agent_row_def)
  ultimately have "fst (AgentStore_Get pg userID (ag_id row) s') = Inr created"
    using assms(2,3) c by (simp add: AgentStore_Get_def with_uuid_def query_row_def first_row_def translate_res_def t scanAgent_def)
  then show ?thesis
    using c by (simp add: row scanAgent_def set_agent_columns_def blank_agent_row_def)
qed

definition demo_new_agent :: Agent where
  "demo_new_agent = (scanAgent (demo_agent ''new''))\<lparr>Agent_Tools := None\<rparr>"

theorem created_agent_reads_back_witness:
  "\<exists>created s'. AgentStore_Create demo_pg OwnerUserID demo_new_agent demo_server = (Inr created, s') \<and>
     Agent_Tools created = Some [] \<and> fst (AgentStore_Get demo_pg OwnerUserID (Agent_ID created) s') = Inr created"
proof -
  obtain created s' where c: "AgentStore_Create demo_pg OwnerUserID demo_new_agent demo_server = (Inr created, s')"
    and "outcomes s' = []" "uuid_in demo_pg (Agent_ID created) = Some (Agent_ID created)"
    "Agent_ID created \<notin> ag_id ` set (agents (tables demo_server))"
    by (simp add: AgentStore_Create_def insert_agent_def int4_columns_def demo_new_agent_def scanAgent_def
        demo_defs fits_int4_def Let_def translate_res_def set_agent_columns_def blank_agent_row_def tool_list_def)
  note stored = created_agent_reads_back [OF this]
  have "Agent_Tools created = Some []"
    by (subst conjunct1 [OF stored]) (simp add: demo_new_agent_def tool_list_def)
  with stored c show ?thesis by blast
qed

end
