(* ===== verification/Llm.thy ===== *)
theory Llm
  imports Json Http
begin

text \<open>
  \<open>pkg/llm\<close>: the messages of a chat completion and the client that performs one. The encoding
  of the request and the decoding of the response body are \<open>encoding/json\<close>'s, a parameter here.
\<close>

definition DefaultBaseURL :: string where "DefaultBaseURL = ''https://api.openai.com/v1''"

definition RoleSystem :: string where "RoleSystem = ''system''"
definition RoleUser :: string where "RoleUser = ''user''"
definition RoleAssistant :: string where "RoleAssistant = ''assistant''"
definition RoleTool :: string where "RoleTool = ''tool''"

record FunctionCall =
  Function_Name :: string
  Function_Arguments :: string

record ToolCall =
  Call_ID :: string
  Call_Type :: string
  Call_Function :: FunctionCall

record Message =
  Message_Role :: string
  Message_Content :: string
  Message_ToolCalls :: "ToolCall list"
  Message_ToolCallID :: string

record FunctionSchema =
  Schema_Name :: string
  Schema_Description :: string
  Schema_Parameters :: json

record ToolDefinition =
  Definition_Type :: string
  Definition_Function :: FunctionSchema

record Request =
  Request_Model :: string
  Request_Messages :: "Message list"
  Request_Tools :: "ToolDefinition list"

record Choice =
  Choice_Message :: Message
  Choice_FinishReason :: string

record Usage =
  Usage_PromptTokens :: int
  Usage_CompletionTokens :: int
  Usage_TotalTokens :: int

record Response =
  Response_Choices :: "Choice list"
  Response_Usage :: Usage

record Client =
  Client_baseURL :: string
  Client_apiKey :: string

definition llm_New :: "string \<Rightarrow> string \<Rightarrow> Client" where
  "llm_New baseURL apiKey =
     \<lparr>Client_baseURL = TrimSuffix (if baseURL = [] then DefaultBaseURL else baseURL) ''/'',
      Client_apiKey = apiKey\<rparr>"

record wire =
  marshal_request :: "Request \<Rightarrow> string res"
  unmarshal_response :: "string \<Rightarrow> Response res"

definition completion_request :: "Client \<Rightarrow> string \<Rightarrow> http_request" where
  "completion_request c body =
     \<lparr>req_method = MethodPost, req_url = Client_baseURL c @ ''/chat/completions'',
      req_headers = (''Content-Type'', ''application/json'') #
        (if Client_apiKey c \<noteq> [] then [(''Authorization'', ''Bearer '' @ Client_apiKey c)] else []),
      req_body = RawBody body\<rparr>"

definition Complete :: "wire \<Rightarrow> 'h http \<Rightarrow> Client \<Rightarrow> Request \<Rightarrow> 'h \<Rightarrow> Response res \<times> 'h" where
  "Complete wr do_request c request h =
     (case marshal_request wr request of
        Inl e \<Rightarrow> (Inl e, h)
      | Inr body \<Rightarrow>
          (case do_request (completion_request c body) h of
             (Inl e, h1) \<Rightarrow> (Inl e, h1)
           | (Inr httpResponse, h1) \<Rightarrow>
               (case ReadAll httpResponse of
                  Inl e \<Rightarrow> (Inl e, h1)
                | Inr responseBody \<Rightarrow>
                    if resp_status httpResponse \<noteq> StatusOK then
                      (Inl (Errorf (''model provider returned '' @ Itoa (resp_status httpResponse) @ '': ''
                         @ TrimSpace responseBody)), h1)
                    else (case unmarshal_response wr responseBody of
                       Inl e \<Rightarrow> (Inl (Errorf (''could not decode the model response: '' @ Error e)), h1)
                     | Inr response \<Rightarrow>
                         if Response_Choices response = [] then (Inl (Errorf ''the model returned no choices''), h1)
                         else (Inr response, h1)))))"

lemma Complete_choices:
  "Complete wr do_request c request h = (Inr response, h') \<Longrightarrow> Response_Choices response \<noteq> []"
  by (auto simp: Complete_def split: sum.splits prod.splits if_splits)

end
