(* ===== verification/Tools.thy ===== *)
theory Tools
  imports Llm "HOL-Library.AList" "HOL-Library.List_Lexorder" "HOL-Library.Char_ord"
begin

text \<open>
  \<open>tools/registry.go\<close>: a tool as the interface the executor calls, and the catalogue of the
  tools an installation offers. \<open>'w\<close> is the state a tool acts on.
\<close>

record Env =
  Env_RunID :: string
  Env_AgentID :: string
  Env_UserID :: string

record 'w Tool =
  Tool_Name :: string
  Tool_Description :: string
  Tool_InputSchema :: json
  Tool_Execute :: "string \<Rightarrow> Env \<Rightarrow> 'w \<Rightarrow> string res \<times> 'w"
  Tool_Configured :: "(string \<Rightarrow> 'w \<Rightarrow> bool \<times> 'w) option"

text \<open>\<open>Available\<close>: a tool that does not implement \<open>Configurable\<close> always is.\<close>

definition Available :: "'w Tool \<Rightarrow> string \<Rightarrow> 'w \<Rightarrow> bool \<times> 'w" where
  "Available tool userID w =
     (case Tool_Configured tool of None \<Rightarrow> (True, w) | Some configured \<Rightarrow> configured userID w)"

type_synonym 'w Registry = "(string \<times> 'w Tool) list"

definition NewRegistry :: "'w Registry" where "NewRegistry = []"

definition Register :: "'w Tool \<Rightarrow> 'w Registry \<Rightarrow> 'w Registry" where
  "Register tool r = AList.update (Tool_Name tool) tool r"

definition Registry_Get :: "'w Registry \<Rightarrow> string \<Rightarrow> 'w Tool option" where
  "Registry_Get r name = map_of r name"

definition Names :: "'w Registry \<Rightarrow> string list" where
  "Names r = sort (map fst r)"

fun Definitions :: "'w Registry \<Rightarrow> string list \<Rightarrow> ToolDefinition list" where
  "Definitions r [] = []"
| "Definitions r (name # granted) =
     (case map_of r name of
        None \<Rightarrow> Definitions r granted
      | Some tool \<Rightarrow>
          \<lparr>Definition_Type = ''function'',
           Definition_Function = \<lparr>Schema_Name = Tool_Name tool, Schema_Description = Tool_Description tool,
             Schema_Parameters = Tool_InputSchema tool\<rparr>\<rparr> # Definitions r granted)"

definition ErrNotGranted :: "string \<Rightarrow> go_error" where
  "ErrNotGranted name = Errorf (''the tool '' @ Quote name @ '' is not available to this agent'')"

text \<open>What every tool answers when its arguments do not decode.\<close>

definition badArguments :: "go_error \<Rightarrow> go_error" where
  "badArguments e = Errorf (''arguments were not valid JSON: '' @ Error e)"

section \<open>Lemmas\<close>

text \<open>Every tool stands under its own name.\<close>

definition registry_wf :: "'w Registry \<Rightarrow> bool" where
  "registry_wf r \<longleftrightarrow> distinct (map fst r) \<and> (\<forall>(name, tool) \<in> set r. Tool_Name tool = name)"

lemma registry_wf_Register:
  assumes "registry_wf r" shows "registry_wf (Register tool r)"
proof -
  have "(a, x) \<in> set (AList.update k v al) \<Longrightarrow> (a, x) = (k, v) \<or> (a, x) \<in> set al" for a x k v and al :: "'a Registry"
    by (induction al) (auto split: if_splits)
  with assms show ?thesis by (fastforce simp: registry_wf_def Register_def distinct_update)
qed

lemma Register_Get: "Registry_Get (Register tool r) name = (if name = Tool_Name tool then Some tool else Registry_Get r name)"
  by (simp add: Registry_Get_def Register_def update_conv')

end
