(* ===== verification/Memory.thy ===== *)
theory Memory
  imports Agent_Store Tools
begin

text \<open>
  \<open>store/memory.go\<close> and \<open>tools/memory.go\<close>: what agents remember, bounded per namespace, and
  the two tools they reach it with.
\<close>

section \<open>The store (store/memory.go)\<close>

definition MaxRecordsPerNamespace :: nat where "MaxRecordsPerNamespace = 500"
definition MaxRecordBytes :: nat where "MaxRecordBytes = 16 * 1024"
definition MaxReadLimit :: int where "MaxReadLimit = 50"

record MemoryRecord =
  Memory_ID :: string
  Memory_AgentID :: string
  Memory_Namespace :: string
  Memory_Key :: string
  Memory_Content :: string
  Memory_CreatedAt :: time

definition scanMemoryRecord :: "memory_row \<Rightarrow> MemoryRecord" where
  "scanMemoryRecord m =
     \<lparr>Memory_ID = mem_id m, Memory_AgentID = mem_agent_id m, Memory_Namespace = mem_namespace m,
      Memory_Key = mem_key m, Memory_Content = mem_content m, Memory_CreatedAt = mem_created_at m\<rparr>"

text \<open>\<open>ORDER BY created_at DESC, id DESC\<close>.\<close>

definition newest_first :: "memory_row list \<Rightarrow> memory_row list" where
  "newest_first ms = rev (order_by (\<lambda>m. (mem_created_at m, mem_id m)) ms)"

definition in_namespace :: "string \<Rightarrow> string \<Rightarrow> memory_row \<Rightarrow> bool" where
  "in_namespace userID namespace m \<longleftrightarrow> mem_user_id m = userID \<and> mem_namespace m = namespace"

definition invalidJSON :: go_error where
  "invalidJSON = PgError invalidTextRepresentation ''invalid input syntax for type json''"

definition insert_memory ::
    "postgres \<Rightarrow> string \<Rightarrow> string \<Rightarrow> string \<Rightarrow> string \<Rightarrow> string \<Rightarrow> server \<Rightarrow> memory_row res \<times> server" where
  "insert_memory pg userID agentID namespace key content s =
     (case jsonb_in pg content of
        None \<Rightarrow> (Inl invalidJSON, s)
      | Some stored \<Rightarrow>
          if agentID \<notin> ag_id ` set (agents (tables s)) \<or> userID \<notin> usr_id ` set (users (tables s))
          then (Inl foreignKeyViolation, s)
          else
            let row = \<lparr>mem_id = uuid_v4 pg (serial s), mem_user_id = userID, mem_agent_id = agentID,
                  mem_namespace = namespace, mem_key = key, mem_content = stored,
                  mem_created_at = pg_now s\<rparr>
            in (Inr row,
                s\<lparr>serial := Suc (serial s),
                  tables := (tables s)\<lparr>memory_records := memory_records (tables s) @ [row]\<rparr>\<rparr>))"

definition kept_ids :: "string \<Rightarrow> string \<Rightarrow> database \<Rightarrow> string list" where
  "kept_ids userID namespace d =
     map mem_id (take MaxRecordsPerNamespace
       (newest_first (filter (in_namespace userID namespace) (memory_records d))))"

definition prune_namespace :: "string \<Rightarrow> string \<Rightarrow> database \<Rightarrow> database" where
  "prune_namespace userID namespace d =
     d\<lparr>memory_records := delete_where (\<lambda>m. in_namespace userID namespace m \<and>
         mem_id m \<notin> set (kept_ids userID namespace d)) (memory_records d)\<rparr>"

definition MemoryStore_Write ::
    "postgres \<Rightarrow> string \<Rightarrow> string \<Rightarrow> string \<Rightarrow> string \<Rightarrow> string \<Rightarrow> server \<Rightarrow> MemoryRecord res \<times> server" where
  "MemoryStore_Write pg userID agentID namespace key content s =
     (if length content > MaxRecordBytes then
        (Inl (Errorf (''a memory record may be at most '' @ Itoa (int MaxRecordBytes) @ '' bytes'')), s)
      else (case pool_call (with_uuid pg agentID (\<lambda>u. insert_memory pg userID u namespace key content)) s of
        (Inl e, s1) \<Rightarrow> (Inl (translateNoRows e), s1)
      | (Inr row, s1) \<Rightarrow>
          (case pool_call (exec (prune_namespace userID namespace)) s1 of
             (Inl e, s2) \<Rightarrow> (Inl e, s2)
           | (Inr _, s2) \<Rightarrow> (Inr (scanMemoryRecord row), s2))))"

definition MemoryStore_Read ::
    "string \<Rightarrow> string \<Rightarrow> string \<Rightarrow> int \<Rightarrow> server \<Rightarrow> MemoryRecord list res \<times> server" where
  "MemoryStore_Read userID namespace key limit0 s =
     (let limit1 = (if limit0 < 1 then 1 else limit0);
          limit = (if limit1 > MaxReadLimit then MaxReadLimit else limit1)
      in case pool_call (query (\<lambda>d. take (nat limit) (newest_first
               (filter (\<lambda>m. in_namespace userID namespace m \<and> (key \<noteq> [] \<longrightarrow> mem_key m = key))
                 (memory_records d))))) s of
           (Inl e, s1) \<Rightarrow> (Inl (translateNoRows e), s1)
         | (Inr rows, s1) \<Rightarrow> (Inr (map scanMemoryRecord rows), s1))"

definition MemoryStore_ListByAgent ::
    "postgres \<Rightarrow> string \<Rightarrow> string \<Rightarrow> nat \<Rightarrow> server \<Rightarrow> MemoryRecord list res \<times> server" where
  "MemoryStore_ListByAgent pg userID agentID limit s =
     (case pool_call (with_uuid pg agentID (\<lambda>u. query (\<lambda>d. take limit (newest_first
             (filter (\<lambda>m. mem_user_id m = userID \<and> mem_agent_id m = u) (memory_records d)))))) s of
        (Inl e, s1) \<Rightarrow> (Inl e, s1)
      | (Inr rows, s1) \<Rightarrow> (Inr (map scanMemoryRecord rows), s1))"

definition delete_memory_stmt :: "string \<Rightarrow> string \<Rightarrow> server \<Rightarrow> nat res \<times> server" where
  "delete_memory_stmt userID u s =
     (let p = (\<lambda>m. mem_id m = u \<and> mem_user_id m = userID) in
      (Inr (length (filter p (memory_records (tables s)))),
       s\<lparr>tables := (tables s)\<lparr>memory_records := delete_where p (memory_records (tables s))\<rparr>\<rparr>))"

definition MemoryStore_Delete :: "postgres \<Rightarrow> string \<Rightarrow> string \<Rightarrow> server \<Rightarrow> unit res \<times> server" where
  "MemoryStore_Delete pg userID i s =
     (case pool_call (with_uuid pg i (delete_memory_stmt userID)) s of
        (r, s') \<Rightarrow> (affected_or_not_found r, s'))"

definition CountInNamespace :: "string \<Rightarrow> string \<Rightarrow> server \<Rightarrow> nat res \<times> server" where
  "CountInNamespace userID namespace s =
     pool_call (query (\<lambda>d. length (filter (in_namespace userID namespace) (memory_records d)))) s"

section \<open>The tools (tools/memory.go)\<close>

definition namespaceOrDefault :: "string \<Rightarrow> Env \<Rightarrow> string" where
  "namespaceOrDefault namespace env =
     (if TrimSpace namespace = [] then Env_AgentID env else namespace)"

text \<open>
  The decoded arguments of the two tools. \<open>json.Unmarshal\<close> of the argument text into the
  struct is the parameter \<open>unmarshal\<close>.
\<close>

record memory_write_input =
  write_Key :: string
  write_Content :: string
  write_Namespace :: string

record memory_read_input =
  read_Limit :: int
  read_Key :: string
  read_Namespace :: string

definition MemoryWrite_Execute ::
    "postgres \<Rightarrow> (string \<Rightarrow> memory_write_input res) \<Rightarrow> string \<Rightarrow> Env \<Rightarrow> server \<Rightarrow> string res \<times> server" where
  "MemoryWrite_Execute pg unmarshal arguments env s =
     (case unmarshal arguments of
        Inl e \<Rightarrow> (Inl (badArguments e), s)
      | Inr input \<Rightarrow>
          if TrimSpace (write_Key input) = [] then (Inl (Errorf ''a key is required''), s)
          else if write_Content input = [] then (Inl (Errorf ''content is required''), s)
          else (case MemoryStore_Write pg (Env_UserID env) (Env_AgentID env)
                       (namespaceOrDefault (write_Namespace input) env) (write_Key input)
                       (write_Content input) s of
                  (Inl e, s1) \<Rightarrow> (Inl e, s1)
                | (Inr record, s1) \<Rightarrow>
                    (Inr (''Remembered '' @ Quote (Memory_Key record) @ '' in namespace ''
                          @ Quote (Memory_Namespace record) @ ''.''), s1)))"

definition record_line :: "MemoryRecord \<Rightarrow> string" where
  "record_line record =
     format_wall (Memory_CreatedAt record) @ ''Z  '' @ Memory_Key record @ '': ''
       @ Memory_Content record @ [newline]"

definition MemoryRead_Execute ::
    "(string \<Rightarrow> memory_read_input res) \<Rightarrow> string \<Rightarrow> Env \<Rightarrow> server \<Rightarrow> string res \<times> server" where
  "MemoryRead_Execute unmarshal arguments env s =
     (case unmarshal arguments of
        Inl e \<Rightarrow> (Inl (badArguments e), s)
      | Inr input \<Rightarrow>
          let limit = (if read_Limit input < 1 then 10 else read_Limit input) in
          (case MemoryStore_Read (Env_UserID env) (namespaceOrDefault (read_Namespace input) env)
                  (read_Key input) limit s of
             (Inl e, s1) \<Rightarrow> (Inl e, s1)
           | (Inr records, s1) \<Rightarrow>
               if records = [] then (Inr ''No records found.'', s1)
               else (Inr (TrimRight1 (concat (map record_line records)) newline), s1)))"

section \<open>Lemmas\<close>

interpretation insert_memory_stmt: statement "insert_memory pg userID u namespace key content"
  for pg userID u namespace key content
  by unfold_locales (auto simp: insert_memory_def Let_def split: option.splits if_splits)

lemma set_newest_first [simp]: "set (newest_first ms) = set ms"
  by (simp add: newest_first_def)

lemma length_newest_first [simp]: "length (newest_first ms) = length ms"
  by (simp add: newest_first_def)

lemma distinct_newest_first: "distinct (map mem_id ms) \<Longrightarrow> distinct (map mem_id (newest_first ms))"
  by (simp add: newest_first_def distinct_map_order_by flip: rev_map)

lemma newest_first_head:
  assumes "m \<in> set ms" and "\<And>x. x \<in> set ms \<Longrightarrow> x \<noteq> m \<Longrightarrow> mem_created_at x < mem_created_at m"
  shows "\<exists>rest. newest_first ms = m # rest"
proof -
  let ?k = "\<lambda>m. (mem_created_at m, mem_id m)"
  let ?ns = "order_by ?k ms"
  have ne: "?ns \<noteq> []" using assms(1) set_order_by [of ?k ms] by (metis empty_iff list.set(1))
  have "last ?ns = m"
  proof (rule ccontr)
    assume "last ?ns \<noteq> m"
    moreover have "last ?ns \<in> set ms" using last_in_set [OF ne] by simp
    ultimately have less: "mem_created_at (last ?ns) < mem_created_at m" by (rule assms(2) [rotated])
    have "m \<in> set ?ns" using assms(1) by simp
    then obtain i where i: "i < length ?ns" "?ns ! i = m" unfolding in_set_conv_nth by blast
    have "?k (?ns ! i) \<le> ?k (?ns ! (length ?ns - 1))"
      using sorted_nth_mono [OF sorted_order_by [of ?k ms], of i "length ?ns - 1"] i(1) by simp
    then have "?k m \<le> ?k (last ?ns)" unfolding i(2) last_conv_nth [OF ne] .
    then show False using less by (simp only: less_eq_prod_simp) linarith
  qed
  then have "butlast ?ns @ [m] = ?ns" using append_butlast_last_id [OF ne] by (simp only:)
  from arg_cong [OF this, of rev] have "newest_first ms = m # rev (butlast ?ns)"
    by (simp only: newest_first_def rev_append rev.simps append.simps)
  then show ?thesis by blast
qed

lemma keep_newest:
  fixes ms :: "memory_row list" and n :: nat
  assumes "distinct (map mem_id ms)"
  defines "kept \<equiv> filter (\<lambda>m. mem_id m \<in> mem_id ` set (take n (newest_first ms))) ms"
  shows "set kept = set (take n (newest_first ms))" and "length kept = min n (length ms)"
proof -
  have sub: "set (take n (newest_first ms)) \<subseteq> set ms" using set_take_subset by fastforce
  have inj: "inj_on mem_id (set ms)" using assms(1) by (simp add: distinct_map)
  show s: "set kept = set (take n (newest_first ms))"
    unfolding kept_def using sub inj by (auto dest: inj_onD)
  have "distinct kept" using assms(1) by (simp add: kept_def distinct_map)
  moreover have "distinct (take n (newest_first ms))"
    using distinct_newest_first [OF assms(1)] by (simp add: distinct_map)
  ultimately show "length kept = min n (length ms)"
    using s by (metis distinct_card length_newest_first length_take min.commute)
qed

lemma Write_ok:
  assumes "MemoryStore_Write pg userID agentID namespace key content s = (Inr rec, s')"
    and "uuid_in pg agentID = Some u"
  obtains row where "rec = scanMemoryRecord row" and "mem_id row = uuid_v4 pg (serial s)"
    and "mem_created_at row = pg_now s" and "mem_key row = key" and "in_namespace userID namespace row"
    and "tables s' = prune_namespace userID namespace
      ((tables s)\<lparr>memory_records := memory_records (tables s) @ [row]\<rparr>)"
proof -
  obtain row s1 where ins: "pool_call (with_uuid pg agentID (\<lambda>u. insert_memory pg userID u namespace key content)) s = (Inr row, s1)"
      and del: "pool_call (exec (prune_namespace userID namespace)) s1 = (Inr (), s')"
      and r: "rec = scanMemoryRecord row"
    using assms(1) by (auto simp: MemoryStore_Write_def split: if_splits prod.splits sum.splits)
  have i: "fst (insert_memory pg userID u namespace key content s) = Inr row"
      "tables s1 = tables (snd (insert_memory pg userID u namespace key content s))"
    using statement.pool_ok [OF statement_with_uuid [OF insert_memory_stmt.statement_axioms] ins] assms(2)
    by (simp_all add: with_uuid_def)
  have "tables s' = prune_namespace userID namespace (tables s1)"
    using exec_stmt.pool_ok [OF del] by (simp add: exec_def)
  with i show thesis
    by (intro that [OF r]) (auto simp: insert_memory_def Let_def in_namespace_def split: option.splits if_splits)
qed

lemma pruned_namespace:
  fixes d :: database and userID namespace :: string
  assumes "distinct (map mem_id (memory_records d))"
  defines "ns \<equiv> filter (in_namespace userID namespace) (memory_records d)"
    and "ns' \<equiv> filter (in_namespace userID namespace) (memory_records (prune_namespace userID namespace d))"
  shows "set ns' = set (take MaxRecordsPerNamespace (newest_first ns))"
    and "length ns' = min MaxRecordsPerNamespace (length ns)"
    and "filter (\<lambda>m. \<not> in_namespace userID namespace m) (memory_records (prune_namespace userID namespace d)) =
      filter (\<lambda>m. \<not> in_namespace userID namespace m) (memory_records d)"
proof -
  have d: "distinct (map mem_id ns)" using assms(1) by (simp add: ns_def distinct_map_filter)
  have "ns' = filter (\<lambda>m. mem_id m \<in> mem_id ` set (take MaxRecordsPerNamespace (newest_first ns))) ns"
    by (simp add: ns'_def ns_def prune_namespace_def delete_where_def kept_ids_def conj_commute cong: conj_cong)
  with keep_newest [OF d] show "set ns' = set (take MaxRecordsPerNamespace (newest_first ns))"
    and "length ns' = min MaxRecordsPerNamespace (length ns)" by simp_all
  show "filter (\<lambda>m. \<not> in_namespace userID namespace m) (memory_records (prune_namespace userID namespace d)) =
      filter (\<lambda>m. \<not> in_namespace userID namespace m) (memory_records d)"
    by (auto simp: prune_namespace_def delete_where_def intro: filter_cong)
qed

section \<open>Properties\<close>

text \<open>
  C29: memory is a bounded log. A write that is answered leaves its namespace with the five
  hundred newest of what was there and the new record (all of them while there are fewer), drops
  only the oldest, and touches no other namespace; the new record itself is kept whenever the
  records before it are older.
\<close>

theorem memory_keeps_newest:
  assumes "db_wf (tables s)" and "uuid_in pg agentID = Some u"
    and "uuid_v4 pg (serial s) \<notin> mem_id ` set (memory_records (tables s))"
    and "MemoryStore_Write pg userID agentID namespace key content s = (Inr rec, s')"
  defines "ns \<equiv> filter (in_namespace userID namespace) (memory_records (tables s))"
    and "ns' \<equiv> filter (in_namespace userID namespace) (memory_records (tables s'))"
  shows "\<exists>row. rec = scanMemoryRecord row \<and> mem_created_at row = pg_now s \<and>
    set ns' = set (take 500 (newest_first (ns @ [row]))) \<and>
    length ns' = min 500 (length ns + 1) \<and>
    filter (\<lambda>m. \<not> in_namespace userID namespace m) (memory_records (tables s')) =
      filter (\<lambda>m. \<not> in_namespace userID namespace m) (memory_records (tables s)) \<and>
    ((\<forall>m \<in> set ns. mem_created_at m < pg_now s) \<longrightarrow> row \<in> set ns')"
proof -
  obtain row where r: "rec = scanMemoryRecord row" "mem_id row = uuid_v4 pg (serial s)"
      "mem_created_at row = pg_now s" "in_namespace userID namespace row"
    and t: "tables s' = prune_namespace userID namespace
      ((tables s)\<lparr>memory_records := memory_records (tables s) @ [row]\<rparr>)"
    by (rule Write_ok [OF assms(4,2)])
  let ?d = "(tables s)\<lparr>memory_records := memory_records (tables s) @ [row]\<rparr>"
  have "distinct (map mem_id (memory_records ?d))"
    using assms(1,3) r(2) by (auto simp: db_wf_defs)
  note pruned = pruned_namespace [OF this, of userID namespace]
  have ns: "filter (in_namespace userID namespace) (memory_records ?d) = ns @ [row]" using r(4) by (simp add: ns_def)
  have set: "set ns' = set (take 500 (newest_first (ns @ [row])))"
    unfolding ns'_def t pruned(1) ns MaxRecordsPerNamespace_def by (rule refl)
  have len: "length ns' = min 500 (length ns + 1)"
    unfolding ns'_def t pruned(2) ns MaxRecordsPerNamespace_def by simp
  have "row \<in> set ns'" if "\<forall>m \<in> set ns. mem_created_at m < pg_now s"
    using newest_first_head [of row "ns @ [row]"] that r(3) by (auto simp: set)
  moreover have "filter (\<lambda>m. \<not> in_namespace userID namespace m) (memory_records (tables s')) =
      filter (\<lambda>m. \<not> in_namespace userID namespace m) (memory_records (tables s))"
    using pruned(3) r(4) by (simp add: t)
  ultimately show ?thesis using r set len by blast
qed

definition remembering :: server where
  "remembering = snd (MemoryStore_Write demo_pg OwnerUserID ''a1'' ''a1'' ''k'' ''1'' demo_server)"

theorem memory_keeps_newest_witness:
  "\<exists>rec s'. MemoryStore_Write demo_pg OwnerUserID ''a1'' ''a1'' ''k'' ''2'' (remembering\<lparr>pg_now := demo_now + 1\<rparr>) = (Inr rec, s') \<and>
     length (filter (in_namespace OwnerUserID ''a1'') (memory_records (tables s'))) = 2"
proof -
  let ?s = "remembering\<lparr>pg_now := demo_now + 1\<rparr>"
  let ?w = "MemoryStore_Write demo_pg OwnerUserID ''a1'' ''a1'' ''k'' ''2'' ?s"
  have "\<not> is_err (fst ?w)" by code_simp
  then obtain rec s' where w: "?w = (Inr rec, s')" by (cases ?w; cases "fst ?w") auto
  have wf: "db_wf (tables ?s)" by code_simp
  have fresh: "uuid_v4 demo_pg (serial ?s) \<notin> mem_id ` set (memory_records (tables ?s))" by code_simp
  have u: "uuid_in demo_pg ''a1'' = Some ''a1''" by (simp add: demo_pg_def)
  have "length (filter (in_namespace OwnerUserID ''a1'') (memory_records (tables ?s))) = 1" by code_simp
  with memory_keeps_newest [OF wf u fresh w] w show ?thesis by auto
qed

text \<open>
  What was written is read first. After a write that is answered, with every earlier record of
  the namespace older than it, a read of the namespace and key gives the record before all others,
  whatever limit the model asked for (zero and negative ones included).
\<close>

theorem write_then_read:
  assumes "db_wf (tables s)" and "uuid_in pg agentID = Some u"
    and "uuid_v4 pg (serial s) \<notin> mem_id ` set (memory_records (tables s))"
    and "\<forall>m \<in> set (memory_records (tables s)). mem_created_at m < pg_now s"
    and "MemoryStore_Write pg userID agentID namespace key content s = (Inr rec, s')"
    and "outcomes s' = []"
  shows "\<exists>rest. fst (MemoryStore_Read userID namespace key limit s') = Inr (rec # rest) \<and> length rest < 50"
proof -
  obtain row where r: "rec = scanMemoryRecord row" "mem_id row = uuid_v4 pg (serial s)"
      "mem_created_at row = pg_now s" "mem_key row = key" "in_namespace userID namespace row"
    and t: "tables s' = prune_namespace userID namespace
      ((tables s)\<lparr>memory_records := memory_records (tables s) @ [row]\<rparr>)"
    by (rule Write_ok [OF assms(5,2)])
  let ?ms = "memory_records (tables s) @ [row]"
  have "distinct (map mem_id (memory_records ((tables s)\<lparr>memory_records := ?ms\<rparr>)))"
    using assms(1,3) r(2) by (auto simp: db_wf_defs)
  note pruned = pruned_namespace(1) [OF this, of userID namespace]
  have "row \<in> set (filter (in_namespace userID namespace) (memory_records (tables s')))"
    using newest_first_head [of row "filter (in_namespace userID namespace) ?ms"] r(3,5) assms(4) pruned
    by (auto simp: t MaxRecordsPerNamespace_def)
  moreover have "set (memory_records (tables s')) \<subseteq> set ?ms" by (auto simp: t prune_namespace_def)
  ultimately obtain rest where rest: "newest_first (filter (\<lambda>m. in_namespace userID namespace m \<and>
      (key \<noteq> [] \<longrightarrow> mem_key m = key)) (memory_records (tables s'))) = row # rest"
    using newest_first_head [of row "filter (\<lambda>m. in_namespace userID namespace m \<and>
      (key \<noteq> [] \<longrightarrow> mem_key m = key)) (memory_records (tables s'))"] r(3-5) assms(4) by fastforce
  define n where "n = nat (if (if limit < 1 then 1 else limit) > MaxReadLimit then MaxReadLimit else (if limit < 1 then 1 else limit))"
  have n: "0 < n" "n \<le> 50" by (auto simp: n_def MaxReadLimit_def)
  have "fst (MemoryStore_Read userID namespace key limit s') = Inr (map scanMemoryRecord (take n (row # rest)))"
    using assms(6) by (simp add: MemoryStore_Read_def Let_def query_def rest n_def)
  then show ?thesis using n r(1) by (cases n) auto
qed

theorem write_then_read_witness:
  "\<exists>rec s'. MemoryStore_Write demo_pg OwnerUserID ''a1'' ''a1'' ''k'' ''2'' (remembering\<lparr>pg_now := demo_now + 1\<rparr>) = (Inr rec, s') \<and>
     (\<exists>rest. fst (MemoryStore_Read OwnerUserID ''a1'' ''k'' (- 3) s') = Inr (rec # rest) \<and> length rest < 50)"
proof -
  let ?s = "remembering\<lparr>pg_now := demo_now + 1\<rparr>"
  let ?w = "MemoryStore_Write demo_pg OwnerUserID ''a1'' ''a1'' ''k'' ''2'' ?s"
  have "\<not> is_err (fst ?w)" by code_simp
  then obtain rec s' where w: "?w = (Inr rec, s')" by (cases ?w; cases "fst ?w") auto
  have out: "outcomes (snd ?w) = []" by code_simp
  have wf: "db_wf (tables ?s)" by code_simp
  have fresh: "uuid_v4 demo_pg (serial ?s) \<notin> mem_id ` set (memory_records (tables ?s))" by code_simp
  have older: "\<forall>m \<in> set (memory_records (tables ?s)). mem_created_at m < pg_now ?s" by code_simp
  have u: "uuid_in demo_pg ''a1'' = Some ''a1''" by (simp add: demo_pg_def)
  from write_then_read [OF wf u fresh older w] out w show ?thesis by auto
qed

text \<open>
  A namespace is not private. An agent that names another agent's identifier as its namespace
  reads what that agent remembered.
\<close>

theorem other_agents_memory_is_readable:
  "fst (MemoryRead_Execute (\<lambda>_. Inr \<lparr>read_Limit = 5, read_Key = [], read_Namespace = ''a1''\<rparr>) []
        \<lparr>Env_RunID = ''r2'', Env_AgentID = ''a2'', Env_UserID = OwnerUserID\<rparr> remembering)
   = Inr ''2025-06-01T00:01:00Z  k: 1''"
  by code_simp

end
