(* ===== verification/Delivery.thy ===== *)
theory Delivery
  imports Notifier Memory
begin

text \<open>
  \<open>tools/delivery.go\<close>: splitting a text into the messages Telegram takes, and the
  \<open>send_telegram\<close> tool.
\<close>

section \<open>Splitting\<close>

definition telegramMessageLimit :: nat where "telegramMessageLimit = 4096"

text \<open>The inner loop, on the chunks so far, the current one and the paragraph.\<close>

function cut_paragraph ::
    "string list \<Rightarrow> string \<Rightarrow> string \<Rightarrow> string list \<times> string \<times> string" where
  "cut_paragraph chunks current paragraph =
     (if length paragraph > telegramMessageLimit then
        cut_paragraph ((if current \<noteq> [] then chunks @ [current] else chunks)
            @ [take telegramMessageLimit paragraph]) [] (drop telegramMessageLimit paragraph)
      else (chunks, current, paragraph))"
  by pat_completeness auto
termination
  by (relation "measure (\<lambda>(_, _, paragraph). length paragraph)") (auto simp: telegramMessageLimit_def)

declare cut_paragraph.simps [simp del]

fun paragraph_loop :: "string list \<Rightarrow> string \<Rightarrow> string list \<Rightarrow> string list \<times> string" where
  "paragraph_loop chunks current [] = (chunks, current)"
| "paragraph_loop chunks current (p # ps) =
     (case cut_paragraph chunks current p of
        (chunks1, current1, paragraph) \<Rightarrow>
          (case (if length current1 + length paragraph + 1 > telegramMessageLimit
                 then (chunks1 @ [current1], []) else (chunks1, current1)) of
             (chunks2, current2) \<Rightarrow>
               paragraph_loop chunks2
                 ((if current2 \<noteq> [] then current2 @ [newline] else current2) @ paragraph) ps))"

definition splitForTelegram :: "string \<Rightarrow> string list" where
  "splitForTelegram txt =
     (if length txt \<le> telegramMessageLimit then [txt]
      else case paragraph_loop [] [] (Split txt newline) of
        (chunks, current) \<Rightarrow> if current \<noteq> [] then chunks @ [current] else chunks)"

section \<open>The tool\<close>

definition NewSendTelegram :: "string \<Rightarrow> string" where
  "NewSendTelegram baseURL =
     TrimSuffix (if baseURL = [] then ''https://api.telegram.org'' else baseURL) ''/''"

definition Configured :: "Sealer option \<Rightarrow> string \<Rightarrow> server \<Rightarrow> bool \<times> server" where
  "Configured sealer userID s =
     (case TelegramDelivery sealer userID s of (delivery, s1) \<Rightarrow> (delivery \<noteq> None, s1))"

text \<open>At most the first 4096 bytes of an answer are read.\<close>

fun send_chunks ::
    "'h http \<Rightarrow> string \<Rightarrow> string \<Rightarrow> string \<Rightarrow> string list \<Rightarrow> 'h \<Rightarrow> go_error option \<times> 'h" where
  "send_chunks do_request baseURL token chatID [] h = (None, h)"
| "send_chunks do_request baseURL token chatID (chunk # chunks) h =
     (case do_request (telegram_request baseURL token chatID chunk) h of
        (Inl e, h1) \<Rightarrow> (Some e, h1)
      | (Inr response, h1) \<Rightarrow>
          if resp_status response \<noteq> StatusOK then
            (Some (Errorf (''telegram returned '' @ Itoa (resp_status response) @ '': ''
               @ TrimSpace (take 4096 (resp_body response)))), h1)
          else send_chunks do_request baseURL token chatID chunks h1)"

definition SendTelegram_Execute ::
    "(string \<Rightarrow> string res) \<Rightarrow> 'h http \<Rightarrow> string \<Rightarrow> Sealer option \<Rightarrow> string \<Rightarrow> Env \<Rightarrow> server \<Rightarrow> 'h
      \<Rightarrow> string res \<times> server \<times> 'h" where
  "SendTelegram_Execute unmarshal do_request baseURL sealer arguments env s h =
     (case unmarshal arguments of
        Inl e \<Rightarrow> (Inl (badArguments e), s, h)
      | Inr txt \<Rightarrow>
          if TrimSpace txt = [] then (Inl (Errorf ''text is required''), s, h)
          else (case TelegramDelivery sealer (Env_UserID env) s of
             (None, s1) \<Rightarrow>
               (Inl (Errorf ''Telegram is not configured: set a bot token and chat id in settings''), s1, h)
           | (Some (token, chatID), s1) \<Rightarrow>
               let chunks = splitForTelegram txt in
               (case send_chunks do_request baseURL token chatID chunks h of
                  (Some e, h1) \<Rightarrow> (Inl e, s1, h1)
                | (None, h1) \<Rightarrow>
                    (if length chunks = 1 then Inr ''Message sent.''
                     else Inr (''Message sent in '' @ Itoa (int (length chunks)) @ '' parts.''), s1, h1))))"

section \<open>Lemmas\<close>

abbreviation "tg_limit \<equiv> telegramMessageLimit"

text \<open>A text without its line breaks.\<close>

definition strip :: "string \<Rightarrow> string" where
  "strip message = filter (\<lambda>c. c \<noteq> newline) message"

lemma strip_simps [simp]:
  "strip [] = []" "strip (xs @ ys) = strip xs @ strip ys" "strip [newline] = []"
  by (simp_all add: strip_def)

lemma strip_concat: "strip (concat xss) = concat (map strip xss)"
  by (induction xss) auto

lemma strip_Split: "concat (map strip (Split message newline)) = strip message"
proof (induction message)
  case (Cons x xs)
  then show ?case by (cases "Split xs newline") (auto simp: strip_def)
qed simp

lemma cut_paragraph_sound:
  assumes "cut_paragraph chunks current p = (chunks', current', p')"
    and "\<forall>c \<in> set chunks. length c \<le> tg_limit" and "length current \<le> tg_limit"
  shows "(\<forall>c \<in> set chunks'. length c \<le> tg_limit) \<and> length current' \<le> tg_limit \<and> length p' \<le> tg_limit \<and>
    concat chunks' @ current' @ p' = concat chunks @ current @ p"
  using assms
proof (induction chunks current p rule: cut_paragraph.induct)
  case (1 chunks current p)
  show ?case
  proof (cases "length p > tg_limit")
    case True
    let ?chunks = "(if current \<noteq> [] then chunks @ [current] else chunks) @ [take tg_limit p]"
    have fit: "\<forall>c \<in> set ?chunks. length c \<le> tg_limit" using "1.prems"(2,3) by auto
    have "cut_paragraph chunks current p = cut_paragraph ?chunks [] (drop tg_limit p)"
      using True by (subst cut_paragraph.simps [of chunks current p]) (simp only: if_True)
    then have run: "cut_paragraph ?chunks [] (drop tg_limit p) = (chunks', current', p')"
      using "1.prems"(1) by (simp only:)
    from "1.IH" [OF True run fit] have "(\<forall>c \<in> set chunks'. length c \<le> tg_limit) \<and> length current' \<le> tg_limit \<and>
        length p' \<le> tg_limit \<and> concat chunks' @ current' @ p' = concat ?chunks @ [] @ drop tg_limit p"
      by simp
    then show ?thesis by simp
  next
    case False
    then have "(chunks', current', p') = (chunks, current, p)"
      using "1.prems"(1) by (subst (asm) cut_paragraph.simps) simp
    then show ?thesis using False "1.prems"(2,3) by simp
  qed
qed

lemma paragraph_loop_sound:
  assumes "paragraph_loop chunks current ps = (chunks', current')"
    and "\<forall>c \<in> set chunks. length c \<le> tg_limit" and "length current \<le> tg_limit"
  shows "(\<forall>c \<in> set chunks'. length c \<le> tg_limit) \<and> length current' \<le> tg_limit \<and>
    strip (concat chunks' @ current') = strip (concat chunks @ current) @ concat (map strip ps)"
  using assms
proof (induction ps arbitrary: chunks current)
  case (Cons p ps)
  obtain chunks1 current1 par where cut: "cut_paragraph chunks current p = (chunks1, current1, par)"
    by (cases "cut_paragraph chunks current p")
  note c = cut_paragraph_sound [OF cut Cons.prems(2,3)]
  let ?flush = "length current1 + length par + 1 > tg_limit"
  let ?chunks = "if ?flush then chunks1 @ [current1] else chunks1" and ?cur = "if ?flush then [] else current1"
  let ?next = "(if ?cur \<noteq> [] then ?cur @ [newline] else ?cur) @ par"
  have run: "paragraph_loop ?chunks ?next ps = (chunks', current')"
    using Cons.prems(1) by (cases ?flush; cases "current1 = []") (simp_all add: cut)
  have "\<forall>c \<in> set ?chunks. length c \<le> tg_limit" using c by auto
  moreover have "length ?next \<le> tg_limit" using c by auto
  ultimately have "(\<forall>c \<in> set chunks'. length c \<le> tg_limit) \<and> length current' \<le> tg_limit \<and>
      strip (concat chunks' @ current') = strip (concat ?chunks @ ?next) @ concat (map strip ps)"
    by (rule Cons.IH [OF run])
  moreover have "strip (concat ?chunks @ ?next) = strip (concat chunks1 @ current1 @ par)" by simp
  moreover have "strip (concat chunks1 @ current1 @ par) = strip (concat chunks @ current) @ strip p"
    using arg_cong [OF conjunct2 [OF conjunct2 [OF conjunct2 [OF c]]], of strip] by simp
  ultimately have "(\<forall>c \<in> set chunks'. length c \<le> tg_limit) \<and> length current' \<le> tg_limit \<and>
      strip (concat chunks' @ current') = (strip (concat chunks @ current) @ strip p) @ concat (map strip ps)"
    by metis
  then show ?case by simp
qed auto

lemma cut_paragraph_extends: "\<exists>more. fst (cut_paragraph chunks current p) = chunks @ more"
proof (induction chunks current p rule: cut_paragraph.induct)
  case (1 chunks current p)
  show ?case
  proof (cases "length p > tg_limit")
    case True
    then show ?thesis using 1 by (subst cut_paragraph.simps) (auto split: if_splits)
  next
    case False
    then show ?thesis by (subst cut_paragraph.simps) simp
  qed
qed

lemma paragraph_loop_extends: "\<exists>more. fst (paragraph_loop chunks current ps) = chunks @ more"
proof (induction ps arbitrary: chunks current)
  case (Cons p ps)
  obtain chunks1 current1 par where cut: "cut_paragraph chunks current p = (chunks1, current1, par)"
    by (cases "cut_paragraph chunks current p")
  obtain more where "chunks1 = chunks @ more" using cut_paragraph_extends [of chunks current p] cut by auto
  then show ?case using Cons.IH by (simp add: cut) (metis append.assoc)
qed simp

lemma send_chunks_log:
  assumes "\<And>req h. snd (do_request req h) = h @ [req]"
    and "send_chunks do_request baseURL token chatID chunks h = (e, h')"
  shows "\<exists>n. h' = h @ map (telegram_request baseURL token chatID) (take n chunks) \<and> (e = None \<longrightarrow> n = length chunks)"
  using assms(2)
proof (induction chunks arbitrary: h)
  case (Cons chunk chunks)
  let ?req = "telegram_request baseURL token chatID chunk"
  obtain r where r: "do_request ?req h = (r, h @ [?req])" using assms(1) [of ?req h] by (metis prod.collapse)
  show ?case
  proof (cases "\<exists>response. r = Inr response \<and> resp_status response = StatusOK")
    case True
    then have "send_chunks do_request baseURL token chatID chunks (h @ [?req]) = (e, h')"
      using Cons.prems by (auto simp: r)
    from Cons.IH [OF this] obtain n where "h' = (h @ [?req]) @ map (telegram_request baseURL token chatID) (take n chunks)"
        "e = None \<longrightarrow> n = length chunks" by blast
    then show ?thesis by (intro exI [of _ "Suc n"]) simp
  next
    case False
    then have "h' = h @ [?req] \<and> (e \<noteq> None)"
      using Cons.prems by (auto simp: r split: sum.splits if_splits)
    then show ?thesis by (intro exI [of _ 1]) auto
  qed
qed simp

lemma trim_front_newlines: "set message \<subseteq> {newline} \<Longrightarrow> trim_front space_runes message = []"
proof (induction message)
  case Nil
  show ?case by (subst trim_front.simps) (simp add: space_runes_def)
next
  case (Cons c message)
  then have "c = newline" by simp
  then have "find (\<lambda>r. r \<noteq> [] \<and> prefix r (c # message)) space_runes = Some [newline]"
    by (simp add: space_runes_def newline_def)
  then show ?case using Cons by (subst trim_front.simps) simp
qed

lemma split_nonempty:
  assumes "TrimSpace message \<noteq> []" shows "splitForTelegram message \<noteq> []"
proof
  assume "splitForTelegram message = []"
  moreover obtain chunks current where run: "paragraph_loop [] [] (Split message newline) = (chunks, current)"
    by (cases "paragraph_loop [] [] (Split message newline)")
  ultimately have "chunks = [] \<and> current = []"
    by (auto simp: splitForTelegram_def split: if_splits)
  then have "strip message = []" using paragraph_loop_sound [OF run] by (simp add: strip_Split)
  then have "set message \<subseteq> {newline}" by (auto simp: strip_def filter_empty_conv)
  from trim_front_newlines [OF this] have "TrimSpace message = rev (trim_front (map rev space_runes) [])"
    by (simp add: TrimSpace_def)
  also have "\<dots> = []" by (subst trim_front.simps) (simp add: space_runes_def)
  finally show False using assms by simp
qed

subsection \<open>The parts lie in the text, with line breaks between them\<close>

definition breaks :: "string \<Rightarrow> bool" where
  "breaks g \<longleftrightarrow> set g \<subseteq> {newline}"

lemma breaks_simps [simp]: "breaks []" "breaks (g @ h) \<longleftrightarrow> breaks g \<and> breaks h" "breaks [newline]"
  by (auto simp: breaks_def)

text \<open>A text that is the chunks in order, each after a gap of line breaks.\<close>

definition laid :: "string list \<Rightarrow> string \<Rightarrow> bool" where
  "laid chunks body \<longleftrightarrow> (\<exists>gaps. length gaps = length chunks \<and> (\<forall>g \<in> set gaps. breaks g) \<and>
     body = concat (map (\<lambda>(g, chunk). g @ chunk) (zip gaps chunks)))"

lemma laid_Nil: "laid [] []"
  by (simp add: laid_def)

lemma laid_snoc: "laid chunks body \<Longrightarrow> breaks g \<Longrightarrow> laid (chunks @ [chunk]) (body @ g @ chunk)"
  unfolding laid_def by (elim exE) (rule_tac x = "gaps @ [g]" in exI, auto)

text \<open>The state of the loops on the text read so far.\<close>

definition reading :: "string list \<Rightarrow> string \<Rightarrow> string \<Rightarrow> bool" where
  "reading chunks current body \<longleftrightarrow> (\<exists>t g. laid chunks t \<and> breaks g \<and> body = t @ g @ current)"

lemma reading_flush: "reading chunks current body \<Longrightarrow> reading (chunks @ [current]) [] body"
  unfolding reading_def using laid_snoc breaks_simps(1) by (metis append_Nil2)

lemma reading_more: "reading chunks current body \<Longrightarrow> reading chunks (current @ part) (body @ part)"
  unfolding reading_def by auto

lemma reading_gap: "reading chunks [] body \<Longrightarrow> breaks g \<Longrightarrow> reading chunks [] (body @ g)"
  unfolding reading_def by (metis append.assoc append_Nil2 breaks_simps(2))

lemma reading_chunk:
  "reading chunks current body \<Longrightarrow> breaks g \<Longrightarrow>
     reading ((if current \<noteq> [] then chunks @ [current] else chunks) @ [c]) [] (body @ g @ c)"
  using reading_flush [of chunks current body]
    reading_flush [OF reading_more [OF reading_gap], of "if current \<noteq> [] then chunks @ [current] else chunks" body g c]
  by (auto split: if_splits)

lemma cut_paragraph_reading:
  assumes "cut_paragraph chunks current p = (chunks', current', p')" and "reading chunks current body" and "breaks g"
  shows "(chunks', current', p') = (chunks, current, p) \<or>
    current' = [] \<and> (\<exists>taken. p = taken @ p' \<and> reading chunks' [] (body @ g @ taken))"
  using assms
proof (induction chunks current p arbitrary: body g rule: cut_paragraph.induct)
  case (1 chunks current p)
  show ?case
  proof (cases "length p > tg_limit")
    case True
    let ?chunks = "(if current \<noteq> [] then chunks @ [current] else chunks) @ [take tg_limit p]"
    have run: "cut_paragraph ?chunks [] (drop tg_limit p) = (chunks', current', p')"
      using "1.prems"(1) True by (subst (asm) cut_paragraph.simps [of chunks current p]) (simp only: if_True)
    have read: "reading ?chunks [] (body @ g @ take tg_limit p)" by (rule reading_chunk [OF "1.prems"(2,3)])
    from "1.IH" [OF True run read breaks_simps(1)] show ?thesis
    proof (elim disjE conjE exE)
      assume "(chunks', current', p') = (?chunks, [], drop tg_limit p)"
      then show ?thesis using read by (intro disjI2 conjI exI [of _ "take tg_limit p"]) auto
    next
      fix taken assume "current' = []" and d: "drop tg_limit p = taken @ p'"
        and "reading chunks' [] ((body @ g @ take tg_limit p) @ [] @ taken)"
      moreover have "p = (take tg_limit p @ taken) @ p'" using d by (metis append.assoc append_take_drop_id)
      ultimately show ?thesis by (intro disjI2 conjI exI [of _ "take tg_limit p @ taken"]) auto
    qed
  next
    case False
    then have "(chunks', current', p') = (chunks, current, p)"
      using "1.prems"(1) by (subst (asm) cut_paragraph.simps) simp
    then show ?thesis by blast
  qed
qed

text \<open>The paragraphs put together again, the first after \<open>g\<close>, the others after a line break.\<close>

primrec joined :: "string \<Rightarrow> string list \<Rightarrow> string" where
  "joined g [] = []"
| "joined g (p # ps) = g @ p @ joined [newline] ps"

lemma joined_Split: "joined [] (Split body newline) = body"
proof (induction body)
  case (Cons x body)
  then show ?case by (cases "Split body newline") auto
qed simp

lemma paragraph_loop_reading:
  assumes "paragraph_loop chunks current ps = (chunks', current')" and "reading chunks current body"
    and "g = [newline] \<or> g = [] \<and> current = []"
  shows "reading chunks' current' (body @ joined g ps)"
  using assms
proof (induction ps arbitrary: chunks current body g)
  case (Cons p ps)
  obtain chunks1 current1 par where cut: "cut_paragraph chunks current p = (chunks1, current1, par)"
    by (cases "cut_paragraph chunks current p")
  let ?flush = "length current1 + length par + 1 > tg_limit"
  let ?chunks = "if ?flush then chunks1 @ [current1] else chunks1" and ?cur = "if ?flush then [] else current1"
  let ?next = "(if ?cur \<noteq> [] then ?cur @ [newline] else ?cur) @ par"
  have run: "paragraph_loop ?chunks ?next ps = (chunks', current')"
    using Cons.prems(1) by (cases ?flush; cases "current1 = []") (simp_all add: cut)
  have g: "breaks g" using Cons.prems(3) by auto
  have "reading ?chunks ?next (body @ g @ p)"
    using cut_paragraph_reading [OF cut Cons.prems(2) g]
  proof (elim disjE conjE exE)
    assume same: "(chunks1, current1, par) = (chunks, current, p)"
    then have "reading ?chunks ?cur body" using Cons.prems(2) reading_flush by auto
    then have "reading ?chunks (if ?cur \<noteq> [] then ?cur @ [newline] else ?cur) (body @ g)"
      using Cons.prems(3) reading_gap [OF _ g, of ?chunks body] reading_more [of ?chunks ?cur body "[newline]"] same
      by (auto split: if_splits)
    from reading_more [OF this, of par] same show ?thesis by simp
  next
    fix taken assume "current1 = []" "p = taken @ par" "reading chunks1 [] (body @ g @ taken)"
    then show ?thesis
      using reading_flush [of chunks1 "[]" "body @ g @ taken"]
        reading_more [of "if ?flush then chunks1 @ [[]] else chunks1" "[]" "body @ g @ taken" par] by auto
  qed
  from Cons.IH [OF run this, of "[newline]"] show ?case by simp
qed auto

lemma splitForTelegram_laid: "\<exists>t tail. laid (splitForTelegram message) t \<and> breaks tail \<and> message = t @ tail"
proof (cases "length message \<le> tg_limit")
  case True
  then show ?thesis
    using laid_snoc [OF laid_Nil breaks_simps(1), of message]
    by (intro exI [of _ message] exI [of _ "[]"]) (simp add: splitForTelegram_def)
next
  case False
  obtain chunks current where run: "paragraph_loop [] [] (Split message newline) = (chunks, current)"
    by (cases "paragraph_loop [] [] (Split message newline)")
  have "reading [] [] []" using laid_Nil by (auto simp: reading_def)
  from paragraph_loop_reading [OF run this, of "[]"] obtain t g where t: "laid chunks t" "breaks g" "message = t @ g @ current"
    by (auto simp: reading_def joined_Split)
  show ?thesis
  proof (cases "current = []")
    case True
    then show ?thesis using False run t by (auto simp: splitForTelegram_def)
  next
    case False
    then show ?thesis
      using \<open>\<not> length message \<le> tg_limit\<close> run t laid_snoc [OF t(1,2), of current]
      by (intro exI [of _ message] exI [of _ "[]"]) (simp add: splitForTelegram_def)
  qed
qed

lemma splitForTelegram_limit: "chunk \<in> set (splitForTelegram message) \<Longrightarrow> length chunk \<le> tg_limit"
proof (cases "length message \<le> tg_limit")
  case False
  assume "chunk \<in> set (splitForTelegram message)"
  moreover obtain chunks current where run: "paragraph_loop [] [] (Split message newline) = (chunks, current)"
    by (cases "paragraph_loop [] [] (Split message newline)")
  ultimately show ?thesis
    using paragraph_loop_sound [OF run] False by (auto simp: splitForTelegram_def split: if_splits)
qed (simp add: splitForTelegram_def)

section \<open>Properties\<close>

text \<open>
  C30: a text is split, not truncated. Every message is at most Telegram's 4096 bytes, and the text
  is exactly the messages in order with nothing but line breaks before, between and after them:
  inside a message every character, line breaks included, stands as in the text, and all that is
  lost are line breaks at the boundaries.
\<close>

theorem split_preserves_text:
  "(\<forall>chunk \<in> set (splitForTelegram message). length chunk \<le> 4096) \<and>
   (\<exists>gaps tail. length gaps = length (splitForTelegram message) \<and> (\<forall>g \<in> set (tail # gaps). set g \<subseteq> {newline}) \<and>
      message = concat (map (\<lambda>(g, chunk). g @ chunk) (zip gaps (splitForTelegram message))) @ tail)"
proof
  show "\<forall>chunk \<in> set (splitForTelegram message). length chunk \<le> 4096"
    using splitForTelegram_limit by (auto simp: telegramMessageLimit_def)
  obtain t tail where t: "laid (splitForTelegram message) t" "breaks tail" "message = t @ tail"
    using splitForTelegram_laid by blast
  from t(1) obtain gaps where "length gaps = length (splitForTelegram message)" "\<forall>g \<in> set gaps. breaks g"
      "t = concat (map (\<lambda>(g, chunk). g @ chunk) (zip gaps (splitForTelegram message)))"
    unfolding laid_def by blast
  with t(2,3) show "\<exists>gaps tail. length gaps = length (splitForTelegram message) \<and> (\<forall>g \<in> set (tail # gaps). set g \<subseteq> {newline}) \<and>
      message = concat (map (\<lambda>(g, chunk). g @ chunk) (zip gaps (splitForTelegram message))) @ tail"
    by (intro exI [of _ gaps] exI [of _ tail]) (auto simp: breaks_def)
qed

text \<open>Three lines: the first two fit into one message with the break between them, the third starts the next.\<close>

definition three_lines :: string where
  "three_lines = replicate 2000 CHR ''a'' @ newline # replicate 2000 CHR ''b'' @ newline # replicate 2000 CHR ''c''"

lemma Split_at: "newline \<notin> set p \<Longrightarrow> Split (p @ newline # rest) newline = p # Split rest newline"
  by (induction p) auto

lemma Split_none: "newline \<notin> set p \<Longrightarrow> Split p newline = [p]"
  by (induction p) auto

lemma cut_short: "length p \<le> tg_limit \<Longrightarrow> cut_paragraph chunks current p = (chunks, current, p)"
  by (subst cut_paragraph.simps) simp

lemma split_three_lines:
  "splitForTelegram three_lines = [replicate 2000 CHR ''a'' @ newline # replicate 2000 CHR ''b'', replicate 2000 CHR ''c'']"
proof -
  have "Split three_lines newline = [replicate 2000 CHR ''a'', replicate 2000 CHR ''b'', replicate 2000 CHR ''c'']"
    unfolding three_lines_def by (subst Split_at, simp add: newline_def)+ (subst Split_none, simp_all add: newline_def)
  then show ?thesis
    by (simp add: splitForTelegram_def cut_short telegramMessageLimit_def) (simp add: three_lines_def)
qed

theorem split_preserves_text_witness:
  "\<exists>gaps tail. length gaps = 2 \<and> (\<forall>g \<in> set (tail # gaps). set g \<subseteq> {newline}) \<and>
     three_lines = gaps ! 0 @ (replicate 2000 CHR ''a'' @ newline # replicate 2000 CHR ''b'') @
       gaps ! 1 @ replicate 2000 CHR ''c'' @ tail"
proof -
  obtain gaps tail where g: "length gaps = 2" "\<forall>g \<in> set (tail # gaps). set g \<subseteq> {newline}"
      "three_lines = concat (map (\<lambda>(g, chunk). g @ chunk) (zip gaps
         [replicate 2000 CHR ''a'' @ newline # replicate 2000 CHR ''b'', replicate 2000 CHR ''c''])) @ tail"
    using split_preserves_text [of three_lines] unfolding split_three_lines by (auto simp: numeral_2_eq_2)
  then obtain g1 g2 where "gaps = [g1, g2]" by (auto simp: length_Suc_conv numeral_2_eq_2)
  with g show ?thesis by (intro exI [of _ gaps] exI [of _ tail]) simp
qed

text \<open>
  An empty message. When the first line of a long text has exactly 4096 bytes the first
  message of the split is empty, which Telegram refuses, so the delivery fails before anything
  was sent.
\<close>

theorem full_first_line_splits_off_empty_chunk:
  assumes "length p = 4096" and "newline \<notin> set p"
  shows "\<exists>chunks. splitForTelegram (p @ newline # rest) = [] # chunks"
proof -
  have split: "Split (p @ newline # rest) newline = p # Split rest newline"
    using assms(2) by (induction p) auto
  have "cut_paragraph [] [] p = ([], [], p)"
    using assms(1) by (subst cut_paragraph.simps) (simp add: telegramMessageLimit_def)
  then have run: "paragraph_loop [] [] (Split (p @ newline # rest) newline) = paragraph_loop [[]] p (Split rest newline)"
    using assms(1) by (simp add: split telegramMessageLimit_def)
  obtain more where "fst (paragraph_loop [[]] p (Split rest newline)) = [] # more"
    using paragraph_loop_extends [of "[[]]" p "Split rest newline"] by auto
  then show ?thesis
    using assms(1) by (auto simp: splitForTelegram_def telegramMessageLimit_def run split: prod.splits)
qed

theorem full_first_line_splits_off_empty_chunk_witness:
  "\<exists>chunks. splitForTelegram (replicate 4096 CHR ''a'' @ newline # ''b'') = [] # chunks"
  by (rule full_first_line_splits_off_empty_chunk) (auto simp: newline_def)

text \<open>
  A delivery that reports success sent every part, in order, to the user's own chat, and one
  that fails has sent a prefix of the parts: what the outside world sees is the requests for the
  parts of the text and nothing else.
\<close>

theorem telegram_delivery_sends_the_parts:
  assumes "\<And>req h. snd (do_request req h) = h @ [req]"
    and "SendTelegram_Execute unmarshal do_request baseURL sealer arguments env s h = (r, s', h')"
  shows "(\<exists>token chatID message n. h' = h @ map (telegram_request baseURL token chatID) (take n (splitForTelegram message)) \<and>
      (n = 0 \<or> unmarshal arguments = Inr message \<and> fst (TelegramDelivery sealer (Env_UserID env) s) = Some (token, chatID)) \<and>
      (\<forall>msg. r = Inr msg \<longrightarrow> n = length (splitForTelegram message) \<and> 0 < n))"
proof -
  note log = send_chunks_log [OF assms(1)]
  show ?thesis
  proof (cases "\<exists>message token chatID s1. unmarshal arguments = Inr message \<and> TrimSpace message \<noteq> [] \<and>
      TelegramDelivery sealer (Env_UserID env) s = (Some (token, chatID), s1)")
    case False
    then have "h' = h \<and> (\<exists>e. r = Inl e)"
      using assms(2) by (auto simp: SendTelegram_Execute_def split: sum.splits if_splits prod.splits option.splits)
    then show ?thesis by (intro exI [of _ "[]"] exI [of _ 0]) auto
  next
    case True
    then obtain message token chatID s1 where d: "unmarshal arguments = Inr message" "TrimSpace message \<noteq> []"
        "TelegramDelivery sealer (Env_UserID env) s = (Some (token, chatID), s1)" by blast
    obtain e h1 where sc: "send_chunks do_request baseURL token chatID (splitForTelegram message) h = (e, h1)"
      by (cases "send_chunks do_request baseURL token chatID (splitForTelegram message) h")
    from log [OF sc] obtain n where n: "h1 = h @ map (telegram_request baseURL token chatID) (take n (splitForTelegram message))"
        "e = None \<longrightarrow> n = length (splitForTelegram message)" by blast
    have "h' = h1" and "\<forall>msg. r = Inr msg \<longrightarrow> e = None"
      using assms(2) by (auto simp: SendTelegram_Execute_def Let_def d sc split: option.splits)
    moreover have "splitForTelegram message \<noteq> []" using d(2) by (rule split_nonempty)
    ultimately show ?thesis using n d by (intro exI [of _ token] exI [of _ chatID] exI [of _ message] exI [of _ n]) auto
  qed
qed

theorem telegram_delivery_sends_the_parts_witness:
  "\<exists>s' h'. SendTelegram_Execute (\<lambda>_. Inr ''hello'') always_ok ''https://t'' (Some demo_sealer) []
       \<lparr>Env_RunID = ''r1'', Env_AgentID = ''a1'', Env_UserID = OwnerUserID\<rparr> broken_server [] = (Inr ''Message sent.'', s', h') \<and>
     h' = [telegram_request ''https://t'' ''tok'' ''42'' ''hello'']"
proof -
  let ?env = "\<lparr>Env_RunID = ''r1'', Env_AgentID = ''a1'', Env_UserID = OwnerUserID\<rparr>"
  let ?run = "SendTelegram_Execute (\<lambda>_. Inr ''hello'') always_ok ''https://t'' (Some demo_sealer) [] ?env broken_server []"
  have ok: "fst ?run = Inr ''Message sent.''" by code_simp
  obtain s' h' where run: "?run = (Inr ''Message sent.'', s', h')" using ok by (metis prod.collapse)
  have log: "\<And>req h. snd (always_ok req h) = h @ [req]" by (simp add: always_ok_def)
  have chan: "fst (TelegramDelivery (Some demo_sealer) (Env_UserID ?env) broken_server) = Some (''tok'', ''42'')"
    by code_simp
  have one: "splitForTelegram ''hello'' = [''hello'']" by (simp add: splitForTelegram_def telegramMessageLimit_def)
  from telegram_delivery_sends_the_parts [OF log run] chan
  have "h' = [telegram_request ''https://t'' ''tok'' ''42'' ''hello'']" by (auto simp: one)
  with run show ?thesis by blast
qed

end
