(* ===== verification/Fetch_Tools.thy ===== *)
theory Fetch_Tools
  imports Tools
begin

text \<open>
  \<open>tools/address_policy.go\<close>, \<open>tools/http_fetch.go\<close>, \<open>tools/web_search.go\<close> and the
  \<open>send_webhook\<close> tool of \<open>tools/delivery.go\<close>: the tools that reach a URL, and the policy that
  decides which addresses the ones that take it from the model may reach. Name resolution, the
  exchange of one request, \<open>net/url\<close> and \<open>encoding/json\<close> are parameters; following redirects is
  modelled.
\<close>

section \<open>Addresses\<close>

text \<open>A \<open>net.IP\<close>: four bytes (also when mapped into sixteen), or sixteen.\<close>

datatype ip = IP4 nat nat nat nat | IP6 "nat list"

fun IsLoopback :: "ip \<Rightarrow> bool" where
  "IsLoopback (IP4 a b c d) \<longleftrightarrow> a = 127"
| "IsLoopback (IP6 bs) \<longleftrightarrow> bs = replicate 15 0 @ [1]"

fun IsPrivate :: "ip \<Rightarrow> bool" where
  "IsPrivate (IP4 a b c d) \<longleftrightarrow> a = 10 \<or> a = 172 \<and> b div 16 = 1 \<or> a = 192 \<and> b = 168"
| "IsPrivate (IP6 bs) \<longleftrightarrow> bs \<noteq> [] \<and> hd bs div 2 = 126"

fun IsUnspecified :: "ip \<Rightarrow> bool" where
  "IsUnspecified (IP4 a b c d) \<longleftrightarrow> a = 0 \<and> b = 0 \<and> c = 0 \<and> d = 0"
| "IsUnspecified (IP6 bs) \<longleftrightarrow> bs = replicate 16 0"

fun IsLinkLocalUnicast :: "ip \<Rightarrow> bool" where
  "IsLinkLocalUnicast (IP4 a b c d) \<longleftrightarrow> a = 169 \<and> b = 254"
| "IsLinkLocalUnicast (IP6 bs) \<longleftrightarrow>
     (case bs of x # y # _ \<Rightarrow> x = 254 \<and> y div 64 = 2 | _ \<Rightarrow> False)"

fun IsLinkLocalMulticast :: "ip \<Rightarrow> bool" where
  "IsLinkLocalMulticast (IP4 a b c d) \<longleftrightarrow> a = 224 \<and> b = 0 \<and> c = 0"
| "IsLinkLocalMulticast (IP6 bs) \<longleftrightarrow>
     (case bs of x # y # _ \<Rightarrow> x = 255 \<and> y mod 16 = 2 | _ \<Rightarrow> False)"

fun IsInterfaceLocalMulticast :: "ip \<Rightarrow> bool" where
  "IsInterfaceLocalMulticast (IP4 a b c d) \<longleftrightarrow> False"
| "IsInterfaceLocalMulticast (IP6 bs) \<longleftrightarrow>
     (case bs of x # y # _ \<Rightarrow> x = 255 \<and> y mod 16 = 1 | _ \<Rightarrow> False)"

definition isPublicAddress :: "ip \<Rightarrow> bool" where
  "isPublicAddress a \<longleftrightarrow>
     \<not> (IsLoopback a \<or> IsPrivate a \<or> IsUnspecified a \<or> IsLinkLocalUnicast a \<or>
        IsLinkLocalMulticast a \<or> IsInterfaceLocalMulticast a)"

text \<open>The code compares the canonical text; the addresses those texts denote.\<close>

definition isMetadataAddress :: "ip \<Rightarrow> bool" where
  "isMetadataAddress a \<longleftrightarrow>
     a = IP4 169 254 169 254 \<or>
     a = IP6 [0xFD, 0x00, 0x0E, 0xC2, 0, 0, 0, 0, 0, 0, 0, 0, 0, 0, 0x02, 0x54] \<or>
     a = IP4 169 254 170 2"

section \<open>The policy (address_policy.go)\<close>

record url =
  url_Scheme :: string
  url_Hostname :: string
  url_String :: string

text \<open>
  The network: resolving a name, exchanging one request, and the parsing of absolute and of
  relative references.
\<close>

record 'h net =
  net_lookup :: "string \<Rightarrow> 'h \<Rightarrow> ip list res \<times> 'h"
  net_exchange :: "'h http"
  url_Parse :: "string \<Rightarrow> url res"
  url_Resolve :: "url \<Rightarrow> string \<Rightarrow> url res"

definition ToLower :: "string \<Rightarrow> string" where
  "ToLower s = map (\<lambda>c. let n = (of_char c :: nat) in if 65 \<le> n \<and> n \<le> 90 then char_of (n + 32) else c) s"

definition policy_check :: "'h net \<Rightarrow> bool \<Rightarrow> url \<Rightarrow> 'h \<Rightarrow> go_error option \<times> 'h" where
  "policy_check nw allowPrivate target h =
     (if ToLower (url_Scheme target) \<notin> {''http'', ''https''} then
        (Some (Errorf ''only http and https urls may be used''), h)
      else if url_Hostname target = [] then (Some (Errorf ''the url has no host''), h)
      else (case net_lookup nw (url_Hostname target) h of
        (Inl e, h1) \<Rightarrow> (Some (Errorf (''could not resolve '' @ url_Hostname target)), h1)
      | (Inr addresses, h1) \<Rightarrow>
          if list_ex isMetadataAddress addresses then
            (Some (Errorf (''refusing to reach '' @ url_Hostname target
               @ '': it resolves to a cloud metadata endpoint'')), h1)
          else if allowPrivate then (None, h1)
          else if list_ex (\<lambda>a. \<not> isPublicAddress a) addresses then
            (Some (Errorf (''refusing to reach '' @ url_Hostname target
               @ '': it resolves to a private or link-local address'')), h1)
          else (None, h1)))"

section \<open>Following redirects\<close>

text \<open>
  The client of the two tools: \<open>http.Client.Do\<close> with their \<open>CheckRedirect\<close>. \<open>via\<close> counts the
  requests made so far; the sixth is refused. 301, 302 and 303 turn any method into GET
  without a body, 307 and 308 repeat the request.
\<close>

definition maxRedirects :: nat where "maxRedirects = 5"

definition url_error :: "string \<Rightarrow> string \<Rightarrow> go_error \<Rightarrow> go_error" where
  "url_error method u e =
     Errorf (take 1 method @ ToLower (drop 1 method) @ '' '' @ Quote u @ '': '' @ Error e)"

definition is_redirect :: "http_response \<Rightarrow> bool" where
  "is_redirect r \<longleftrightarrow> resp_status r \<in> {301, 302, 303, 307, 308} \<and> resp_location r \<noteq> []"

definition redirected_request :: "http_request \<Rightarrow> int \<Rightarrow> url \<Rightarrow> http_request" where
  "redirected_request req status u =
     (if status \<in> {301, 302, 303} then
        req\<lparr>req_method := MethodGet, req_url := url_String u, req_body := NoBody\<rparr>
      else req\<lparr>req_url := url_String u\<rparr>)"

function client_do ::
    "'h net \<Rightarrow> bool \<Rightarrow> url \<Rightarrow> http_request \<Rightarrow> nat \<Rightarrow> 'h \<Rightarrow> http_response res \<times> 'h" where
  "client_do nw allowPrivate u req via h =
     (case net_exchange nw req h of
        (Inl e, h1) \<Rightarrow> (Inl e, h1)
      | (Inr response, h1) \<Rightarrow>
          if \<not> is_redirect response then (Inr response, h1)
          else (case url_Resolve nw u (resp_location response) of
            Inl e \<Rightarrow> (Inl e, h1)
          | Inr next_url \<Rightarrow>
              let req1 = redirected_request req (resp_status response) next_url in
              if Suc via \<ge> maxRedirects then
                (Inl (url_error (req_method req1) (url_String next_url) (Errorf ''too many redirects'')), h1)
              else (case policy_check nw allowPrivate next_url h1 of
                (Some e, h2) \<Rightarrow> (Inl (url_error (req_method req1) (url_String next_url) e), h2)
              | (None, h2) \<Rightarrow> client_do nw allowPrivate next_url req1 (Suc via) h2)))"
  by pat_completeness auto
termination
  by (relation "measure (\<lambda>(_, _, _, _, via, _). maxRedirects - via)") auto

declare client_do.simps [simp del]

section \<open>The tools\<close>

definition bad_url :: "go_error \<Rightarrow> go_error" where
  "bad_url e = Errorf (''could not parse the url: '' @ Error e)"

text \<open>
  \<open>http.NewRequestWithContext\<close>: the text is parsed again, and the URL the request is made for is the
  one that gives.
\<close>

definition NewRequest :: "'h net \<Rightarrow> string \<Rightarrow> string \<Rightarrow> http_body \<Rightarrow> (url \<times> http_request) res" where
  "NewRequest nw method text body =
     (case url_Parse nw text of
        Inl e \<Rightarrow> Inl e
      | Inr u \<Rightarrow> Inr (u, \<lparr>req_method = method, req_url = text, req_headers = [], req_body = body\<rparr>))"

definition maxFetchBytes :: nat where "maxFetchBytes = 100 * 1024"

definition HTTPFetch_Execute ::
    "'h net \<Rightarrow> bool \<Rightarrow> (string \<Rightarrow> string res) \<Rightarrow> string \<Rightarrow> Env \<Rightarrow> 'h \<Rightarrow> string res \<times> 'h" where
  "HTTPFetch_Execute nw allowPrivate unmarshal arguments env h =
     (case unmarshal arguments of
        Inl e \<Rightarrow> (Inl (badArguments e), h)
      | Inr input \<Rightarrow>
          if input = [] then (Inl (Errorf ''a url is required''), h)
          else (case url_Parse nw input of
            Inl e \<Rightarrow> (Inl (bad_url e), h)
          | Inr target \<Rightarrow>
              (case policy_check nw allowPrivate target h of
                 (Some e, h1) \<Rightarrow> (Inl e, h1)
               | (None, h1) \<Rightarrow>
                   (case NewRequest nw MethodGet (url_String target) NoBody of
                      Inl e \<Rightarrow> (Inl e, h1)
                    | Inr (u, request) \<Rightarrow>
                        (case client_do nw allowPrivate u
                                (request\<lparr>req_headers := [(''User-Agent'', ''Taskd'')]\<rparr>) 0 h1 of
                           (Inl e, h2) \<Rightarrow> (Inl e, h2)
                         | (Inr response, h2) \<Rightarrow>
                             (case ReadLimited maxFetchBytes response of
                                Inl e \<Rightarrow> (Inl e, h2)
                              | Inr body \<Rightarrow>
                                  (Inr (''HTTP '' @ Itoa (resp_status response) @ [newline, newline] @ body), h2)))))))"

record webhook_input =
  webhook_URL :: string
  webhook_Payload :: string

definition SendWebhook_Execute ::
    "'h net \<Rightarrow> bool \<Rightarrow> (string \<Rightarrow> webhook_input res) \<Rightarrow> string \<Rightarrow> Env \<Rightarrow> 'h \<Rightarrow> string res \<times> 'h" where
  "SendWebhook_Execute nw allowPrivate unmarshal arguments env h =
     (case unmarshal arguments of
        Inl e \<Rightarrow> (Inl (badArguments e), h)
      | Inr input \<Rightarrow>
          if webhook_URL input = [] then (Inl (Errorf ''a url is required''), h)
          else
            let payload = (if webhook_Payload input = [] then ''{}'' else webhook_Payload input) in
            (case url_Parse nw (webhook_URL input) of
               Inl e \<Rightarrow> (Inl (bad_url e), h)
             | Inr target \<Rightarrow>
                 (case policy_check nw allowPrivate target h of
                    (Some e, h1) \<Rightarrow> (Inl e, h1)
                  | (None, h1) \<Rightarrow>
                      (case NewRequest nw MethodPost (url_String target) (RawBody payload) of
                         Inl e \<Rightarrow> (Inl e, h1)
                       | Inr (u, request) \<Rightarrow>
                           (case client_do nw allowPrivate u
                                   (request\<lparr>req_headers := [(''Content-Type'', ''application/json'')]\<rparr>) 0 h1 of
                              (Inl e, h2) \<Rightarrow> (Inl e, h2)
                            | (Inr response, h2) \<Rightarrow>
                                if resp_status response \<ge> 400 then
                                  (Inl (Errorf (''the webhook returned '' @ Itoa (resp_status response) @ '': ''
                                     @ TrimSpace (take 1024 (resp_body response)))), h2)
                                else (Inr (''Posted successfully (HTTP '' @ Itoa (resp_status response) @ '').''), h2))))))"

definition maxSearchResults :: int where "maxSearchResults = 10"

text \<open>\<open>url.QueryEscape\<close>.\<close>

definition hex_upper :: "nat \<Rightarrow> char" where
  "hex_upper n = (if n < 10 then char_of (48 + n) else char_of (55 + n))"

definition QueryEscape :: "string \<Rightarrow> string" where
  "QueryEscape s = concat (map (\<lambda>c.
     let n = (of_char c :: nat) in
     if 48 \<le> n \<and> n \<le> 57 \<or> 65 \<le> n \<and> n \<le> 90 \<or> 97 \<le> n \<and> n \<le> 122
        \<or> c \<in> {CHR ''-'', CHR ''_'', CHR ''.'', CHR ''~''} then [c]
     else if c = CHR '' '' then ''+''
     else [CHR ''%'', hex_upper (n div 16), hex_upper (n mod 16)]) s)"

record search_input =
  search_Query :: string
  search_Count :: int

record search_result =
  result_Title :: string
  result_URL :: string
  result_Description :: string

record WebSearch =
  search_baseURL :: string
  search_apiKey :: string

definition NewWebSearch :: "string \<Rightarrow> string \<Rightarrow> WebSearch" where
  "NewWebSearch baseURL apiKey =
     \<lparr>search_baseURL = TrimSuffix (if baseURL = [] then ''https://api.search.brave.com/res/v1'' else baseURL) ''/'',
      search_apiKey = apiKey\<rparr>"

definition result_lines :: "int \<times> search_result \<Rightarrow> string" where
  "result_lines = (\<lambda>(i, r). Itoa i @ ''. '' @ result_Title r @ [newline] @ ''   '' @ result_URL r @ [newline]
     @ ''   '' @ result_Description r @ [newline])"

definition WebSearch_Execute ::
    "WebSearch \<Rightarrow> 'h http \<Rightarrow> (string \<Rightarrow> search_input res) \<Rightarrow> (string \<Rightarrow> search_result list res) \<Rightarrow>
      string \<Rightarrow> Env \<Rightarrow> 'h \<Rightarrow> string res \<times> 'h" where
  "WebSearch_Execute ws do_request unmarshal decode arguments env h =
     (case unmarshal arguments of
        Inl e \<Rightarrow> (Inl (badArguments e), h)
      | Inr input \<Rightarrow>
          if TrimSpace (search_Query input) = [] then (Inl (Errorf ''a query is required''), h)
          else
            let count = (if search_Count input < 1 \<or> search_Count input > maxSearchResults
                         then maxSearchResults else search_Count input);
                request = \<lparr>req_method = MethodGet,
                  req_url = search_baseURL ws @ ''/web/search?q='' @ QueryEscape (search_Query input)
                    @ ''&count='' @ Itoa count,
                  req_headers = [(''Accept'', ''application/json''), (''X-Subscription-Token'', search_apiKey ws)],
                  req_body = NoBody\<rparr>
            in (case do_request request h of
                  (Inl e, h1) \<Rightarrow> (Inl e, h1)
                | (Inr response, h1) \<Rightarrow>
                    (case ReadLimited (512 * 1024) response of
                       Inl e \<Rightarrow> (Inl e, h1)
                     | Inr body \<Rightarrow>
                         if resp_status response \<noteq> StatusOK then
                           (Inl (Errorf (''the search provider returned '' @ Itoa (resp_status response) @ '': ''
                              @ TrimSpace body)), h1)
                         else (case decode body of
                            Inl e \<Rightarrow> (Inl (Errorf (''could not decode the search response: '' @ Error e)), h1)
                          | Inr results \<Rightarrow>
                              if results = [] then (Inr ''No results found.'', h1)
                              else (Inr (TrimRight1 (concat (map result_lines
                                     (zip [1..int (length results)] (take (nat count) results)))) newline), h1)))))"

section \<open>Lemmas\<close>

text \<open>
  What happened on the network, in order, and a network whose resolver and servers may answer
  as they like, depending on all that happened before.
\<close>

datatype net_event = Resolved string "ip list" | Sent http_request

definition traced_net ::
    "(net_event list \<Rightarrow> string \<Rightarrow> ip list res) \<Rightarrow> (net_event list \<Rightarrow> http_request \<Rightarrow> http_response res) \<Rightarrow>
      (string \<Rightarrow> url res) \<Rightarrow> (url \<Rightarrow> string \<Rightarrow> url res) \<Rightarrow> net_event list net" where
  "traced_net dns srv parse resolve =
     \<lparr>net_lookup = (\<lambda>host evs. case dns evs host of
          Inl e \<Rightarrow> (Inl e, evs) | Inr addresses \<Rightarrow> (Inr addresses, evs @ [Resolved host addresses])),
      net_exchange = (\<lambda>req evs. (srv evs req, evs @ [Sent req])),
      url_Parse = parse, url_Resolve = resolve\<rparr>"

definition addresses_ok :: "bool \<Rightarrow> ip list \<Rightarrow> bool" where
  "addresses_ok allowPrivate addresses \<longleftrightarrow>
     (\<forall>a \<in> set addresses. \<not> isMetadataAddress a \<and> (allowPrivate \<or> isPublicAddress a))"

text \<open>
  Each request directly follows the resolution of its own host, the one its URL's text parses to,
  to addresses the policy allows.
\<close>

inductive guarded :: "(string \<Rightarrow> url res) \<Rightarrow> bool \<Rightarrow> net_event list \<Rightarrow> bool" for parse allowPrivate where
  guarded_Nil: "guarded parse allowPrivate []"
| guarded_Resolved: "guarded parse allowPrivate evs \<Longrightarrow> guarded parse allowPrivate (evs @ [Resolved host addresses])"
| guarded_Sent: "guarded parse allowPrivate evs \<Longrightarrow> addresses_ok allowPrivate addresses \<Longrightarrow>
    parse (req_url req) = Inr u \<Longrightarrow> host = url_Hostname u \<Longrightarrow>
    guarded parse allowPrivate ((evs @ [Resolved host addresses]) @ [Sent req])"

text \<open>
  What is relied on in \<open>net/url\<close>: the text of a parsed URL, when it parses, and the text of a
  resolved reference denote a URL with the same host (\<open>String\<close> reassembles the URL).
\<close>

definition url_faithful :: "(string \<Rightarrow> url res) \<Rightarrow> (url \<Rightarrow> string \<Rightarrow> url res) \<Rightarrow> bool" where
  "url_faithful parse resolve \<longleftrightarrow>
     (\<forall>text u v. parse text = Inr u \<longrightarrow> parse (url_String u) = Inr v \<longrightarrow> url_Hostname v = url_Hostname u) \<and>
     (\<forall>base text u. resolve base text = Inr u \<longrightarrow> (\<exists>v. parse (url_String u) = Inr v \<and> url_Hostname v = url_Hostname u))"

fun is_sent :: "net_event \<Rightarrow> bool" where
  "is_sent (Sent req) = True"
| "is_sent (Resolved host addresses) = False"

definition sent_count :: "net_event list \<Rightarrow> nat" where
  "sent_count evs = length (filter is_sent evs)"

lemma sent_count_snoc [simp]:
  "sent_count (evs @ [Sent req]) = Suc (sent_count evs)"
  "sent_count (evs @ [Resolved host addresses]) = sent_count evs"
  "sent_count [] = 0"
  by (simp_all add: sent_count_def)

lemma policy_check_passed:
  assumes "policy_check (traced_net dns srv parse resolve) allowPrivate u evs = (None, evs')"
  shows "\<exists>addresses. evs' = evs @ [Resolved (url_Hostname u) addresses] \<and> addresses_ok allowPrivate addresses"
  using assms
  by (auto simp: policy_check_def traced_net_def addresses_ok_def list_ex_iff split: if_splits sum.splits prod.splits)

lemma policy_check_refused:
  assumes "policy_check (traced_net dns srv parse resolve) allowPrivate u evs = (Some e, evs')"
  shows "evs' = evs \<or> (\<exists>addresses. evs' = evs @ [Resolved (url_Hostname u) addresses])"
  using assms
  by (auto simp: policy_check_def traced_net_def split: if_splits sum.splits prod.splits)

lemma client_do_guarded:
  assumes "url_faithful parse resolve"
    and "client_do (traced_net dns srv parse resolve) allowPrivate u req via
      (evs @ [Resolved host addresses]) = (r, evs')"
    and "guarded parse allowPrivate evs" and "addresses_ok allowPrivate addresses"
    and "parse (req_url req) = Inr v" and "host = url_Hostname v" and "sent_count evs = via" and "via < maxRedirects"
  shows "guarded parse allowPrivate evs' \<and> sent_count evs' \<le> maxRedirects"
  using assms(2-)
proof (induction "maxRedirects - via" arbitrary: u v req via evs host addresses r evs' rule: less_induct)
  case less
  let ?nw = "traced_net dns srv parse resolve" and ?evs = "evs @ [Resolved host addresses]"
  let ?evs1 = "?evs @ [Sent req]"
  have g1: "guarded parse allowPrivate ?evs1" using less.prems(2-5) by (rule guarded_Sent)
  have c1: "sent_count ?evs1 = Suc via" using less.prems(6) by (simp add: sent_count_def)
  have ex: "net_exchange ?nw req ?evs = (srv ?evs req, ?evs1)" by (simp add: traced_net_def)
  note run = less.prems(1) [unfolded client_do.simps [of ?nw allowPrivate u req via ?evs] ex]
  show ?case
  proof (cases "evs' = ?evs1 \<or> (\<exists>addrs next_url. evs' = ?evs1 @ [Resolved (url_Hostname (next_url :: url)) addrs])")
    case True
    then show ?thesis
      using g1 c1 less.prems(7) guarded_Resolved [OF g1] sent_count_snoc(2) [of ?evs1]
      by (elim disjE exE) (simp_all del: append_assoc)
  next
    case False
    obtain next_url :: url and response :: http_response and evs2 where step: "Suc via < maxRedirects"
        "url_Resolve ?nw u (resp_location response) = Inr next_url"
        "policy_check ?nw allowPrivate next_url ?evs1 = (None, evs2)"
        "client_do ?nw allowPrivate next_url (redirected_request req (resp_status response) next_url) (Suc via) evs2 = (r, evs')"
      using run False
      by (auto simp: Let_def not_le dest!: policy_check_refused split: sum.splits if_splits prod.splits option.splits)
    from policy_check_passed [OF step(3)] obtain addrs
      where evs2: "evs2 = ?evs1 @ [Resolved (url_Hostname next_url) addrs]" and ok: "addresses_ok allowPrivate addrs"
      by blast
    obtain v' where "parse (url_String next_url) = Inr v'" "url_Hostname next_url = url_Hostname v'"
      using assms(1) step(2) by (fastforce simp: url_faithful_def traced_net_def)
    then show ?thesis
      using step(1) by (intro less.hyps [OF _ step(4) [unfolded evs2] g1 ok _ _ c1]) (auto simp: redirected_request_def)
  qed
qed

text \<open>What both tools do once they have a URL: nothing is sent, or its request is followed to the end.\<close>

lemma policed_request_guarded:
  assumes "url_faithful parse resolve" and "parse input = Inr target"
    and "policy_check (traced_net dns srv parse resolve) allowPrivate target [] = (None, evs1)"
    and "NewRequest (traced_net dns srv parse resolve) method (url_String target) body = Inr (u, req)"
    and "client_do (traced_net dns srv parse resolve) allowPrivate u (req\<lparr>req_headers := hs\<rparr>) 0 evs1 = (r, evs)"
  shows "guarded parse allowPrivate evs \<and> sent_count evs \<le> 5"
proof -
  from policy_check_passed [OF assms(3)] obtain addresses
    where evs1: "evs1 = [] @ [Resolved (url_Hostname target) addresses]" and ok: "addresses_ok allowPrivate addresses" by auto
  have parsed: "parse (url_String target) = Inr u" and req: "parse (req_url req) = Inr u"
    using assms(4) by (auto simp: NewRequest_def traced_net_def split: sum.splits)
  have host: "url_Hostname target = url_Hostname u"
    using assms(1) [unfolded url_faithful_def, THEN conjunct1, rule_format, OF assms(2) parsed] by simp
  show ?thesis
    using client_do_guarded [OF assms(1) assms(5) [unfolded evs1] guarded_Nil ok _ host] req by (simp add: maxRedirects_def)
qed

lemma policy_check_events:
  assumes "policy_check (traced_net dns srv parse resolve) allowPrivate u [] = (r, evs)"
  shows "evs = [] \<or> (\<exists>host addresses. evs = [Resolved host addresses])"
  using assms policy_check_passed [of dns srv parse resolve allowPrivate u "[]" evs]
    policy_check_refused [of dns srv parse resolve allowPrivate u "[]" _ evs] by (cases r) auto

definition policed_call :: "net_event list net \<Rightarrow> bool \<Rightarrow> net_event list \<Rightarrow> bool" where
  "policed_call nw allowPrivate evs \<longleftrightarrow> evs = [] \<or> (\<exists>host addresses. evs = [Resolved host addresses]) \<or>
     (\<exists>input target evs1 method body u req hs r. url_Parse nw input = Inr target \<and>
        policy_check nw allowPrivate target [] = (None, evs1) \<and>
        NewRequest nw method (url_String target) body = Inr (u, req) \<and>
        client_do nw allowPrivate u (req\<lparr>req_headers := hs\<rparr>) 0 evs1 = (r, evs))"

lemma policed_call_unsent:
  "policed_call nw allowPrivate []"
  "policy_check (traced_net dns srv parse resolve) allowPrivate u [] = (r, evs) \<Longrightarrow> policed_call nw allowPrivate evs"
  unfolding policed_call_def by (simp, drule policy_check_events, blast)

lemma policed_call_done:
  "url_Parse nw input = Inr target \<Longrightarrow> policy_check nw allowPrivate target [] = (None, evs1) \<Longrightarrow>
   NewRequest nw method (url_String target) body = Inr (u, req) \<Longrightarrow>
   client_do nw allowPrivate u (req\<lparr>req_headers := hs\<rparr>) 0 evs1 = (r, evs) \<Longrightarrow> policed_call nw allowPrivate evs"
  unfolding policed_call_def by blast

lemma tools_are_policed:
  "HTTPFetch_Execute (traced_net dns srv parse resolve) allowPrivate unmarshal arguments env [] = (r, evs) \<Longrightarrow>
     policed_call (traced_net dns srv parse resolve) allowPrivate evs"
  "SendWebhook_Execute (traced_net dns srv parse resolve) allowPrivate unmarshal' arguments env [] = (r, evs) \<Longrightarrow>
     policed_call (traced_net dns srv parse resolve) allowPrivate evs"
  unfolding HTTPFetch_Execute_def SendWebhook_Execute_def Let_def
  by (auto intro: policed_call_unsent policed_call_done split: sum.splits if_splits prod.splits option.splits)

lemma policed_call_guarded:
  assumes "url_faithful parse resolve" and "policed_call (traced_net dns srv parse resolve) allowPrivate evs"
  shows "guarded parse allowPrivate evs \<and> sent_count evs \<le> 5"
  using assms(2) guarded_Nil [of parse] guarded_Resolved [OF guarded_Nil, of parse allowPrivate]
    policed_request_guarded [OF assms(1)]
  unfolding policed_call_def by (auto simp: traced_net_def sent_count_def)

section \<open>Properties\<close>

text \<open>
  C14: no request of a tool that takes its URL from the model escapes the policy. However the
  resolver and the servers answer, every request that \<open>http_fetch\<close> or \<open>send_webhook\<close> makes, the
  redirects included, directly follows a resolution of the host in that request's own URL
  to addresses none of which is a metadata endpoint nor, unless private addresses are allowed,
  private or link-local; and one call makes at most five requests. Relied on is that \<open>net/url\<close>
  writes a URL so that it parses back to the same host. (The transport resolves the host again
  when it connects; that resolution is outside the policy.)
\<close>

theorem fetch_requests_are_guarded:
  assumes "url_faithful parse resolve"
    and "HTTPFetch_Execute (traced_net dns srv parse resolve) allowPrivate unmarshal arguments env [] = (r, evs) \<or>
      SendWebhook_Execute (traced_net dns srv parse resolve) allowPrivate unmarshal' arguments env [] = (r, evs)"
  shows "guarded parse allowPrivate evs \<and> sent_count evs \<le> 5"
  using assms(2) by (elim disjE) (rule policed_call_guarded [OF assms(1)], erule tools_are_policed)+

text \<open>
  Two public hosts and a private one, with servers that redirect from the first to the second
  and from there to the third, and URLs of the form \<open>http://host/path\<close>.
\<close>

definition rebound_dns :: "net_event list \<Rightarrow> string \<Rightarrow> ip list res" where
  "rebound_dns evs host = Inr [if host \<in> {''a.example'', ''b.example''} then IP4 93 184 216 34 else IP4 10 0 0 7]"

definition redirecting :: "net_event list \<Rightarrow> http_request \<Rightarrow> http_response res" where
  "redirecting evs req = Inr \<lparr>resp_status = 302, resp_body = [],
     resp_location = (if req_url req = ''http://a.example/'' then ''http://b.example/x'' else ''http://lan/''), resp_broken = None\<rparr>"

definition demo_parse :: "string \<Rightarrow> url res" where
  "demo_parse text =
     (if take 7 text = ''http://'' then
        Inr \<lparr>url_Scheme = ''http'', url_Hostname = takeWhile (\<lambda>c. c \<noteq> CHR ''/'') (drop 7 text), url_String = text\<rparr>
      else Inl (Errorf ''unsupported url''))"

definition demo_net :: "net_event list net" where
  "demo_net = traced_net rebound_dns redirecting demo_parse (\<lambda>_. demo_parse)"

lemma demo_parse_faithful: "url_faithful demo_parse (\<lambda>_. demo_parse)"
  by (auto simp: url_faithful_def demo_parse_def split: if_splits)

theorem fetch_requests_are_guarded_witness:
  "\<exists>r evs. HTTPFetch_Execute demo_net False Inr ''http://a.example/'' \<lparr>Env_RunID = [], Env_AgentID = [], Env_UserID = []\<rparr> [] = (r, evs) \<and>
     is_err r \<and> map req_url (concat (map (\<lambda>e. case e of Sent q \<Rightarrow> [q] | Resolved h a \<Rightarrow> []) evs)) = [''http://a.example/'', ''http://b.example/x''] \<and>
     guarded demo_parse False evs"
proof -
  let ?run = "HTTPFetch_Execute demo_net False Inr ''http://a.example/'' \<lparr>Env_RunID = [], Env_AgentID = [], Env_UserID = []\<rparr> []"
  have "is_err (fst ?run)"
    "map req_url (concat (map (\<lambda>e. case e of Sent q \<Rightarrow> [q] | Resolved h a \<Rightarrow> []) (snd ?run))) = [''http://a.example/'', ''http://b.example/x'']"
    by code_simp+
  moreover have "?run = (fst ?run, snd ?run)" by simp
  moreover from fetch_requests_are_guarded [OF demo_parse_faithful disjI1 [OF this [unfolded demo_net_def]]]
  have "guarded demo_parse False (snd ?run)" by (simp add: demo_net_def)
  ultimately show ?thesis by (intro exI [of _ "fst ?run"] exI [of _ "snd ?run"] conjI)
qed

end
