(* ===== verification/Toolset.thy ===== *)
theory Toolset
  imports Delivery Fetch_Tools
begin

text \<open>
  \<open>tools/build.go\<close> and the tools as values of the \<open>Tool\<close> interface: the catalogue an
  installation offers, on the state the services share.
\<close>

section \<open>The world of a run\<close>

text \<open>
  The database server, the network, and the readings the clock will give.
\<close>

record 'h world =
  w_server :: server
  w_net :: 'h
  w_clock :: "nat \<Rightarrow> time"
  w_ticks :: nat

definition Now :: "'h world \<Rightarrow> time \<times> 'h world" where
  "Now w = (w_clock w (w_ticks w), w\<lparr>w_ticks := Suc (w_ticks w)\<rparr>)"

definition on_server :: "(server \<Rightarrow> 'a \<times> server) \<Rightarrow> 'h world \<Rightarrow> 'a \<times> 'h world" where
  "on_server f w = (case f (w_server w) of (a, s) \<Rightarrow> (a, w\<lparr>w_server := s\<rparr>))"

definition on_net :: "('h \<Rightarrow> 'a \<times> 'h) \<Rightarrow> 'h world \<Rightarrow> 'a \<times> 'h world" where
  "on_net f w = (case f (w_net w) of (a, h) \<Rightarrow> (a, w\<lparr>w_net := h\<rparr>))"

section \<open>The tools\<close>

text \<open>\<open>encoding/json\<close> on the arguments of each tool, and on the answer of the search provider.\<close>

record decoders =
  decode_fetch :: "string \<Rightarrow> string res"
  decode_webhook :: "string \<Rightarrow> webhook_input res"
  decode_memory_read :: "string \<Rightarrow> memory_read_input res"
  decode_memory_write :: "string \<Rightarrow> memory_write_input res"
  decode_search :: "string \<Rightarrow> search_input res"
  decode_results :: "string \<Rightarrow> search_result list res"
  decode_telegram :: "string \<Rightarrow> string res"

definition property :: "string \<Rightarrow> string \<Rightarrow> string \<Rightarrow> string \<times> json" where
  "property name ty desc =
     (name, JObject ((if ty = [] then [] else [(''type'', JString ty)]) @ [(''description'', JString desc)]))"

definition object_schema :: "(string \<times> json) list \<Rightarrow> string list \<Rightarrow> json" where
  "object_schema properties required =
     JObject [(''type'', JString ''object''), (''properties'', JObject properties),
       (''required'', JArray (map JString required))]"

definition HTTPFetch_tool :: "decoders \<Rightarrow> 'h net \<Rightarrow> bool \<Rightarrow> 'h world Tool" where
  "HTTPFetch_tool dec nw allowPrivate =
     \<lparr>Tool_Name = ToolHTTPFetch,
      Tool_Description = ''Fetch the contents of a URL over HTTP or HTTPS and return the response body as text.'',
      Tool_InputSchema = object_schema
        [property ''url'' ''string'' ''The absolute http:// or https:// URL to fetch.''] [''url''],
      Tool_Execute = (\<lambda>arguments env. on_net (HTTPFetch_Execute nw allowPrivate (decode_fetch dec) arguments env)),
      Tool_Configured = None\<rparr>"

definition SendWebhook_tool :: "decoders \<Rightarrow> 'h net \<Rightarrow> bool \<Rightarrow> 'h world Tool" where
  "SendWebhook_tool dec nw allowPrivate =
     \<lparr>Tool_Name = ToolSendWebhook,
      Tool_Description = ''POST a JSON payload to a URL. Use this to deliver a result to Discord, ntfy, '' @
        ''Home Assistant or any other service that accepts a webhook.'',
      Tool_InputSchema = object_schema
        [property ''url'' ''string'' ''The absolute https:// URL to post to.'',
         property ''payload'' [] ''The JSON body to send.''] [''url'', ''payload''],
      Tool_Execute = (\<lambda>arguments env. on_net (SendWebhook_Execute nw allowPrivate (decode_webhook dec) arguments env)),
      Tool_Configured = None\<rparr>"

definition namespace_property :: "string \<times> json" where
  "namespace_property = property ''namespace'' ''string'' ''Optional. Defaults to this agent's own private memory.''"

definition MemoryRead_tool :: "decoders \<Rightarrow> 'h world Tool" where
  "MemoryRead_tool dec =
     \<lparr>Tool_Name = ToolMemoryRead,
      Tool_Description = ''Read back what you remembered on earlier runs, newest first.'',
      Tool_InputSchema = object_schema
        [property ''limit'' ''integer''
           (''How many records to read. Required, and capped at '' @ Itoa MaxReadLimit @ ''.''),
         property ''key'' ''string'' ''Optional. Only return records stored under this key.'',
         namespace_property] [''limit''],
      Tool_Execute = (\<lambda>arguments env. on_server (MemoryRead_Execute (decode_memory_read dec) arguments env)),
      Tool_Configured = None\<rparr>"

definition MemoryWrite_tool :: "decoders \<Rightarrow> postgres \<Rightarrow> 'h world Tool" where
  "MemoryWrite_tool dec pg =
     \<lparr>Tool_Name = ToolMemoryWrite,
      Tool_Description = ''Remember something for your future runs. Records are kept newest-first under a key, '' @
        ''so later runs can compare what changed rather than describing the world afresh.'',
      Tool_InputSchema = object_schema
        [property ''key'' ''string'' ''A short label for this record, for example 'sentiment' or 'workout'.'',
         property ''content'' [] ''The value to remember. May be any JSON value.'',
         namespace_property] [''key'', ''content''],
      Tool_Execute = (\<lambda>arguments env. on_server (MemoryWrite_Execute pg (decode_memory_write dec) arguments env)),
      Tool_Configured = None\<rparr>"

definition WebSearch_tool :: "decoders \<Rightarrow> 'h net \<Rightarrow> WebSearch \<Rightarrow> 'h world Tool" where
  "WebSearch_tool dec nw ws =
     \<lparr>Tool_Name = ToolWebSearch,
      Tool_Description = ''Search the web and return the top results with their titles, URLs and descriptions.'',
      Tool_InputSchema = object_schema
        [property ''query'' ''string'' ''What to search for.'',
         property ''count'' ''integer'' (''How many results to return, at most '' @ Itoa maxSearchResults @ ''.'')]
        [''query''],
      Tool_Execute = (\<lambda>arguments env. on_net (WebSearch_Execute ws (net_exchange nw) (decode_search dec)
        (decode_results dec) arguments env)),
      Tool_Configured = None\<rparr>"

definition SendTelegram_tool :: "decoders \<Rightarrow> 'h net \<Rightarrow> string \<Rightarrow> Sealer option \<Rightarrow> 'h world Tool" where
  "SendTelegram_tool dec nw baseURL sealer =
     \<lparr>Tool_Name = ToolSendTelegram,
      Tool_Description = ''Send a message to the user's Telegram. Use this to deliver your result to them.'',
      Tool_InputSchema = object_schema
        [property ''text'' ''string'' ''The message to send. Plain text.''] [''text''],
      Tool_Execute = (\<lambda>arguments env w.
        case SendTelegram_Execute (decode_telegram dec) (net_exchange nw) (NewSendTelegram baseURL) sealer
               arguments env (w_server w) (w_net w) of
          (r, s, h) \<Rightarrow> (r, w\<lparr>w_server := s, w_net := h\<rparr>)),
      Tool_Configured = Some (\<lambda>userID. on_server (Configured sealer userID))\<rparr>"

section \<open>The catalogue (tools/build.go)\<close>

record Config =
  AllowPrivateAddresses :: bool
  SearchAPIKey :: string
  SearchBaseURL :: string
  TelegramBaseURL :: string

definition ConfigFromEnv :: "(string \<Rightarrow> string) \<Rightarrow> Config" where
  "ConfigFromEnv Getenv =
     \<lparr>AllowPrivateAddresses = (Getenv ''TASKD_ALLOW_PRIVATE_FETCH'' = ''true''),
      SearchAPIKey = Getenv ''TASKD_SEARCH_API_KEY'', SearchBaseURL = Getenv ''TASKD_SEARCH_BASE_URL'',
      TelegramBaseURL = Getenv ''TASKD_TELEGRAM_BASE_URL''\<rparr>"

text \<open>\<open>pool\<close> and \<open>settings\<close> are nil when they are \<open>None\<close>.\<close>

definition BuildRegistry ::
    "decoders \<Rightarrow> 'h net \<Rightarrow> postgres option \<Rightarrow> Sealer option option \<Rightarrow> Config \<Rightarrow> 'h world Registry" where
  "BuildRegistry dec nw pool settings config =
     (let r1 = Register (HTTPFetch_tool dec nw (AllowPrivateAddresses config)) NewRegistry;
          r2 = Register (SendWebhook_tool dec nw (AllowPrivateAddresses config)) r1;
          r3 = (case pool of None \<Rightarrow> r2
                | Some pg \<Rightarrow> Register (MemoryWrite_tool dec pg) (Register (MemoryRead_tool dec) r2));
          r4 = (if SearchAPIKey config \<noteq> []
                then Register (WebSearch_tool dec nw (NewWebSearch (SearchBaseURL config) (SearchAPIKey config))) r3
                else r3)
      in (case settings of None \<Rightarrow> r4
          | Some sealer \<Rightarrow> Register (SendTelegram_tool dec nw (TelegramBaseURL config) sealer) r4))"

end
