(* ===== verification/Api.thy ===== *)
theory Api
  imports Mux Sessions Toolset Agent_Store Cron_Schedule
begin

text \<open>
  \<open>pkg/scheduler\<close>: the REST API behind the dashboard. A request passes the session check, the
  multiplexer and its handler; the handlers work on the stores. A reply keeps what a handler
  hands to the JSON encoder as a value.
\<close>

section \<open>Requests, replies and the server\<close>

text \<open>
  What the handlers read of an \<open>http.Request\<close>: the method, the path as \<open>EscapedPath\<close> gives it,
  the value of the session cookie if there is one, and what reading the body gives.
\<close>

record api_request =
  rq_method :: string
  rq_escaped :: string
  rq_cookie :: "string option"
  rq_body :: "string res"

datatype payload =
    NoContent
  | ErrorBody string
  | StatusBody string
  | SignedIn bool
  | OverviewBody "AgentOverview list"
  | AgentBody Agent
  | ToolsBody "(string \<times> string) list"
  | ModelsBody "ModelEndpoint list"
  | MemoryBody "MemoryRecord list"
  | ScheduleBody Schedule
  | FireTimesBody "time list"
  | RunsBody "Run list"
  | RunBody Run
  | StepsBody "Step list"
  | InboxBody "InboxItem list" nat
  | SettingsBody Settings
  | SecretsBody "Secret list"
  | SecretBody Secret
  | RedirectTo string
  | DashboardFile string

record set_cookie =
  cookie_Value :: string
  cookie_MaxAge :: int

record reply =
  reply_status :: int
  reply_cookie :: "set_cookie option"
  reply_body :: payload

text \<open>\<open>json.Unmarshal\<close> into the targets of the handlers; where it decodes onto a value, that value is an argument.\<close>

record api_decoders =
  json_Agent :: "string \<Rightarrow> Agent \<Rightarrow> Agent res"
  json_Schedule :: "string \<Rightarrow> Schedule \<Rightarrow> Schedule res"
  json_Settings :: "string \<Rightarrow> Settings \<Rightarrow> Settings res"
  json_password :: "string \<Rightarrow> string res"
  json_value :: "string \<Rightarrow> string res"
  json_preview :: "string \<Rightarrow> (string \<times> string) res"
  json_updates :: "string \<Rightarrow> int list res"

text \<open>
  What a started server holds: its stores (the database and the sealer), the tools, and what of the
  outside the handlers reach. \<open>srv_files\<close> tells which names the embedded dashboard has.
\<close>

record 'h SchedulerServer =
  srv_pg :: postgres
  srv_sealer :: Sealer
  srv_toolConfig :: Config
  srv_registry :: "'h world Registry"
  srv_bcrypt :: bcrypt
  srv_time :: time_env
  srv_decode :: api_decoders
  srv_wire :: wire
  srv_http :: "'h http"
  srv_getenv :: "string \<Rightarrow> string"
  srv_files :: "string \<Rightarrow> bool"

text \<open>The state the handlers act on: the services' world and the random bytes to come.\<close>

record 'h api =
  api_world :: "'h world"
  api_rng :: string

definition api_server :: "'h api \<Rightarrow> server" where
  "api_server st = w_server (api_world st)"

definition api_tables :: "'h api \<Rightarrow> database" where
  "api_tables st = tables (api_server st)"

definition on_store :: "(server \<Rightarrow> 'a \<times> server) \<Rightarrow> 'h api \<Rightarrow> 'a \<times> 'h api" where
  "on_store f st = (case on_server f (api_world st) of (a, w) \<Rightarrow> (a, st\<lparr>api_world := w\<rparr>))"

definition on_store_rng :: "(string \<Rightarrow> server \<Rightarrow> 'a \<times> string \<times> server) \<Rightarrow> 'h api \<Rightarrow> 'a \<times> 'h api" where
  "on_store_rng f st =
     (case f (api_rng st) (w_server (api_world st)) of
        (a, rng, s) \<Rightarrow> (a, st\<lparr>api_world := (api_world st)\<lparr>w_server := s\<rparr>, api_rng := rng\<rparr>))"

definition on_http :: "('h \<Rightarrow> 'a \<times> 'h) \<Rightarrow> 'h api \<Rightarrow> 'a \<times> 'h api" where
  "on_http f st = (case on_net f (api_world st) of (a, w) \<Rightarrow> (a, st\<lparr>api_world := w\<rparr>))"

definition clock_Now :: "'h api \<Rightarrow> time \<times> 'h api" where
  "clock_Now st = (case Now (api_world st) of (t, w) \<Rightarrow> (t, st\<lparr>api_world := w\<rparr>))"

section \<open>Answering (api_agents.go)\<close>

definition StatusCreated :: int where "StatusCreated = 201"
definition StatusNoContent :: int where "StatusNoContent = 204"
definition StatusMovedPermanently :: int where "StatusMovedPermanently = 301"
definition StatusBadRequest :: int where "StatusBadRequest = 400"
definition StatusUnauthorized :: int where "StatusUnauthorized = 401"
definition StatusNotFound :: int where "StatusNotFound = 404"
definition StatusInternalServerError :: int where "StatusInternalServerError = 500"
definition StatusBadGateway :: int where "StatusBadGateway = 502"
definition StatusServiceUnavailable :: int where "StatusServiceUnavailable = 503"

lemmas http_status_defs =
  StatusOK_def StatusCreated_def StatusNoContent_def StatusMovedPermanently_def StatusBadRequest_def
  StatusUnauthorized_def StatusNotFound_def StatusInternalServerError_def StatusBadGateway_def
  StatusServiceUnavailable_def

definition writeJSON :: "int \<Rightarrow> payload \<Rightarrow> reply" where
  "writeJSON status body = \<lparr>reply_status = status, reply_cookie = None, reply_body = body\<rparr>"

definition writeError :: "int \<Rightarrow> string \<Rightarrow> reply" where
  "writeError status message = writeJSON status (ErrorBody message)"

text \<open>None is the case that was no error.\<close>

definition writeStoreError :: "go_error option \<Rightarrow> reply option" where
  "writeStoreError err =
     (case err of
        None \<Rightarrow> None
      | Some e \<Rightarrow>
          if e = ErrNotFound then Some (writeError StatusNotFound ''not found'')
          else Some (writeError StatusInternalServerError (Error e)))"

definition decodeBody :: "api_request \<Rightarrow> (string \<Rightarrow> 'a res) \<Rightarrow> reply + 'a" where
  "decodeBody rq decode =
     (case rq_body rq of
        Inl e \<Rightarrow> Inl (writeError StatusBadRequest (Error e))
      | Inr body \<Rightarrow>
          (case decode body of
             Inl e \<Rightarrow> Inl (writeError StatusBadRequest (Error e))
           | Inr target \<Rightarrow> Inr target))"

text \<open>
  The two shapes in which a handler ends a call on a store: any error is internal, or
  \<open>writeStoreError\<close> tells a missing row from the others.
\<close>

definition or_internal :: "('a \<Rightarrow> 'h api \<Rightarrow> reply \<times> 'h api) \<Rightarrow> 'a res \<times> 'h api \<Rightarrow> reply \<times> 'h api" where
  "or_internal k p =
     (case p of
        (Inl e, st) \<Rightarrow> (writeError StatusInternalServerError (Error e), st)
      | (Inr a, st) \<Rightarrow> k a st)"

definition or_store_error :: "('a \<Rightarrow> 'h api \<Rightarrow> reply \<times> 'h api) \<Rightarrow> 'a res \<times> 'h api \<Rightarrow> reply \<times> 'h api" where
  "or_store_error k p =
     (case p of
        (Inl e, st) \<Rightarrow> (the (writeStoreError (Some e)), st)
      | (Inr a, st) \<Rightarrow> k a st)"

definition json_ok :: "('a \<Rightarrow> payload) \<Rightarrow> 'a \<Rightarrow> 'h api \<Rightarrow> reply \<times> 'h api" where
  "json_ok f a st = (writeJSON StatusOK (f a), st)"

definition no_content :: "unit \<Rightarrow> 'h api \<Rightarrow> reply \<times> 'h api" where
  "no_content u st = (\<lparr>reply_status = StatusNoContent, reply_cookie = None, reply_body = NoContent\<rparr>, st)"

section \<open>Agents (api_agents.go)\<close>

definition handleListAgents :: "'h api \<Rightarrow> reply \<times> 'h api" where
  "handleListAgents st = or_internal (json_ok OverviewBody) (on_store (ListOverview OwnerUserID) st)"

text \<open>One call of the model provider with the agent's endpoint and credential.\<close>

definition validation_request :: "Agent \<Rightarrow> Request" where
  "validation_request agent =
     \<lparr>Request_Model = Agent_Model agent,
      Request_Messages = [\<lparr>Message_Role = RoleUser, Message_Content = ''respond with 'ok'' @ [CHR 0x27], Message_ToolCalls = [],
        Message_ToolCallID = []\<rparr>],
      Request_Tools = []\<rparr>"

definition validation_key :: "'h SchedulerServer \<Rightarrow> Agent \<Rightarrow> 'h api \<Rightarrow> string res \<times> 'h api" where
  "validation_key srv agent st =
     (if Agent_SecretName agent \<noteq> [] \<and> Agent_SecretName agent \<noteq> DefaultSecretName then
        (case on_store (Reveal (srv_sealer srv) OwnerUserID (Agent_SecretName agent)) st of
           (Inl e, st1) \<Rightarrow>
             (Inl (Errorf (''invalid credential '' @ Quote (Agent_SecretName agent) @ '': '' @ Error e)), st1)
         | (Inr val, st1) \<Rightarrow> (Inr val, st1))
      else (Inr (srv_getenv srv ''TASKD_MODEL_API_KEY''), st))"

definition validateAgentModel :: "'h SchedulerServer \<Rightarrow> Agent \<Rightarrow> 'h api \<Rightarrow> go_error option \<times> 'h api" where
  "validateAgentModel srv agent st =
     (if srv_getenv srv ''TASKD_SKIP_VALIDATION'' = ''true'' then (None, st)
      else (case validation_key srv agent st of
        (Inl e, st1) \<Rightarrow> (Some e, st1)
      | (Inr apiKey, st1) \<Rightarrow>
          (case on_http (Complete (srv_wire srv) (srv_http srv) (llm_New (Agent_BaseURL agent) apiKey)
                  (validation_request agent)) st1 of
             (Inl e, st2) \<Rightarrow> (Some (Errorf (''provider validation failed: '' @ Error e)), st2)
           | (Inr _, st2) \<Rightarrow> (None, st2))))"

text \<open>The struct \<open>model.Agent{Enabled: true}\<close>.\<close>

definition blank_Agent :: Agent where
  "blank_Agent =
     \<lparr>Agent_ID = [], Agent_Name = [], Agent_Description = [], Agent_Model = [], Agent_BaseURL = [],
      Agent_SystemPrompt = [], Agent_UserPrompt = [], Agent_Tools = None, Agent_MaxSteps = 0,
      Agent_MaxTokens = 0, Agent_MaxDurationSeconds = 0, Agent_SecretName = [], Agent_ContextMode = [],
      Agent_ContextRuns = 0, Agent_Enabled = True, Agent_CreatedAt = zero_time, Agent_UpdatedAt = zero_time\<rparr>"

text \<open>What creating and updating do with a decoded agent before it is stored.\<close>

definition checked_agent ::
    "'h SchedulerServer \<Rightarrow> Agent \<Rightarrow> (Agent \<Rightarrow> 'h api \<Rightarrow> reply \<times> 'h api) \<Rightarrow> 'h api \<Rightarrow> reply \<times> 'h api" where
  "checked_agent srv decoded k st =
     (let agent = ApplyDefaults decoded in
      case Validate agent of
        Some e \<Rightarrow> (writeError StatusBadRequest (Error e), st)
      | None \<Rightarrow>
          (case validateAgentModel srv agent st of
             (Some e, st1) \<Rightarrow> (writeError StatusBadRequest (Error e), st1)
           | (None, st1) \<Rightarrow> k agent st1))"

definition handleCreateAgent :: "'h SchedulerServer \<Rightarrow> api_request \<Rightarrow> 'h api \<Rightarrow> reply \<times> 'h api" where
  "handleCreateAgent srv rq st =
     (case decodeBody rq (\<lambda>body. json_Agent (srv_decode srv) body blank_Agent) of
        Inl r \<Rightarrow> (r, st)
      | Inr decoded \<Rightarrow>
          checked_agent srv decoded (\<lambda>agent st1.
            or_internal (\<lambda>created st2. (writeJSON StatusCreated (AgentBody created), st2))
              (on_store (AgentStore_Create (srv_pg srv) OwnerUserID agent) st1)) st)"

definition handleGetAgent :: "'h SchedulerServer \<Rightarrow> string \<Rightarrow> 'h api \<Rightarrow> reply \<times> 'h api" where
  "handleGetAgent srv i st =
     or_store_error (json_ok AgentBody) (on_store (AgentStore_Get (srv_pg srv) OwnerUserID i) st)"

definition handleUpdateAgent :: "'h SchedulerServer \<Rightarrow> string \<Rightarrow> api_request \<Rightarrow> 'h api \<Rightarrow> reply \<times> 'h api" where
  "handleUpdateAgent srv i rq st =
     or_store_error (\<lambda>stored st1.
       case decodeBody rq (\<lambda>body. json_Agent (srv_decode srv) body stored) of
         Inl r \<Rightarrow> (r, st1)
       | Inr decoded \<Rightarrow>
           checked_agent srv decoded (\<lambda>agent st2.
             or_store_error (json_ok AgentBody)
               (on_store (AgentStore_Update (srv_pg srv) OwnerUserID i agent) st2)) st1)
       (on_store (AgentStore_Get (srv_pg srv) OwnerUserID i) st)"

definition handleDeleteAgent :: "'h SchedulerServer \<Rightarrow> string \<Rightarrow> 'h api \<Rightarrow> reply \<times> 'h api" where
  "handleDeleteAgent srv i st =
     or_store_error no_content (on_store (AgentStore_Delete (srv_pg srv) OwnerUserID i) st)"

fun list_tools_loop :: "'h world Registry \<Rightarrow> string list \<Rightarrow> 'h world \<Rightarrow> (string \<times> string) list \<times> 'h world" where
  "list_tools_loop reg [] w = ([], w)"
| "list_tools_loop reg (name # names) w =
     (case Registry_Get reg name of
        None \<Rightarrow> list_tools_loop reg names w
      | Some tool \<Rightarrow>
          (case Available tool OwnerUserID w of
             (False, w1) \<Rightarrow> list_tools_loop reg names w1
           | (True, w1) \<Rightarrow>
               (case list_tools_loop reg names w1 of
                  (summaries, w2) \<Rightarrow> ((Tool_Name tool, Tool_Description tool) # summaries, w2))))"

definition handleListTools :: "'h SchedulerServer \<Rightarrow> 'h api \<Rightarrow> reply \<times> 'h api" where
  "handleListTools srv st =
     (case list_tools_loop (srv_registry srv) (Names (srv_registry srv)) (api_world st) of
        (summaries, w) \<Rightarrow> (writeJSON StatusOK (ToolsBody summaries), st\<lparr>api_world := w\<rparr>))"

definition endpoint :: "string \<Rightarrow> string \<Rightarrow> string \<Rightarrow> string \<Rightarrow> ModelEndpoint" where
  "endpoint name m url secret =
     \<lparr>Endpoint_Name = name, Endpoint_Model = m, Endpoint_BaseURL = url, Endpoint_SecretName = secret\<rparr>"

definition predefined :: "ModelEndpoint list" where
  "predefined =
     (let openai = ''https://api.openai.com/v1''; anthropic = ''https://api.anthropic.com/v1'';
          google = ''https://generativelanguage.googleapis.com/v1beta/openai''
      in [endpoint ''GPT-4o (OpenAI)'' ''gpt-4o'' openai ''openai_key'',
          endpoint ''GPT-4o Mini (OpenAI)'' ''gpt-4o-mini'' openai ''openai_key'',
          endpoint ''GPT-4 Turbo (OpenAI)'' ''gpt-4-turbo'' openai ''openai_key'',
          endpoint ''Gemini 1.5 Pro (Google)'' ''gemini-1.5-pro'' google ''google_key'',
          endpoint ''Gemini 1.5 Flash (Google)'' ''gemini-1.5-flash'' google ''google_key'',
          endpoint ''Gemini 1.0 Pro (Google)'' ''gemini-1.0-pro'' google ''google_key'',
          endpoint ''Claude Sonnet 5 (Anthropic)'' ''claude-sonnet-5'' anthropic ''anthropic_key'',
          endpoint ''Claude Opus 5 (Anthropic)'' ''claude-opus-5'' anthropic ''anthropic_key'',
          endpoint ''Claude Haiku 4.5 (Anthropic)'' ''claude-haiku-4-5'' anthropic ''anthropic_key''])"

definition provider_endpoints :: "CustomProvider \<Rightarrow> ModelEndpoint list" where
  "provider_endpoints cp =
     map (\<lambda>m. endpoint (m @ '' ('' @ Provider_Name cp @ '')'') m (Provider_BaseURL cp) (Provider_SecretName cp))
       (Provider_Models cp)"

text \<open>The empty list of results is Go's nil slice, which the encoder writes as \<open>null\<close>.\<close>

definition handleListModels :: "'h SchedulerServer \<Rightarrow> 'h api \<Rightarrow> reply \<times> 'h api" where
  "handleListModels srv st =
     or_internal (\<lambda>settings st1.
       or_internal (\<lambda>stored st2.
         (let secretNames = Secret_Name ` set stored;
              results = filter (\<lambda>pre. Endpoint_SecretName pre \<in> secretNames) predefined
                @ concat (map provider_endpoints (CustomProviders settings))
          in (writeJSON StatusOK (ModelsBody results), st2)))
         (on_store (SecretStore_List OwnerUserID) st1))
       (on_store (Settings_Get (Some (srv_sealer srv)) OwnerUserID) st)"

definition handleListMemory :: "'h SchedulerServer \<Rightarrow> string \<Rightarrow> 'h api \<Rightarrow> reply \<times> 'h api" where
  "handleListMemory srv agentID st =
     or_store_error (\<lambda>_ st1.
       or_internal (json_ok MemoryBody)
         (on_store (MemoryStore_ListByAgent (srv_pg srv) OwnerUserID agentID MaxRecordsPerNamespace) st1))
       (on_store (AgentStore_Get (srv_pg srv) OwnerUserID agentID) st)"

definition handleDeleteMemory :: "'h SchedulerServer \<Rightarrow> string \<Rightarrow> 'h api \<Rightarrow> reply \<times> 'h api" where
  "handleDeleteMemory srv i st =
     or_store_error no_content (on_store (MemoryStore_Delete (srv_pg srv) OwnerUserID i) st)"

section \<open>Schedules and runs (api_schedules.go)\<close>

definition defaultRunListLimit :: nat where "defaultRunListLimit = 100"

definition previewFireCount :: nat where "previewFireCount = 5"

text \<open>The struct \<open>model.Schedule{Enabled: true}\<close>.\<close>

definition blank_Schedule :: Schedule where
  "blank_Schedule =
     \<lparr>Schedule_ID = [], Schedule_AgentID = [], Schedule_CronExpression = [], Schedule_Timezone = [],
      Schedule_Enabled = True, Schedule_NextFireAt = None, Schedule_LastFiredAt = None,
      Schedule_CreatedAt = zero_time, Schedule_UpdatedAt = zero_time\<rparr>"

definition handleSetSchedule :: "'h SchedulerServer \<Rightarrow> string \<Rightarrow> api_request \<Rightarrow> 'h api \<Rightarrow> reply \<times> 'h api" where
  "handleSetSchedule srv agentID rq st =
     or_store_error (\<lambda>_ st1.
       case decodeBody rq (\<lambda>body. json_Schedule (srv_decode srv) body blank_Schedule) of
         Inl r \<Rightarrow> (r, st1)
       | Inr requested \<Rightarrow>
           (case Parse (srv_time srv) (Schedule_CronExpression requested) (Schedule_Timezone requested) of
              Inl e \<Rightarrow> (writeError StatusBadRequest (Error e), st1)
            | Inr spec \<Rightarrow>
                (case clock_Now st1 of (now, st2) \<Rightarrow>
                   let nextFireAt = Next spec now '''' in
                   if IsZero nextFireAt then
                     (writeError StatusBadRequest ''schedule has no upcoming fire time'', st2)
                   else or_internal (json_ok ScheduleBody)
                     (on_store (ScheduleStore_Upsert (srv_pg srv) OwnerUserID agentID requested nextFireAt '''') st2))))
       (on_store (AgentStore_Get (srv_pg srv) OwnerUserID agentID) st)"

definition handleGetSchedule :: "'h SchedulerServer \<Rightarrow> string \<Rightarrow> 'h api \<Rightarrow> reply \<times> 'h api" where
  "handleGetSchedule srv i st =
     or_store_error (json_ok ScheduleBody) (on_store (ScheduleStore_GetByAgent (srv_pg srv) OwnerUserID i) st)"

definition handleDeleteSchedule :: "'h SchedulerServer \<Rightarrow> string \<Rightarrow> 'h api \<Rightarrow> reply \<times> 'h api" where
  "handleDeleteSchedule srv i st =
     or_store_error no_content (on_store (DeleteByAgent (srv_pg srv) OwnerUserID i) st)"

fun preview_loop :: "Spec \<Rightarrow> nat \<Rightarrow> time \<Rightarrow> time list" where
  "preview_loop spec 0 at = []"
| "preview_loop spec (Suc n) at =
     (let at1 = Next spec at '''' in if IsZero at1 then [] else at1 # preview_loop spec n at1)"

definition handlePreviewSchedule :: "'h SchedulerServer \<Rightarrow> api_request \<Rightarrow> 'h api \<Rightarrow> reply \<times> 'h api" where
  "handlePreviewSchedule srv rq st =
     (case decodeBody rq (json_preview (srv_decode srv)) of
        Inl r \<Rightarrow> (r, st)
      | Inr (cronExpression, timezone) \<Rightarrow>
          (case Parse (srv_time srv) cronExpression timezone of
             Inl e \<Rightarrow> (writeError StatusBadRequest (Error e), st)
           | Inr spec \<Rightarrow>
               (case clock_Now st of (at, st1) \<Rightarrow>
                  (writeJSON StatusOK (FireTimesBody (preview_loop spec previewFireCount at)), st1))))"

definition handleListRuns :: "'h SchedulerServer \<Rightarrow> string \<Rightarrow> 'h api \<Rightarrow> reply \<times> 'h api" where
  "handleListRuns srv agentID st =
     or_store_error (\<lambda>_ st1.
       or_internal (json_ok RunsBody)
         (on_store (RunStore_ListByAgent (srv_pg srv) OwnerUserID agentID defaultRunListLimit) st1))
       (on_store (AgentStore_Get (srv_pg srv) OwnerUserID agentID) st)"

definition handleTriggerRun :: "'h SchedulerServer \<Rightarrow> string \<Rightarrow> 'h api \<Rightarrow> reply \<times> 'h api" where
  "handleTriggerRun srv agentID st =
     or_store_error (\<lambda>agent st1.
       case clock_Now st1 of (now, st2) \<Rightarrow>
         or_internal (\<lambda>run st3. (writeJSON StatusCreated (RunBody run), st3))
           (on_store (RunStore_Create (srv_pg srv) OwnerUserID (Agent_ID agent) None TriggerManual RunPending now) st2))
       (on_store (AgentStore_Get (srv_pg srv) OwnerUserID agentID) st)"

definition handleGetRun :: "'h SchedulerServer \<Rightarrow> string \<Rightarrow> 'h api \<Rightarrow> reply \<times> 'h api" where
  "handleGetRun srv i st =
     or_store_error (json_ok RunBody) (on_store (RunStore_Get (srv_pg srv) OwnerUserID i) st)"

definition handleListRunSteps :: "'h SchedulerServer \<Rightarrow> string \<Rightarrow> 'h api \<Rightarrow> reply \<times> 'h api" where
  "handleListRunSteps srv runID st =
     or_store_error (\<lambda>_ st1.
       or_internal (json_ok StepsBody) (on_store (StepStore_ListByRun (srv_pg srv) OwnerUserID runID) st1))
       (on_store (RunStore_Get (srv_pg srv) OwnerUserID runID) st)"

section \<open>The inbox and the settings (api_inbox.go)\<close>

definition inboxLimit :: nat where "inboxLimit = 100"

definition handleInbox :: "'h api \<Rightarrow> reply \<times> 'h api" where
  "handleInbox st = or_internal (json_ok (\<lambda>(items, unread). InboxBody items unread)) (on_store (Inbox OwnerUserID inboxLimit) st)"

definition handleMarkRead :: "'h SchedulerServer \<Rightarrow> string \<Rightarrow> 'h api \<Rightarrow> reply \<times> 'h api" where
  "handleMarkRead srv i st =
     (case clock_Now st of (now, st1) \<Rightarrow>
        or_store_error no_content (on_store (MarkRead (srv_pg srv) OwnerUserID i now) st1))"

definition handleGetSettings :: "'h SchedulerServer \<Rightarrow> 'h api \<Rightarrow> reply \<times> 'h api" where
  "handleGetSettings srv st =
     or_internal (json_ok SettingsBody) (on_store (Settings_Get (Some (srv_sealer srv)) OwnerUserID) st)"

definition handleUpdateSettings :: "'h SchedulerServer \<Rightarrow> api_request \<Rightarrow> 'h api \<Rightarrow> reply \<times> 'h api" where
  "handleUpdateSettings srv rq st =
     or_internal (\<lambda>stored st1.
       case decodeBody rq (\<lambda>body. json_Settings (srv_decode srv) body stored) of
         Inl r \<Rightarrow> (r, st1)
       | Inr settings \<Rightarrow>
           or_internal (json_ok SettingsBody)
             (on_store (Settings_Update (Some (srv_sealer srv)) OwnerUserID settings) st1))
       (on_store (Settings_Get (Some (srv_sealer srv)) OwnerUserID) st)"

definition telegramBaseURL :: "'h SchedulerServer \<Rightarrow> string" where
  "telegramBaseURL srv =
     (let configured = TelegramBaseURL (srv_toolConfig srv) in
      if configured \<noteq> [] then TrimSuffix configured ''/'' else ''https://api.telegram.org'')"

definition getUpdates_request :: "string \<Rightarrow> string \<Rightarrow> http_request" where
  "getUpdates_request baseURL token =
     \<lparr>req_method = MethodGet, req_url = baseURL @ ''/bot'' @ token @ ''/getUpdates'', req_headers = [],
      req_body = NoBody\<rparr>"

text \<open>The chat of the last update that has one; 0 when none has.\<close>

fun last_chat :: "int \<Rightarrow> int list \<Rightarrow> int" where
  "last_chat chatID [] = chatID"
| "last_chat chatID (i # is) = last_chat (if i \<noteq> 0 then i else chatID) is"

definition handleDetectChat :: "'h SchedulerServer \<Rightarrow> 'h api \<Rightarrow> reply \<times> 'h api" where
  "handleDetectChat srv st =
     or_internal (\<lambda>token st1.
       if token = [] then
         (writeError StatusBadRequest ''store a bot token first, then send /start to your bot'', st1)
       else (case on_http (srv_http srv (getUpdates_request (telegramBaseURL srv) token)) st1 of
          (Inl e, st2) \<Rightarrow> (writeError StatusBadGateway (Error e), st2)
        | (Inr response, st2) \<Rightarrow>
            (case ReadLimited (2 ^ 20) response of
               Inl e \<Rightarrow> (writeError StatusBadGateway (Error e), st2)
             | Inr body \<Rightarrow>
                 if resp_status response \<noteq> StatusOK then
                   (writeError StatusBadGateway
                      (''telegram returned '' @ Itoa (resp_status response) @ '': '' @ TrimSpace body), st2)
                 else (case json_updates (srv_decode srv) body of
                    Inl _ \<Rightarrow> (writeError StatusBadGateway ''could not decode the Telegram response'', st2)
                  | Inr ids \<Rightarrow>
                      let chatID = last_chat 0 ids in
                      if chatID = 0 then
                        (writeError StatusNotFound ''no messages found: send /start to your bot, then try again'', st2)
                      else or_internal (\<lambda>settings st3.
                        or_internal (json_ok SettingsBody)
                          (on_store (Settings_Update (Some (srv_sealer srv)) OwnerUserID
                             (settings\<lparr>TelegramChatID := Itoa chatID\<rparr>)) st3))
                        (on_store (Settings_Get (Some (srv_sealer srv)) OwnerUserID) st2)))))
       (on_store (TelegramToken (Some (srv_sealer srv)) OwnerUserID) st)"

section \<open>Sessions and credentials (api_auth.go)\<close>

definition isPublicPath :: "string \<Rightarrow> bool" where
  "isPublicPath path \<longleftrightarrow>
     (if path = ''/healthz'' then True
      else if path = ''/api/login'' then True
      else if path = ''/api/session'' then True
      else if \<not> prefix ''/api/'' path then True
      else False)"

definition notSignedIn :: reply where
  "notSignedIn = writeError StatusUnauthorized ''not signed in''"

text \<open>\<open>int(store.SessionLifetime.Seconds())\<close>.\<close>

definition session_cookie :: "string \<Rightarrow> set_cookie" where
  "session_cookie token = \<lparr>cookie_Value = token, cookie_MaxAge = SessionLifetime div Second\<rparr>"

definition handleLogin :: "'h SchedulerServer \<Rightarrow> api_request \<Rightarrow> 'h api \<Rightarrow> reply \<times> 'h api" where
  "handleLogin srv rq st =
     (case decodeBody rq (json_password (srv_decode srv)) of
        Inl r \<Rightarrow> (r, st)
      | Inr password \<Rightarrow>
          or_internal (\<lambda>ok st1.
            if \<not> ok then (writeError StatusUnauthorized ''incorrect password'', st1)
            else (case clock_Now st1 of (now, st2) \<Rightarrow>
              or_internal (\<lambda>token st3.
                ((writeJSON StatusOK (SignedIn True))\<lparr>reply_cookie := Some (session_cookie token)\<rparr>, st3))
                (on_store_rng (CreateSession OwnerUserID now) st2)))
            (on_store (CheckPassword (srv_bcrypt srv) OwnerUserID password) st))"

definition handleLogout :: "api_request \<Rightarrow> 'h api \<Rightarrow> reply \<times> 'h api" where
  "handleLogout rq st =
     (let st1 = (case rq_cookie rq of None \<Rightarrow> st | Some token \<Rightarrow> snd (on_store (DeleteSession token) st)) in
      ((writeJSON StatusOK (SignedIn False))\<lparr>reply_cookie := Some \<lparr>cookie_Value = [], cookie_MaxAge = -1\<rparr>\<rparr>, st1))"

definition handleSession :: "api_request \<Rightarrow> 'h api \<Rightarrow> reply \<times> 'h api" where
  "handleSession rq st =
     (case rq_cookie rq of
        None \<Rightarrow> (writeJSON StatusOK (SignedIn False), st)
      | Some token \<Rightarrow>
          (case clock_Now st of (now, st1) \<Rightarrow>
             (case on_store (UserForSession token now) st1 of
                (r, st2) \<Rightarrow> (writeJSON StatusOK (SignedIn (\<not> is_err r)), st2))))"

definition handleListSecrets :: "'h api \<Rightarrow> reply \<times> 'h api" where
  "handleListSecrets st = or_internal (json_ok SecretsBody) (on_store (SecretStore_List OwnerUserID) st)"

definition handlePutSecret :: "'h SchedulerServer \<Rightarrow> string \<Rightarrow> api_request \<Rightarrow> 'h api \<Rightarrow> reply \<times> 'h api" where
  "handlePutSecret srv name rq st =
     (case decodeBody rq (json_value (srv_decode srv)) of
        Inl r \<Rightarrow> (r, st)
      | Inr v \<Rightarrow>
          if TrimSpace v = [] then (writeError StatusBadRequest ''a value is required'', st)
          else or_internal (json_ok SecretBody)
            (on_store_rng (SecretStore_Put (srv_pg srv) (srv_sealer srv) OwnerUserID name v) st))"

definition handleDeleteSecret :: "string \<Rightarrow> 'h api \<Rightarrow> reply \<times> 'h api" where
  "handleDeleteSecret name st = or_store_error no_content (on_store (SecretStore_Delete OwnerUserID name) st)"

section \<open>The server (scheduler.go, dashboard.go)\<close>

text \<open>\<open>Ping\<close> sends an empty query.\<close>

definition handleHealth :: "'h api \<Rightarrow> reply \<times> 'h api" where
  "handleHealth st =
     (case on_store (pool_call (query (\<lambda>_. ()))) st of
        (Inl e, st1) \<Rightarrow> (writeError StatusServiceUnavailable (Error e), st1)
      | (Inr _, st1) \<Rightarrow> (writeJSON StatusOK (StatusBody ''ok''), st1))"

definition bundle_exists :: "(string \<Rightarrow> bool) \<Rightarrow> string \<Rightarrow> bool" where
  "bundle_exists files path =
     (let name = (if prefix ''/'' path then drop 1 path else path) in
      if name = [] then True else files name)"

text \<open>The path the file server of the bundle is asked for.\<close>

definition dashboard_Handler :: "(string \<Rightarrow> bool) \<Rightarrow> string \<Rightarrow> reply" where
  "dashboard_Handler files path =
     \<lparr>reply_status = StatusOK, reply_cookie = None,
      reply_body = DashboardFile (if \<not> bundle_exists files path then ''/'' else path)\<rparr>"

datatype api_endpoint =
    Login | Logout | Session | Health
  | ListAgents | CreateAgent | GetAgent string | UpdateAgent string | DeleteAgent string
  | ListTools | ListModels | ListMemory string | DeleteMemory string
  | SetSchedule string | GetSchedule string | DeleteSchedule string | PreviewSchedule
  | ListRuns string | TriggerRun string | GetRun string | ListRunSteps string
  | ListSecrets | PutSecret string | DeleteSecret string
  | ShowInbox | ReadRun string | GetSettings | UpdateSettings | DetectChat

definition agent_routes :: "api_endpoint route list" where
  "agent_routes =
     [(''GET'', [Lit ''api'', Lit ''agents''], \<lambda>_. ListAgents),
      (''POST'', [Lit ''api'', Lit ''agents''], \<lambda>_. CreateAgent),
      (''GET'', [Lit ''api'', Lit ''agents'', Wild], \<lambda>vs. GetAgent (hd vs)),
      (''PATCH'', [Lit ''api'', Lit ''agents'', Wild], \<lambda>vs. UpdateAgent (hd vs)),
      (''DELETE'', [Lit ''api'', Lit ''agents'', Wild], \<lambda>vs. DeleteAgent (hd vs)),
      (''GET'', [Lit ''api'', Lit ''tools''], \<lambda>_. ListTools),
      (''GET'', [Lit ''api'', Lit ''models''], \<lambda>_. ListModels),
      (''GET'', [Lit ''api'', Lit ''agents'', Wild, Lit ''memory''], \<lambda>vs. ListMemory (hd vs)),
      (''DELETE'', [Lit ''api'', Lit ''memory'', Wild], \<lambda>vs. DeleteMemory (hd vs))]"

definition schedule_routes :: "api_endpoint route list" where
  "schedule_routes =
     [(''PUT'', [Lit ''api'', Lit ''agents'', Wild, Lit ''schedule''], \<lambda>vs. SetSchedule (hd vs)),
      (''GET'', [Lit ''api'', Lit ''agents'', Wild, Lit ''schedule''], \<lambda>vs. GetSchedule (hd vs)),
      (''DELETE'', [Lit ''api'', Lit ''agents'', Wild, Lit ''schedule''], \<lambda>vs. DeleteSchedule (hd vs)),
      (''POST'', [Lit ''api'', Lit ''schedules'', Lit ''preview''], \<lambda>_. PreviewSchedule),
      (''GET'', [Lit ''api'', Lit ''agents'', Wild, Lit ''runs''], \<lambda>vs. ListRuns (hd vs)),
      (''POST'', [Lit ''api'', Lit ''agents'', Wild, Lit ''runs''], \<lambda>vs. TriggerRun (hd vs)),
      (''GET'', [Lit ''api'', Lit ''runs'', Wild], \<lambda>vs. GetRun (hd vs)),
      (''GET'', [Lit ''api'', Lit ''runs'', Wild, Lit ''steps''], \<lambda>vs. ListRunSteps (hd vs))]"

definition auth_routes :: "api_endpoint route list" where
  "auth_routes =
     [(''POST'', [Lit ''api'', Lit ''login''], \<lambda>_. Login),
      (''POST'', [Lit ''api'', Lit ''logout''], \<lambda>_. Logout),
      (''GET'', [Lit ''api'', Lit ''session''], \<lambda>_. Session)]"

definition secret_routes :: "api_endpoint route list" where
  "secret_routes =
     [(''GET'', [Lit ''api'', Lit ''secrets''], \<lambda>_. ListSecrets),
      (''PUT'', [Lit ''api'', Lit ''secrets'', Wild], \<lambda>vs. PutSecret (hd vs)),
      (''DELETE'', [Lit ''api'', Lit ''secrets'', Wild], \<lambda>vs. DeleteSecret (hd vs))]"

definition inbox_routes :: "api_endpoint route list" where
  "inbox_routes =
     [(''GET'', [Lit ''api'', Lit ''inbox''], \<lambda>_. ShowInbox),
      (''POST'', [Lit ''api'', Lit ''runs'', Wild, Lit ''read''], \<lambda>vs. ReadRun (hd vs)),
      (''GET'', [Lit ''api'', Lit ''settings''], \<lambda>_. GetSettings),
      (''PUT'', [Lit ''api'', Lit ''settings''], \<lambda>_. UpdateSettings),
      (''POST'', [Lit ''api'', Lit ''telegram'', Lit ''detect-chat''], \<lambda>_. DetectChat)]"

definition api_routes :: "api_endpoint route list" where
  "api_routes = agent_routes @ schedule_routes @ auth_routes @ secret_routes @ inbox_routes"

definition health_route :: "api_endpoint route" where
  "health_route = (''GET'', [Lit ''healthz''], \<lambda>_. Health)"

fun handle_endpoint :: "'h SchedulerServer \<Rightarrow> api_request \<Rightarrow> api_endpoint \<Rightarrow> 'h api \<Rightarrow> reply \<times> 'h api" where
  "handle_endpoint srv rq Login st = handleLogin srv rq st"
| "handle_endpoint srv rq Logout st = handleLogout rq st"
| "handle_endpoint srv rq Session st = handleSession rq st"
| "handle_endpoint srv rq Health st = handleHealth st"
| "handle_endpoint srv rq ListAgents st = handleListAgents st"
| "handle_endpoint srv rq CreateAgent st = handleCreateAgent srv rq st"
| "handle_endpoint srv rq (GetAgent i) st = handleGetAgent srv i st"
| "handle_endpoint srv rq (UpdateAgent i) st = handleUpdateAgent srv i rq st"
| "handle_endpoint srv rq (DeleteAgent i) st = handleDeleteAgent srv i st"
| "handle_endpoint srv rq ListTools st = handleListTools srv st"
| "handle_endpoint srv rq ListModels st = handleListModels srv st"
| "handle_endpoint srv rq (ListMemory i) st = handleListMemory srv i st"
| "handle_endpoint srv rq (DeleteMemory i) st = handleDeleteMemory srv i st"
| "handle_endpoint srv rq (SetSchedule i) st = handleSetSchedule srv i rq st"
| "handle_endpoint srv rq (GetSchedule i) st = handleGetSchedule srv i st"
| "handle_endpoint srv rq (DeleteSchedule i) st = handleDeleteSchedule srv i st"
| "handle_endpoint srv rq PreviewSchedule st = handlePreviewSchedule srv rq st"
| "handle_endpoint srv rq (ListRuns i) st = handleListRuns srv i st"
| "handle_endpoint srv rq (TriggerRun i) st = handleTriggerRun srv i st"
| "handle_endpoint srv rq (GetRun i) st = handleGetRun srv i st"
| "handle_endpoint srv rq (ListRunSteps i) st = handleListRunSteps srv i st"
| "handle_endpoint srv rq ListSecrets st = handleListSecrets st"
| "handle_endpoint srv rq (PutSecret i) st = handlePutSecret srv i rq st"
| "handle_endpoint srv rq (DeleteSecret i) st = handleDeleteSecret i st"
| "handle_endpoint srv rq ShowInbox st = handleInbox st"
| "handle_endpoint srv rq (ReadRun i) st = handleMarkRead srv i st"
| "handle_endpoint srv rq GetSettings st = handleGetSettings srv st"
| "handle_endpoint srv rq UpdateSettings st = handleUpdateSettings srv rq st"
| "handle_endpoint srv rq DetectChat st = handleDetectChat srv st"

definition mux_ServeHTTP :: "'h SchedulerServer \<Rightarrow> string \<Rightarrow> api_request \<Rightarrow> 'h api \<Rightarrow> reply \<times> 'h api" where
  "mux_ServeHTTP srv path rq st =
     (case mux_match (health_route # api_routes) (rq_method rq) (rq_escaped rq) of
        Redirect p \<Rightarrow> (writeJSON StatusMovedPermanently (RedirectTo p), st)
      | Endpoint e \<Rightarrow> handle_endpoint srv rq e st
      | Fallback \<Rightarrow> (dashboard_Handler (srv_files srv) path, st))"

definition requireSession ::
    "(string \<Rightarrow> api_request \<Rightarrow> 'h api \<Rightarrow> reply \<times> 'h api) \<Rightarrow> string \<Rightarrow> api_request \<Rightarrow> 'h api \<Rightarrow> reply \<times> 'h api" where
  "requireSession next_handler path rq st =
     (if isPublicPath path then next_handler path rq st
      else (case rq_cookie rq of
        None \<Rightarrow> (notSignedIn, st)
      | Some token \<Rightarrow>
          (case clock_Now st of (now, st1) \<Rightarrow>
             (case on_store (UserForSession token now) st1 of
                (Inl e, st2) \<Rightarrow> (notSignedIn, st2)
              | (Inr _, st2) \<Rightarrow> next_handler path rq st2))))"

text \<open>A request whose path does not unescape is answered by the HTTP server itself.\<close>

definition serve :: "'h SchedulerServer \<Rightarrow> api_request \<Rightarrow> 'h api \<Rightarrow> reply \<times> 'h api" where
  "serve srv rq st =
     (case PathUnescape (rq_escaped rq) of
        None \<Rightarrow> (writeJSON StatusBadRequest (ErrorBody ''400 Bad Request''), st)
      | Some path \<Rightarrow> requireSession (mux_ServeHTTP srv) path rq st)"

end
