(* ===== verification/Api_Logic.thy ===== *)
theory Api_Logic
  imports Api
begin

text \<open>
  How a request is followed through the server: the operations of the stores that only read, the
  contract of the ones that write, and the proof, made once for every contract, that whatever the
  contract says holds of every request.
\<close>

section \<open>Operations that read\<close>

text \<open>The server after such an operation has only used up some of the outcomes to come.\<close>

definition reads :: "(server \<Rightarrow> 'a \<times> server) \<Rightarrow> bool" where
  "reads f \<longleftrightarrow> (\<forall>s. \<exists>n. snd (f s) = s\<lparr>outcomes := drop n (outcomes s)\<rparr>)"

lemma readsI: "(\<And>s. \<exists>n. snd (f s) = s\<lparr>outcomes := drop n (outcomes s)\<rparr>) \<Longrightarrow> reads f"
  by (simp add: reads_def)

lemma readsD: "reads f \<Longrightarrow> f s = (a, s') \<Longrightarrow> \<exists>n. s' = s\<lparr>outcomes := drop n (outcomes s)\<rparr>"
  by (metis reads_def snd_conv)

lemma next_outcome_drop: "\<exists>n. snd (next_outcome s) = s\<lparr>outcomes := drop n (outcomes s)\<rparr>"
proof (cases "outcomes s")
  case Nil
  then show ?thesis by (intro exI [of _ 0]) (simp add: next_outcome.simps)
next
  case (Cons a list)
  then show ?thesis by (intro exI [of _ 1]) (simp add: next_outcome.simps)
qed

lemma reads_pool: "(\<And>s. snd (q s) = s) \<Longrightarrow> reads (pool_call q)"
  by (rule readsI, rule_tac q = q and s = s in pool_call_cases) (simp_all add: next_outcome_drop)

lemma reads_query [simp]: "reads (pool_call (query f))"
  by (rule reads_pool) (simp add: query_def)

lemma reads_query_row [simp]: "reads (pool_call (query_row f))"
  by (rule reads_pool) (simp add: query_row_def)

lemma reads_uuid_query [simp]: "reads (pool_call (with_uuid pg i (\<lambda>u. query (f u))))"
  by (rule reads_pool) (simp add: with_uuid_def query_def split: option.split)

lemma reads_uuid_query_row [simp]: "reads (pool_call (with_uuid pg i (\<lambda>u. query_row (f u))))"
  by (rule reads_pool) (simp add: with_uuid_def query_row_def split: option.split)

lemma reads_case [intro]:
  assumes "reads f" and "\<And>r s. snd (g r s) = s"
  shows "reads (\<lambda>s. case f s of (r, s1) \<Rightarrow> g r s1)"
  using assms by (auto intro!: readsI simp: reads_def case_prod_unfold)

lemma reads_bind [intro]:
  assumes "reads f" and "\<And>a. reads (g a)" and "\<And>e s. snd (h e s) = s"
  shows "reads (\<lambda>s. case f s of (Inl e, s1) \<Rightarrow> h e s1 | (Inr a, s1) \<Rightarrow> g a s1)"
proof (rule readsI)
  fix s
  obtain r s1 where r: "f s = (r, s1)" by (cases "f s")
  obtain n where n: "s1 = s\<lparr>outcomes := drop n (outcomes s)\<rparr>" using readsD [OF assms(1) r] by blast
  show "\<exists>n. snd (case f s of (Inl e, s1) \<Rightarrow> h e s1 | (Inr a, s1) \<Rightarrow> g a s1) = s\<lparr>outcomes := drop n (outcomes s)\<rparr>"
  proof (cases r)
    case (Inr a)
    obtain m where "snd (g a s1) = s1\<lparr>outcomes := drop m (outcomes s1)\<rparr>"
      using assms(2) [of a] unfolding reads_def by blast
    then show ?thesis using r n Inr by (auto intro: exI [of _ "m + n"] simp: add.commute)
  qed (use r n assms(3) in auto)
qed

lemma reads_pure: "(\<And>s. snd (f s) = s) \<Longrightarrow> reads f"
  by (auto intro!: readsI exI [of _ 0])

lemma reads_ListOverview: "reads (ListOverview userID)"
proof -
  have "reads (AgentStore_List userID)" "reads (schedulesByAgent userID)" "reads (lastRunByAgent userID)"
    unfolding AgentStore_List_def schedulesByAgent_def lastRunByAgent_def
    by (auto intro!: reads_case split: sum.split)
  from this show ?thesis unfolding ListOverview_def by (intro reads_bind) (auto intro: reads_pure)
qed

lemma reads_Reveal: "reads (Reveal sealer userID name)"
  unfolding Reveal_def by (auto intro!: reads_case split: sum.split)

lemma reads_TelegramToken: "reads (TelegramToken sealer userID)"
proof (cases sealer)
  case (Some sl)
  then show ?thesis unfolding TelegramToken_def using reads_Reveal [of sl]
    by (auto intro!: reads_case split: sum.split)
qed (auto simp: TelegramToken_def intro: reads_pure)

lemma reads_Settings_Get: "reads (Settings_Get sealer userID)"
  unfolding Settings_Get_def by (intro reads_bind reads_query_row reads_TelegramToken reads_pure) auto

lemma reads_TelegramDelivery: "reads (TelegramDelivery sealer userID)"
  unfolding TelegramDelivery_def
  by (intro reads_bind reads_TelegramToken reads_Settings_Get reads_pure) simp_all

lemma reads_Configured: "reads (Configured sealer userID)"
  unfolding Configured_def by (rule reads_case [OF reads_TelegramDelivery]) simp

lemma reads_Inbox: "reads (Inbox userID limit)"
  unfolding Inbox_def by (intro reads_bind reads_query reads_pure) auto

lemma reads_others:
  "reads (AgentStore_Get pg userID i)" "reads (RunStore_Get pg userID i)" "reads (RunStore_ListByAgent pg userID i n)"
  "reads (StepStore_ListByRun pg userID i)" "reads (ScheduleStore_GetByAgent pg userID i)"
  "reads (MemoryStore_ListByAgent pg userID i n)" "reads (SecretStore_List userID)" "reads (UserForSession token now)"
  "reads (CheckPassword b userID password)"
  unfolding AgentStore_Get_def RunStore_Get_def RunStore_ListByAgent_def StepStore_ListByRun_def
    ScheduleStore_GetByAgent_def MemoryStore_ListByAgent_def SecretStore_List_def UserForSession_def
    CheckPassword_def select_hash_def
  by (auto intro!: reads_case split: sum.split)

lemmas reads_ops = reads_ListOverview reads_Reveal reads_TelegramToken reads_Settings_Get reads_Inbox reads_others

section \<open>Operations that write, and what they owe\<close>

definition refused :: "reply \<Rightarrow> bool" where
  "refused r \<longleftrightarrow> 400 \<le> reply_status r \<and> reply_status r < 500"

text \<open>
  \<open>I\<close> holds before an operation; \<open>J refused\<close> has to hold of the server after it, told whether the
  client is then refused. A handler that ends in \<open>writeStoreError\<close> refuses on \<open>ErrNotFound\<close>.
\<close>

definition writes :: "(server \<Rightarrow> bool) \<Rightarrow> (bool \<Rightarrow> server \<Rightarrow> bool) \<Rightarrow> (server \<Rightarrow> 'a res \<times> server) \<Rightarrow> bool" where
  "writes I J f \<longleftrightarrow> (\<forall>s. I s \<longrightarrow> J False (snd (f s)))"

definition refuses :: "(server \<Rightarrow> bool) \<Rightarrow> (bool \<Rightarrow> server \<Rightarrow> bool) \<Rightarrow> (server \<Rightarrow> 'a res \<times> server) \<Rightarrow> bool" where
  "refuses I J f \<longleftrightarrow> (\<forall>s s'. I s \<longrightarrow> f s = (Inl ErrNotFound, s') \<longrightarrow> J True s')"

definition ends :: "(bool \<Rightarrow> server \<Rightarrow> bool) \<Rightarrow> reply \<times> 'h api \<Rightarrow> bool" where
  "ends J p \<longleftrightarrow> J (refused (fst p)) (api_server (snd p))"

text \<open>The tools are the ones an installation builds.\<close>

definition installed :: "'h SchedulerServer \<Rightarrow> bool" where
  "installed srv \<longleftrightarrow> (\<exists>dec nw. srv_registry srv =
     BuildRegistry dec nw (Some (srv_pg srv)) (Some (Some (srv_sealer srv))) (srv_toolConfig srv))"

lemma api_server_on_store: "api_server (snd (on_store f st)) = snd (f (api_server st))"
  by (simp add: api_server_def on_store_def on_server_def split: prod.splits)

lemma api_server_on_store_rng:
  "api_server (snd (on_store_rng f st)) = snd (snd (f (api_rng st) (api_server st)))"
  by (simp add: api_server_def on_store_rng_def split: prod.splits)

lemma on_store_D: "on_store f st = (a, st') \<Longrightarrow> f (api_server st) = (a, api_server st')"
  by (auto simp: api_server_def on_store_def on_server_def split: prod.splits)

lemma api_server_clock_Now [simp]: "api_server (snd (clock_Now st)) = api_server st"
  by (simp add: api_server_def clock_Now_def Now_def)

lemma clock_Now_D: "clock_Now st = (t, st') \<Longrightarrow> api_server st' = api_server st"
  using api_server_clock_Now [of st] by simp

lemma api_server_on_http [simp]: "api_server (snd (on_http f st)) = api_server st"
  by (simp add: api_server_def on_http_def on_net_def split: prod.splits)

lemma on_http_D: "on_http f st = (a, st') \<Longrightarrow> api_server st' = api_server st"
  using api_server_on_http [of f st] by simp

lemma refused_simps [simp]:
  "\<not> refused (writeJSON StatusOK b)" "\<not> refused (writeJSON StatusCreated b)"
  "\<not> refused (writeError StatusInternalServerError m)"
  "refused (the (writeStoreError (Some e))) \<longleftrightarrow> e = ErrNotFound"
  by (simp_all add: refused_def writeJSON_def writeError_def writeStoreError_def http_status_defs)

lemma tool_configured [simp]:
  "Tool_Configured (HTTPFetch_tool dec nw allow) = None" "Tool_Configured (SendWebhook_tool dec nw allow) = None"
  "Tool_Configured (MemoryRead_tool dec) = None" "Tool_Configured (MemoryWrite_tool dec pg) = None"
  "Tool_Configured (WebSearch_tool dec nw ws) = None"
  "Tool_Configured (SendTelegram_tool dec nw url sealer) = Some (\<lambda>u. on_server (Configured sealer u))"
  by (simp_all add: HTTPFetch_tool_def SendWebhook_tool_def MemoryRead_tool_def MemoryWrite_tool_def
      WebSearch_tool_def SendTelegram_tool_def)

lemma Registry_Get_New [simp]: "Registry_Get NewRegistry name = None"
  by (simp add: Registry_Get_def NewRegistry_def)

lemma Available_reads:
  assumes "installed srv" and "Registry_Get (srv_registry srv) name = Some tool"
  shows "\<exists>n. w_server (snd (Available tool userID w)) = (w_server w)\<lparr>outcomes := drop n (outcomes (w_server w))\<rparr>"
proof -
  let ?sealer = "Some (srv_sealer srv)"
  have conf: "Tool_Configured tool \<in> {None, Some (\<lambda>u. on_server (Configured ?sealer u))}"
    using assms by (auto simp: installed_def BuildRegistry_def Register_Get Let_def split: if_splits)
  obtain n where n: "snd (Configured ?sealer userID (w_server w)) = (w_server w)\<lparr>outcomes := drop n (outcomes (w_server w))\<rparr>"
    using reads_Configured unfolding reads_def by blast
  show ?thesis
  proof (cases "Tool_Configured tool")
    case None
    then show ?thesis by (intro exI [of _ 0]) (simp add: Available_def)
  next
    case (Some c)
    with conf n show ?thesis by (intro exI [of _ n]) (simp add: Available_def on_server_def case_prod_unfold)
  qed
qed

section \<open>Every request keeps a contract\<close>

locale api_contract =
  fixes I :: "server \<Rightarrow> bool" and J :: "bool \<Rightarrow> server \<Rightarrow> bool" and pg :: postgres and sealer :: Sealer
  assumes later: "I s \<Longrightarrow> I (s\<lparr>outcomes := drop n (outcomes s)\<rparr>)"
    and answered: "I s \<Longrightarrow> J b s"
    and create_agent: "agent_ok agent \<Longrightarrow> writes I J (AgentStore_Create pg OwnerUserID agent)"
    and update_agent: "agent_ok agent \<Longrightarrow> writes I J (AgentStore_Update pg OwnerUserID i agent)"
      "agent_ok agent \<Longrightarrow> refuses I J (AgentStore_Update pg OwnerUserID i agent)"
    and delete_agent: "writes I J (AgentStore_Delete pg OwnerUserID i)" "refuses I J (AgentStore_Delete pg OwnerUserID i)"
    and set_schedule: "writes I J (ScheduleStore_Upsert pg OwnerUserID i schedule t w)"
    and delete_schedule: "writes I J (DeleteByAgent pg OwnerUserID i)" "refuses I J (DeleteByAgent pg OwnerUserID i)"
    and trigger_run: "writes I J (RunStore_Create pg OwnerUserID i None TriggerManual RunPending t)"
    and mark_read: "writes I J (MarkRead pg OwnerUserID i t)" "refuses I J (MarkRead pg OwnerUserID i t)"
    and delete_memory: "writes I J (MemoryStore_Delete pg OwnerUserID i)" "refuses I J (MemoryStore_Delete pg OwnerUserID i)"
    and update_settings: "writes I J (Settings_Update (Some sealer) OwnerUserID settings)"
    and put_secret: "I s \<Longrightarrow> J False (snd (snd (SecretStore_Put pg sealer OwnerUserID name v rng s)))"
    and delete_secret: "writes I J (SecretStore_Delete OwnerUserID name)" "refuses I J (SecretStore_Delete OwnerUserID name)"
    and create_session: "I s \<Longrightarrow> J False (snd (snd (CreateSession OwnerUserID t rng s)))"
    and delete_session: "writes I J (DeleteSession token)"
begin

lemma read_keeps: "reads f \<Longrightarrow> I s \<Longrightarrow> f s = (a, s') \<Longrightarrow> I s'"
  by (drule (1) readsD) (auto simp: later)

lemma ends_answer: "I (api_server st) \<Longrightarrow> ends J (r, st)"
  by (simp add: ends_def answered)

lemma internal_read:
  assumes "reads f" and "I (api_server st)" and "\<And>a st1. I (api_server st1) \<Longrightarrow> ends J (k a st1)"
  shows "ends J (or_internal k (on_store f st))"
proof (cases "on_store f st")
  case (Pair r st1)
  have "I (api_server st1)" using read_keeps [OF assms(1,2) on_store_D [OF Pair]] .
  with Pair assms(3) show ?thesis by (cases r) (simp_all add: or_internal_def ends_answer)
qed

lemma store_read:
  assumes "reads f" and "I (api_server st)" and "\<And>a st1. I (api_server st1) \<Longrightarrow> ends J (k a st1)"
  shows "ends J (or_store_error k (on_store f st))"
proof (cases "on_store f st")
  case (Pair r st1)
  have "I (api_server st1)" using read_keeps [OF assms(1,2) on_store_D [OF Pair]] .
  with Pair assms(3) show ?thesis by (cases r) (simp_all add: or_store_error_def ends_answer)
qed

lemma internal_write:
  assumes "writes I J f" and "I (api_server st)" and "\<And>a st1. snd (k a st1) = st1 \<and> \<not> refused (fst (k a st1))"
  shows "ends J (or_internal k (on_store f st))"
proof (cases "on_store f st")
  case (Pair r st1)
  have "J False (api_server st1)" using assms(1,2) on_store_D [OF Pair] by (simp add: writes_def) (metis snd_conv)
  with Pair assms(3) show ?thesis by (cases r) (simp_all add: or_internal_def ends_def)
qed

lemma store_write:
  assumes "writes I J f" and "refuses I J f" and "I (api_server st)"
    and "\<And>a st1. snd (k a st1) = st1 \<and> \<not> refused (fst (k a st1))"
  shows "ends J (or_store_error k (on_store f st))"
proof (cases "on_store f st")
  case (Pair r st1)
  note call = on_store_D [OF Pair]
  have "J False (api_server st1)" using assms(1,3) call by (simp add: writes_def) (metis snd_conv)
  moreover have "r = Inl ErrNotFound \<Longrightarrow> J True (api_server st1)" using assms(2,3) call by (simp add: refuses_def)
  ultimately show ?thesis
    using Pair assms(4) by (cases r; cases "r = Inl ErrNotFound") (simp_all add: or_store_error_def ends_def)
qed

lemma json_ok_end: "snd (json_ok f a st) = st \<and> \<not> refused (fst (json_ok f a st))"
  by (simp add: json_ok_def)

lemma no_content_end: "snd (no_content a st) = st \<and> \<not> refused (fst (no_content a st))"
  by (simp add: no_content_def refused_def StatusNoContent_def)

lemma json_ok_answer: "I (api_server st) \<Longrightarrow> ends J (json_ok f a st)"
  by (simp add: json_ok_def ends_answer)

lemmas endings = json_ok_end no_content_end json_ok_answer ends_answer

end

subsection \<open>The handlers\<close>

lemma list_tools_loop_reads:
  assumes "installed srv"
  shows "\<exists>n. w_server (snd (list_tools_loop (srv_registry srv) names w)) = (w_server w)\<lparr>outcomes := drop n (outcomes (w_server w))\<rparr>"
proof (induction names arbitrary: w)
  case Nil
  show ?case by (intro exI [of _ 0]) simp
next
  case (Cons name names)
  show ?case
  proof (cases "Registry_Get (srv_registry srv) name")
    case (Some tool)
    obtain b w1 where av: "Available tool OwnerUserID w = (b, w1)" by (cases "Available tool OwnerUserID w")
    obtain n where n: "w_server w1 = (w_server w)\<lparr>outcomes := drop n (outcomes (w_server w))\<rparr>"
      using Available_reads [OF assms Some, of OwnerUserID w] av by auto
    obtain m where "w_server (snd (list_tools_loop (srv_registry srv) names w1)) = (w_server w1)\<lparr>outcomes := drop m (outcomes (w_server w1))\<rparr>"
      using Cons.IH by blast
    with n have "w_server (snd (list_tools_loop (srv_registry srv) names w1)) = (w_server w)\<lparr>outcomes := drop (m + n) (outcomes (w_server w))\<rparr>"
      by simp
    then show ?thesis
      using Some av by (intro exI [of _ "m + n"]) (cases b; simp add: case_prod_unfold)
  qed (use Cons.IH in simp)
qed

context api_contract
begin

lemma clock_keeps: "I (api_server st) \<Longrightarrow> clock_Now st = (t, st1) \<Longrightarrow> I (api_server st1)"
  by (simp add: clock_Now_D)

lemma validate_keeps:
  assumes "validateAgentModel srv agent st = (r, st')" and "I (api_server st)"
  shows "I (api_server st')"
proof -
  obtain key st1 where key: "validation_key srv agent st = (key, st1)" by (cases "validation_key srv agent st")
  have "I (api_server st1)"
    using key assms(2) read_keeps [OF reads_Reveal _ on_store_D]
    by (auto simp: validation_key_def split: if_splits prod.splits sum.splits)
  then show ?thesis
    using assms key by (auto simp: validateAgentModel_def dest!: on_http_D split: if_splits sum.splits prod.splits)
qed

lemma checked_agent_ends:
  assumes "I (api_server st)" and "\<And>agent st1. agent_ok agent \<Longrightarrow> I (api_server st1) \<Longrightarrow> ends J (k agent st1)"
  shows "ends J (checked_agent srv decoded k st)"
proof (cases "Validate (ApplyDefaults decoded)")
  case None
  obtain r st1 where v: "validateAgentModel srv (ApplyDefaults decoded) st = (r, st1)"
    by (cases "validateAgentModel srv (ApplyDefaults decoded) st")
  have "I (api_server st1)" using validate_keeps [OF v assms(1)] .
  then show ?thesis
    using None v assms(2) [of "ApplyDefaults decoded" st1] Validate_None_iff [of "ApplyDefaults decoded"]
    by (cases r) (simp_all add: checked_agent_def Let_def ends_answer)
qed (simp add: checked_agent_def ends_answer assms(1))

lemma agent_handlers:
  assumes "I (api_server st)" and "srv_pg srv = pg"
  shows "ends J (handleCreateAgent srv rq st)" "ends J (handleUpdateAgent srv i rq st)" "ends J (handleDeleteAgent srv i st)"
    "ends J (handleGetAgent srv i st)" "ends J (handleListAgents st)"
proof -
  have "ends J (checked_agent srv decoded (\<lambda>agent st1.
      or_internal (\<lambda>created st2. (writeJSON StatusCreated (AgentBody created), st2))
        (on_store (AgentStore_Create pg OwnerUserID agent) st1)) st)" for decoded
    by (intro checked_agent_ends internal_write create_agent assms(1)) auto
  then show "ends J (handleCreateAgent srv rq st)"
    using assms by (auto simp: handleCreateAgent_def ends_answer split: sum.split)
  have "ends J (checked_agent srv decoded (\<lambda>agent st2. or_store_error (json_ok AgentBody)
      (on_store (AgentStore_Update pg OwnerUserID i agent) st2)) st1)" if "I (api_server st1)" for decoded st1
    by (intro checked_agent_ends store_write update_agent that json_ok_end)
  then show "ends J (handleUpdateAgent srv i rq st)"
    unfolding handleUpdateAgent_def assms(2)
    by (intro store_read reads_ops assms(1)) (auto simp: ends_answer split: sum.split)
  show "ends J (handleDeleteAgent srv i st)" "ends J (handleGetAgent srv i st)" "ends J (handleListAgents st)"
    unfolding handleDeleteAgent_def handleGetAgent_def handleListAgents_def assms(2)
    by (intro store_write store_read internal_read delete_agent reads_ops assms(1) endings; assumption)+
qed

lemma catalogue_handlers:
  assumes "I (api_server st)" and "srv_pg srv = pg" and "installed srv"
  shows "ends J (handleListTools srv st)" "ends J (handleListModels srv st)" "ends J (handleListMemory srv i st)"
    "ends J (handleDeleteMemory srv i st)"
proof -
  obtain out w where l: "list_tools_loop (srv_registry srv) (Names (srv_registry srv)) (api_world st) = (out, w)"
    by (cases "list_tools_loop (srv_registry srv) (Names (srv_registry srv)) (api_world st)")
  obtain n where "w_server w = (api_server st)\<lparr>outcomes := drop n (outcomes (api_server st))\<rparr>"
    using list_tools_loop_reads [OF assms(3), of "Names (srv_registry srv)" "api_world st"] l
    by (auto simp: api_server_def)
  then have "I (api_server (st\<lparr>api_world := w\<rparr>))" using later [OF assms(1)] by (simp add: api_server_def)
  then show "ends J (handleListTools srv st)" using l by (simp add: handleListTools_def ends_answer)
  show "ends J (handleListModels srv st)"
    unfolding handleListModels_def Let_def by (intro internal_read reads_ops assms(1) endings)
  show "ends J (handleListMemory srv i st)"
    unfolding handleListMemory_def by (intro store_read internal_read reads_ops assms(1) endings)
  show "ends J (handleDeleteMemory srv i st)"
    unfolding handleDeleteMemory_def assms(2) by (intro store_write delete_memory assms(1) endings)
qed

lemma schedule_handlers:
  assumes "I (api_server st)" and "srv_pg srv = pg"
  shows "ends J (handleSetSchedule srv i rq st)" "ends J (handleGetSchedule srv i st)" "ends J (handleDeleteSchedule srv i st)"
    "ends J (handlePreviewSchedule srv rq st)"
proof -
  have "ends J (case clock_Now st1 of (now, st2) \<Rightarrow> let nextFireAt = Next spec now '''' in
      if IsZero nextFireAt then (writeError StatusBadRequest ''schedule has no upcoming fire time'', st2)
      else or_internal (json_ok ScheduleBody)
        (on_store (ScheduleStore_Upsert pg OwnerUserID i requested nextFireAt '''') st2))"
    if "I (api_server st1)" for st1 spec requested
    using clock_keeps [OF that]
    by (auto simp: Let_def ends_answer intro!: internal_write set_schedule json_ok_end split: prod.split)
  then show "ends J (handleSetSchedule srv i rq st)"
    unfolding handleSetSchedule_def assms(2)
    by (intro store_read reads_ops assms(1)) (auto simp: ends_answer split: sum.split)
  show "ends J (handleGetSchedule srv i st)" "ends J (handleDeleteSchedule srv i st)"
    unfolding handleGetSchedule_def handleDeleteSchedule_def assms(2)
    by (intro store_write store_read delete_schedule reads_ops assms(1) endings; assumption)+
  show "ends J (handlePreviewSchedule srv rq st)"
    using assms(1) clock_keeps [OF assms(1)]
    by (auto simp: handlePreviewSchedule_def ends_answer split: sum.split prod.split)
qed

lemma run_handlers:
  assumes "I (api_server st)" and "srv_pg srv = pg"
  shows "ends J (handleListRuns srv i st)" "ends J (handleTriggerRun srv i st)" "ends J (handleGetRun srv i st)"
    "ends J (handleListRunSteps srv i st)" "ends J (handleInbox st)" "ends J (handleMarkRead srv i st)"
proof -
  show "ends J (handleListRuns srv i st)" "ends J (handleGetRun srv i st)" "ends J (handleListRunSteps srv i st)"
    "ends J (handleInbox st)"
    unfolding handleListRuns_def handleGetRun_def handleListRunSteps_def handleInbox_def
    by (intro store_read internal_read reads_ops assms(1) endings; assumption)+
  have "ends J (case clock_Now st1 of (now, st2) \<Rightarrow>
      or_internal (\<lambda>run st3. (writeJSON StatusCreated (RunBody run), st3))
        (on_store (RunStore_Create pg OwnerUserID j None TriggerManual RunPending now) st2))"
    if "I (api_server st1)" for st1 j
    using clock_keeps [OF that] by (auto intro!: internal_write trigger_run split: prod.split)
  then show "ends J (handleTriggerRun srv i st)"
    unfolding handleTriggerRun_def assms(2) by (intro store_read reads_ops assms(1))
  show "ends J (handleMarkRead srv i st)"
    unfolding handleMarkRead_def assms(2) using clock_keeps [OF assms(1)]
    by (auto intro!: store_write mark_read no_content_end split: prod.split)
qed

lemma settings_handlers:
  assumes "I (api_server st)" and "srv_sealer srv = sealer"
  shows "ends J (handleGetSettings srv st)" "ends J (handleUpdateSettings srv rq st)" "ends J (handleDetectChat srv st)"
proof -
  show "ends J (handleGetSettings srv st)"
    unfolding handleGetSettings_def by (intro internal_read reads_ops assms(1) endings)
  have "ends J (or_internal (json_ok SettingsBody) (on_store (Settings_Update (Some sealer) OwnerUserID settings) st1))"
    if "I (api_server st1)" for settings st1
    using that by (intro internal_write update_settings json_ok_end)
  note update = this
  then show "ends J (handleUpdateSettings srv rq st)"
    unfolding handleUpdateSettings_def assms(2)
    by (intro internal_read reads_ops assms(1)) (auto simp: ends_answer split: sum.split)
  have "ends J (or_internal (\<lambda>settings st3. or_internal (json_ok SettingsBody)
      (on_store (Settings_Update (Some sealer) OwnerUserID (settings\<lparr>TelegramChatID := c\<rparr>)) st3))
      (on_store (Settings_Get (Some sealer) OwnerUserID) st1))" if "I (api_server st1)" for c st1
    using that by (intro internal_read reads_ops update)
  note store_chat = this
  have net: "I (api_server st2)" if "on_http f st1 = (a, st2)" "I (api_server st1)" for f a and st1 st2 :: "'a api"
    using that on_http_D by metis
  show "ends J (handleDetectChat srv st)"
    unfolding handleDetectChat_def assms(2)
    by (intro internal_read reads_ops assms(1))
      (auto simp: Let_def ends_answer intro!: store_chat dest: net split: sum.split prod.split)
qed

lemma rng_write:
  assumes "\<And>s rng. I s \<Longrightarrow> J False (snd (snd (f rng s)))" and "I (api_server st)"
    and "\<And>a st1. snd (k a st1) = st1 \<and> \<not> refused (fst (k a st1))"
  shows "ends J (or_internal k (on_store_rng f st))"
proof (cases "on_store_rng f st")
  case (Pair r st1)
  have "J False (api_server st1)"
    using assms(1) [OF assms(2), of "api_rng st"] api_server_on_store_rng [of f st] Pair by simp
  with Pair assms(3) show ?thesis by (cases r) (simp_all add: or_internal_def ends_def)
qed

lemma session_read:
  assumes "I (api_server st)" and "clock_Now st = (t, st1)" and "on_store (UserForSession token t) st1 = (r, st2)"
  shows "I (api_server st2)"
  using read_keeps [OF reads_others(8) clock_keeps [OF assms(1,2)] on_store_D [OF assms(3)]] .

lemma login_ends:
  assumes "I (api_server st)"
  shows "ends J (handleLogin srv rq st)"
proof -
  have "ends J (case clock_Now st1 of (now, st2) \<Rightarrow>
      or_internal (\<lambda>token st3. ((writeJSON StatusOK (SignedIn True))\<lparr>reply_cookie := Some (session_cookie token)\<rparr>, st3))
        (on_store_rng (CreateSession OwnerUserID now) st2))" if "I (api_server st1)" for st1 :: "'a api"
    using clock_keeps [OF that]
    by (auto simp: refused_def writeJSON_def StatusOK_def intro!: rng_write create_session split: prod.split)
  note create = this
  show ?thesis
  proof (cases "decodeBody rq (json_password (srv_decode srv))")
    case (Inr password)
    show ?thesis
      unfolding handleLogin_def Inr sum.case
      by (intro internal_read reads_ops assms) (simp add: ends_answer create)
  qed (simp add: handleLogin_def ends_answer assms)
qed

lemma auth_handlers:
  assumes "I (api_server st)" and "srv_pg srv = pg" and "srv_sealer srv = sealer"
  shows "ends J (handleLogout rq st)" "ends J (handleSession rq st)"
    "ends J (handleListSecrets st)" "ends J (handlePutSecret srv name rq st)" "ends J (handleDeleteSecret name st)"
    "ends J (handleHealth st)"
proof -
  have "J False (api_server (snd (on_store (DeleteSession token) st)))" for token
    using delete_session [of token] assms(1) by (simp add: writes_def api_server_on_store)
  then show "ends J (handleLogout rq st)"
    using answered [OF assms(1)]
    by (auto simp: handleLogout_def ends_def refused_def writeJSON_def StatusOK_def Let_def split: option.split)
  show "ends J (handleSession rq st)"
    using assms(1) session_read [OF assms(1)] by (auto simp: handleSession_def ends_answer split: option.split prod.split)
  show "ends J (handleListSecrets st)" unfolding handleListSecrets_def by (intro internal_read reads_ops assms(1) endings)
  have "ends J (or_internal (json_ok SecretBody) (on_store_rng (SecretStore_Put pg sealer OwnerUserID name v) st))" for v
    by (intro rng_write put_secret assms(1) json_ok_end)
  then show "ends J (handlePutSecret srv name rq st)"
    using assms by (auto simp: handlePutSecret_def ends_answer split: sum.split)
  show "ends J (handleDeleteSecret name st)"
    unfolding handleDeleteSecret_def by (intro store_write delete_secret assms(1) endings)
  show "ends J (handleHealth st)"
    using read_keeps [OF reads_query [of "\<lambda>_. ()"] assms(1)] on_store_D
    by (fastforce simp: handleHealth_def ends_answer split: sum.split prod.split)
qed

lemma endpoint_ends:
  assumes "I (api_server st)" and "srv_pg srv = pg" and "srv_sealer srv = sealer" and "installed srv"
  shows "ends J (handle_endpoint srv rq e st)"
  using agent_handlers [OF assms(1,2)] catalogue_handlers [OF assms(1,2,4)] schedule_handlers [OF assms(1,2)]
    run_handlers [OF assms(1,2)] settings_handlers [OF assms(1,3)] auth_handlers [OF assms(1-3)] login_ends [OF assms(1)]
  by (cases e) simp_all

lemma serve_ends:
  assumes "I (api_server st)" and "srv_pg srv = pg" and "srv_sealer srv = sealer" and "installed srv"
  shows "ends J (serve srv rq st)"
proof -
  have mux: "ends J (mux_ServeHTTP srv path rq st1)" if "I (api_server st1)" for path st1
    using endpoint_ends [OF that assms(2-4)] that by (simp add: mux_ServeHTTP_def ends_answer split: destination.split)
  show ?thesis
    using assms(1) mux session_read [OF assms(1)]
    by (auto simp: serve_def requireSession_def ends_answer split: option.split prod.split sum.split)
qed

end

end
