(* ===== verification/Api_Invariants.thy ===== *)
theory Api_Invariants
  imports Api_Logic
begin

text \<open>
  Invariants of the database server: what has to be shown of the statements the API sends for an
  invariant to hold after every request.
\<close>

section \<open>Functions that keep an invariant of the server\<close>

definition keeps :: "(server \<Rightarrow> bool) \<Rightarrow> (server \<Rightarrow> 'a \<times> server) \<Rightarrow> bool" where
  "keeps I f \<longleftrightarrow> (\<forall>s. I s \<longrightarrow> I (snd (f s)))"

lemma keepsI: "(\<And>s. I s \<Longrightarrow> I (snd (f s))) \<Longrightarrow> keeps I f"
  by (simp add: keeps_def)

lemma keepsD: "keeps I f \<Longrightarrow> I s \<Longrightarrow> I (snd (f s))"
  by (simp add: keeps_def)

lemma keeps_step: "keeps I f \<Longrightarrow> I s \<Longrightarrow> f s = (a, s') \<Longrightarrow> I s'"
  by (metis keeps_def snd_conv)

lemma keeps_uuid: "(\<And>u. keeps I (k u)) \<Longrightarrow> keeps I (with_uuid pg i k)"
  by (simp add: keeps_def with_uuid_def split: option.split)

lemma keeps_case: "keeps I f \<Longrightarrow> (\<And>r s. snd (g r s) = s) \<Longrightarrow> keeps I (\<lambda>s. case f s of (r, s1) \<Rightarrow> g r s1)"
  by (simp add: keeps_def case_prod_unfold)

lemma keeps_bind:
  assumes "keeps I f" and "\<And>a. keeps I (g a)" and "\<And>e s. snd (h e s) = s"
  shows "keeps I (\<lambda>s. case f s of (Inl e, s1) \<Rightarrow> h e s1 | (Inr a, s1) \<Rightarrow> g a s1)"
  using assms by (auto simp: keeps_def case_prod_unfold split: sum.split)

text \<open>The invariants of interest are about the tables and the identifiers to come, not about the outcomes of calls.\<close>

locale server_invariant =
  fixes I :: "server \<Rightarrow> bool"
  assumes blind: "I (s\<lparr>outcomes := os\<rparr>) \<longleftrightarrow> I s"
begin

lemma next_keeps: "I s \<Longrightarrow> I (snd (next_outcome s))"
  using next_outcome_drop [of s] blind by auto

lemma keeps_pool: "keeps I q \<Longrightarrow> keeps I (pool_call q)"
proof (rule keepsI)
  fix s
  assume "keeps I q" and "I s"
  then show "I (snd (pool_call q s))"
    by (cases rule: pool_call_cases [of q s]) (simp_all add: keeps_def next_keeps)
qed

lemma keeps_reads: "reads f \<Longrightarrow> keeps I f"
  unfolding reads_def keeps_def using blind by metis

lemma keeps_exec: "(\<And>s. I s \<Longrightarrow> I (s\<lparr>tables := f (tables s)\<rparr>)) \<Longrightarrow> keeps I (pool_call (exec f))"
  by (rule keeps_pool) (simp add: keeps_def exec_def)

end

section \<open>The statements of the API\<close>

definition settings_row :: "Settings \<Rightarrow> user_row \<Rightarrow> user_row" where
  "settings_row settings u =
     u\<lparr>usr_telegram_chat_id := TelegramChatID settings, usr_failure_alerts_enabled := FailureAlertsEnabled settings,
       usr_custom_providers := CustomProviders settings\<rparr>"

locale statements_keep = server_invariant +
  fixes pg :: postgres
  assumes insert_agent: "agent_ok agent \<Longrightarrow> keeps I (insert_agent pg OwnerUserID agent)"
    and update_agent: "agent_ok agent \<Longrightarrow> keeps I (update_agent_stmt OwnerUserID u agent)"
    and delete_agent: "keeps I (delete_agent_stmt OwnerUserID u)"
    and upsert_schedule: "keeps I (upsert_schedule pg OwnerUserID u schedule t w)"
    and delete_schedule: "keeps I (delete_schedule_stmt OwnerUserID u)"
    and insert_run: "keeps I (insert_run pg OwnerUserID u None TriggerManual RunPending t)"
    and mark_read: "keeps I (mark_read_stmt OwnerUserID u t)"
    and delete_memory: "keeps I (delete_memory_stmt OwnerUserID u)"
    and upsert_secret: "keeps I (upsert_secret pg OwnerUserID name v k m)"
    and delete_secret: "keeps I (delete_secret_stmt OwnerUserID name)"
    and insert_session: "keeps I (insert_session token OwnerUserID t)"
    and update_settings: "I s \<Longrightarrow> I (s\<lparr>tables := (tables s)\<lparr>users :=
          update_where (\<lambda>x. usr_id x = OwnerUserID) (settings_row settings) (users (tables s))\<rparr>\<rparr>)"
    and delete_session: "I s \<Longrightarrow> I (s\<lparr>tables := (tables s)\<lparr>sessions :=
          delete_where (\<lambda>x. ses_id x = token) (sessions (tables s))\<rparr>\<rparr>)"
begin

lemma store_calls:
  "agent_ok agent \<Longrightarrow> keeps I (AgentStore_Create pg OwnerUserID agent)"
  "agent_ok agent \<Longrightarrow> keeps I (AgentStore_Update pg OwnerUserID i agent)"
  "keeps I (AgentStore_Delete pg OwnerUserID i)" "keeps I (ScheduleStore_Upsert pg OwnerUserID i schedule t w)"
  "keeps I (DeleteByAgent pg OwnerUserID i)" "keeps I (RunStore_Create pg OwnerUserID i None TriggerManual RunPending t)"
  "keeps I (MemoryStore_Delete pg OwnerUserID i)"
  unfolding AgentStore_Create_def AgentStore_Update_def AgentStore_Delete_def ScheduleStore_Upsert_def
    DeleteByAgent_def RunStore_Create_def MemoryStore_Delete_def
  by (intro keeps_case keeps_pool keeps_uuid insert_agent update_agent delete_agent upsert_schedule delete_schedule
      insert_run delete_memory snd_conv; assumption)+

lemma mark_read_call: "keeps I (MarkRead pg OwnerUserID i t)"
proof -
  have "keeps I (\<lambda>s1. if (n::nat) = 0 then
      (case pool_call (with_uuid pg i (\<lambda>u. query (\<lambda>d. \<exists>r \<in> set (runs d). r_id r = u \<and> r_user_id r = OwnerUserID))) s1 of
         (Inl e, s2) \<Rightarrow> (Inl (translateNoRows e), s2)
       | (Inr present, s2) \<Rightarrow> (if \<not> present then (Inl ErrNotFound, s2) else (Inr (), s2)))
      else (Inr (), s1))" for n
    using keeps_reads [OF reads_uuid_query, of pg i "\<lambda>u d. \<exists>r \<in> set (runs d). r_id r = u \<and> r_user_id r = OwnerUserID"]
    by (auto simp: keeps_def case_prod_unfold split: sum.split)
  then show ?thesis
    unfolding MarkRead_def by (intro keeps_bind keeps_pool keeps_uuid mark_read) simp_all
qed

lemma settings_call: "keeps I (Settings_Update sealer OwnerUserID settings)"
  unfolding Settings_Update_def
  by (intro keeps_bind keeps_exec keeps_reads reads_Settings_Get)
    (use update_settings [of _ settings] in \<open>simp_all add: settings_row_def [abs_def]\<close>)

lemma secret_calls:
  "keeps I (SecretStore_Delete OwnerUserID name)" "keeps I (DeleteSession token)"
  "I s \<Longrightarrow> I (snd (snd (SecretStore_Put pg sealer OwnerUserID name v rng s)))"
  "I s \<Longrightarrow> I (snd (snd (CreateSession OwnerUserID t rng s)))"
proof -
  show "keeps I (SecretStore_Delete OwnerUserID name)"
    unfolding SecretStore_Delete_def
    by (intro keeps_case keeps_pool delete_secret) (simp split: sum.split)
  show "keeps I (DeleteSession token)" unfolding DeleteSession_def by (intro keeps_exec delete_session)
  assume s: "I s"
  then have "I (snd (pool_call (upsert_secret pg OwnerUserID name a b (Mask v)) s))" for a b
    by (rule keepsD [OF keeps_pool [OF upsert_secret]])
  then show "I (snd (snd (SecretStore_Put pg sealer OwnerUserID name v rng s)))"
    using s by (auto simp: SecretStore_Put_def case_prod_unfold split: sum.split)
  have "I (snd (pool_call (insert_session token OwnerUserID t') s))" for token t'
    by (rule keepsD [OF keeps_pool [OF insert_session] s])
  then show "I (snd (snd (CreateSession OwnerUserID t rng s)))"
    using s by (auto simp: CreateSession_def Let_def case_prod_unfold split: sum.split)
qed

lemma keeps_writes: "keeps I f \<Longrightarrow> writes I (\<lambda>_. I) f"
  by (simp add: keeps_def writes_def)

lemma keeps_refuses: "keeps I f \<Longrightarrow> refuses I (\<lambda>_. I) f"
  unfolding refuses_def by (blast intro: keeps_step)

end

sublocale statements_keep \<subseteq> requests: api_contract I "\<lambda>_. I" pg sealer for sealer
  by unfold_locales
    (simp_all add: blind keeps_writes keeps_refuses store_calls mark_read_call settings_call secret_calls)

context statements_keep
begin

lemma serve_keeps:
  assumes "installed srv" and "srv_pg srv = pg" and "I (api_server st)" and "serve srv rq st = (reply, st')"
  shows "I (api_server st')"
  using requests.serve_ends [OF assms(3,2) refl assms(1), of rq] assms(4) by (simp add: ends_def)

end

end
