(* ===== verification/Materializer.thy ===== *)
theory Materializer
  imports Fixtures
begin

text \<open>
  \<open>pkg/materializer\<close>: expanding due schedules into runs. The due schedules are read under row
  locks inside a transaction; each gets one run, pending or missed, and is advanced to its next
  fire time.
\<close>

section \<open>Definitions\<close>

definition GraceWindow :: duration where "GraceWindow = 5 * Minute"

definition maxCatchUpIterations :: nat where "maxCatchUpIterations = 100000"

record dueSchedule =
  due_id :: string
  due_userID :: string
  due_agentID :: string
  due_expression :: string
  due_timezone :: string
  due_nextFireAt :: time
  due_lastFiredWall :: string

text \<open>
  The walk through fire times that have already passed: the loop of \<open>resolveFireTimes\<close>, with
  the iterations it has left. Running out of them leaves the named result at its zero value.
\<close>

fun resolve_loop :: "Spec \<Rightarrow> time \<Rightarrow> nat \<Rightarrow> time \<Rightarrow> time \<times> time" where
  "resolve_loop spec now 0 fireAt = (fireAt, zero_time)"
| "resolve_loop spec now (Suc n) fireAt =
     (let next = Next spec fireAt (WallClock spec fireAt) in
      if IsZero next then (fireAt, zero_time)
      else if now < next then (fireAt, next)
      else resolve_loop spec now n next)"

definition resolveFireTimes :: "Spec \<Rightarrow> dueSchedule \<Rightarrow> time \<Rightarrow> time \<times> time \<times> bool" where
  "resolveFireTimes spec item now =
     (case resolve_loop spec now maxCatchUpIterations (due_nextFireAt item) of
        (fireAt, nextFireAt) \<Rightarrow> (fireAt, nextFireAt, now - fireAt > GraceWindow))"

definition nullableTime :: "time \<Rightarrow> time option" where
  "nullableTime t = (if IsZero t then None else Some t)"

text \<open>
  The query for due schedules. \<open>locked\<close> are the schedule rows other transactions hold at
  the moment, which \<open>SKIP LOCKED\<close> passes over.
\<close>

definition is_due :: "time \<Rightarrow> database \<Rightarrow> schedule_row \<Rightarrow> bool" where
  "is_due now d s \<longleftrightarrow>
     sch_enabled s \<and> (\<exists>a \<in> set (agents d). ag_id a = sch_agent_id s \<and> ag_enabled a) \<and>
     (case sch_next_fire_at s of None \<Rightarrow> False | Some t \<Rightarrow> t \<le> now)"

definition fire_time :: "schedule_row \<Rightarrow> time" where
  "fire_time s = (case sch_next_fire_at s of None \<Rightarrow> zero_time | Some t \<Rightarrow> t)"

definition scan_due :: "schedule_row \<Rightarrow> dueSchedule" where
  "scan_due s =
     \<lparr>due_id = sch_id s, due_userID = sch_user_id s, due_agentID = sch_agent_id s,
      due_expression = sch_cron_expression s, due_timezone = sch_timezone s,
      due_nextFireAt = fire_time s, due_lastFiredWall = sch_last_fired_wall s\<rparr>"

definition due_schedules :: "(string \<Rightarrow> bool) \<Rightarrow> time \<Rightarrow> database \<Rightarrow> dueSchedule list" where
  "due_schedules locked now d =
     map scan_due (order_by fire_time
       (filter (\<lambda>s. is_due now d s \<and> \<not> locked (sch_id s)) (schedules d)))"

definition advance_row :: "time \<Rightarrow> time \<Rightarrow> string \<Rightarrow> time \<Rightarrow> schedule_row \<Rightarrow> schedule_row" where
  "advance_row fireAt nextFireAt wall updated s =
     s\<lparr>sch_next_fire_at := nullableTime nextFireAt, sch_last_fired_at := Some fireAt,
       sch_last_fired_wall := wall, sch_updated_at := updated\<rparr>"

definition advance_schedule ::
    "string \<Rightarrow> time \<Rightarrow> time \<Rightarrow> string \<Rightarrow> server \<Rightarrow> unit res \<times> server" where
  "advance_schedule i fireAt nextFireAt wall s =
     exec (\<lambda>d. d\<lparr>schedules := update_where (\<lambda>r. sch_id r = i)
                  (advance_row fireAt nextFireAt wall (pg_now s)) (schedules d)\<rparr>) s"

fun materialize_loop ::
    "postgres \<Rightarrow> time_env \<Rightarrow> time \<Rightarrow> dueSchedule list \<Rightarrow> nat \<Rightarrow> tx \<Rightarrow> server
      \<Rightarrow> nat res \<times> tx \<times> server" where
  "materialize_loop pg env now [] created t s = (Inr created, t, s)"
| "materialize_loop pg env now (item # items) created t s =
     (case Parse env (due_expression item) (due_timezone item) of
        Inl _ \<Rightarrow> materialize_loop pg env now items created t s
      | Inr spec \<Rightarrow>
          (case resolveFireTimes spec item now of (fireAt, nextFireAt, missed) \<Rightarrow>
             let status = (if missed then RunMissed else RunPending) in
             (case tx_call (insert_run pg (due_userID item) (due_agentID item) (Some (due_id item))
                              TriggerSchedule status fireAt) t s of
                (Inl e, t1, s1) \<Rightarrow> (Inl e, t1, s1)
              | (Inr row, t1, s1) \<Rightarrow>
                  (case tx_call (advance_schedule (due_id item) fireAt nextFireAt
                                   (WallClock spec fireAt)) t1 s1 of
                     (Inl e, t2, s2) \<Rightarrow> (Inl e, t2, s2)
                   | (Inr _, t2, s2) \<Rightarrow>
                       materialize_loop pg env now items (Suc created) t2 s2))))"

definition Materializer_RunOnce ::
    "postgres \<Rightarrow> time_env \<Rightarrow> (string \<Rightarrow> bool) \<Rightarrow> time \<Rightarrow> server \<Rightarrow> nat res \<times> server" where
  "Materializer_RunOnce pg env locked now s =
     (case Begin s of
        (Inl e, s1) \<Rightarrow> (Inl e, s1)
      | (Inr t, s1) \<Rightarrow>
          (case tx_call (query (due_schedules locked now)) t s1 of
             (Inl e, t2, s2) \<Rightarrow> (Inl e, Rollback t2 s2)
           | (Inr due, t2, s2) \<Rightarrow>
               (case materialize_loop pg env now due 0 t2 s2 of
                  (Inl e, t3, s3) \<Rightarrow> (Inl e, Rollback t3 s3)
                | (Inr created, t3, s3) \<Rightarrow>
                    (case Commit t3 s3 of
                       (Inl e, s4) \<Rightarrow> (Inl e, s4)
                     | (Inr _, s4) \<Rightarrow> (Inr created, s4)))))"

section \<open>The walk through past fire times\<close>

lemma resolve_loop_bounds:
  assumes "spec_later spec" and "start \<le> now" and "resolve_loop spec now n start = (f, x)"
  shows "start \<le> f \<and> f \<le> now \<and>
         (x = zero_time \<or> now < x \<and> x = Next spec f (WallClock spec f))"
  using assms(2,3)
proof (induction n arbitrary: start)
  case (Suc n)
  let ?next = "Next spec start (WallClock spec start)"
  from Next_later [OF assms(1)] have "?next = zero_time \<or> start < ?next" .
  then show ?case
    using Suc.prems Suc.IH [of ?next] by (auto simp: Let_def IsZero_def split: if_splits)
qed simp

text \<open>The fire times the walk passes through, starting from one of them.\<close>

fun fire_chain :: "Spec \<Rightarrow> time \<Rightarrow> nat \<Rightarrow> time" where
  "fire_chain spec t 0 = t"
| "fire_chain spec t (Suc k) = fire_chain spec (Next spec t (WallClock spec t)) k"

lemma fire_chain_snoc:
  "fire_chain spec t (Suc k) = Next spec (fire_chain spec t k) (WallClock spec (fire_chain spec t k))"
  by (induction k arbitrary: t) auto

lemma resolve_loop_enough:
  assumes gap: "\<And>k. fire_chain spec start (Suc k) = zero_time
                  \<or> fire_chain spec start k + d \<le> fire_chain spec start (Suc k)"
    and "now < start + int n * d" and "start \<le> now"
    and "resolve_loop spec now n start = (f, x)"
  shows "x = Next spec f (WallClock spec f)"
  using assms
proof (induction n arbitrary: start)
  case (Suc n)
  let ?next = "Next spec start (WallClock spec start)"
  have gap': "fire_chain spec ?next (Suc k) = zero_time
      \<or> fire_chain spec ?next k + d \<le> fire_chain spec ?next (Suc k)" for k
    using Suc.prems(1) [of "Suc k"] by simp
  have step: "now < ?next + int n * d" if "?next \<noteq> zero_time"
    using Suc.prems(1) [of 0] that Suc.prems(2) by (simp add: algebra_simps)
  from Suc.prems(4) show ?case
    using Suc.IH [OF gap'] step by (auto simp: Let_def IsZero_def split: if_splits)
qed simp

lemma resolve_loop_exhausted:
  assumes "\<And>k. k < n \<Longrightarrow> fire_chain spec start (Suc k) \<noteq> zero_time \<and> fire_chain spec start (Suc k) \<le> now"
  shows "resolve_loop spec now n start = (fire_chain spec start n, zero_time)"
  using assms
proof (induction n arbitrary: start)
  case (Suc n)
  let ?next = "Next spec start (WallClock spec start)"
  have "resolve_loop spec now n ?next = (fire_chain spec ?next n, zero_time)"
    using Suc.prems [of "Suc _"] by (intro Suc.IH) simp
  then show ?case
    using Suc.prems [of 0] by (simp add: Let_def IsZero_def)
qed simp

section \<open>Statements\<close>

interpretation insert_run_stmt:
  statement "insert_run pg userID agentID scheduleID trigger status scheduledFor"
  for pg userID agentID scheduleID trigger status scheduledFor
  by unfold_locales (auto simp: insert_run_def Let_def split: if_splits)

interpretation advance_schedule_stmt: statement "advance_schedule i fireAt nextFireAt wall"
  for i fireAt nextFireAt wall
  by unfold_locales (auto simp: advance_schedule_def exec_def)

interpretation advance_row_upd: row_update sch_id "advance_row fireAt nextFireAt wall updated"
  for fireAt nextFireAt wall updated
  by unfold_locales (simp add: advance_row_def)

section \<open>What one pass does\<close>

text \<open>The due schedules that parse, with their specifications.\<close>

fun fired :: "time_env \<Rightarrow> dueSchedule list \<Rightarrow> (dueSchedule \<times> Spec) list" where
  "fired env [] = []"
| "fired env (item # items) =
     (case Parse env (due_expression item) (due_timezone item) of
        Inl _ \<Rightarrow> fired env items
      | Inr spec \<Rightarrow> (item, spec) # fired env items)"

definition fire_advance :: "time \<Rightarrow> time \<Rightarrow> dueSchedule \<times> Spec \<Rightarrow> schedule_row \<Rightarrow> schedule_row" where
  "fire_advance now updated p r =
     (case p of (item, spec) \<Rightarrow>
        case resolveFireTimes spec item now of (fireAt, nextFireAt, missed) \<Rightarrow>
          advance_row fireAt nextFireAt (WallClock spec fireAt) updated r)"

definition advance_all ::
    "time \<Rightarrow> time \<Rightarrow> (dueSchedule \<times> Spec) list \<Rightarrow> schedule_row \<Rightarrow> schedule_row" where
  "advance_all now updated ps r =
     (case find (\<lambda>p. due_id (fst p) = sch_id r) ps of
        None \<Rightarrow> r | Some p \<Rightarrow> fire_advance now updated p r)"

text \<open>The row a fired schedule adds, apart from its generated identifier.\<close>

definition fired_run :: "time \<Rightarrow> time \<Rightarrow> dueSchedule \<times> Spec \<Rightarrow> string \<Rightarrow> run_row" where
  "fired_run now created p i =
     (case p of (item, spec) \<Rightarrow>
        case resolveFireTimes spec item now of (fireAt, nextFireAt, missed) \<Rightarrow>
          new_run_row i (due_userID item) (due_agentID item) (Some (due_id item)) TriggerSchedule
            (if missed then RunMissed else RunPending) fireAt created)"

lemma tx_insert_run_ok:
  assumes "tx_call (insert_run pg u a sc tr st at) t s = (Inr row, t', s')"
  shows "t' = t \<and> row = new_run_row (uuid_v4 pg (serial s)) u a sc tr st at (pg_now s) \<and>
         tables s' = (tables s)\<lparr>runs := runs (tables s) @ [row]\<rparr> \<and> serial s' = Suc (serial s) \<and>
         pg_now s' = pg_now s"
  using assms
  by (auto simp: tx_call_def insert_run_def Let_def next_outcome.simps
      split: if_splits prod.splits outcome.splits sum.splits list.splits)

lemma tx_advance_ok:
  assumes "tx_call (advance_schedule i f n w) t s = (Inr x, t', s')"
  shows "t' = t \<and> serial s' = serial s \<and> pg_now s' = pg_now s \<and>
         tables s' = (tables s)\<lparr>schedules := update_where (\<lambda>r. sch_id r = i)
           (advance_row f n w (pg_now s)) (schedules (tables s))\<rparr>"
  using assms
  by (auto simp: tx_call_def advance_schedule_def exec_def next_outcome.simps
      split: if_splits prod.splits outcome.splits sum.splits list.splits)

lemma advance_all_Cons:
  assumes "due_id (fst p) \<notin> (due_id \<circ> fst) ` set ps"
  shows "map (advance_all now u ps) (update_where (\<lambda>r. sch_id r = due_id (fst p)) (fire_advance now u p) rs)
       = map (advance_all now u (p # ps)) rs"
proof -
  have none: "find (\<lambda>q. due_id (fst q) = due_id (fst p)) ps = None"
    using assms by (auto simp: find_None_iff image_iff)
  have key: "sch_id (fire_advance now u p r) = sch_id r" for r
    by (simp add: fire_advance_def advance_row_def split: prod.splits)
  show ?thesis
    by (auto simp: update_where_def advance_all_def none key)
qed

lemma fired_ids: "(due_id \<circ> fst) ` set (fired env items) \<subseteq> due_id ` set items"
  by (induction items) (auto split: sum.splits)

lemma distinct_fired: "distinct (map due_id items) \<Longrightarrow> distinct (map (due_id \<circ> fst) (fired env items))"
  using fired_ids [of env] by (induction items) (auto split: sum.splits)

lemma materialize_loop_ok:
  assumes "materialize_loop pg env now items c t s = (Inr n, t', s')"
    and "distinct (map due_id items)"
  shows "t' = t \<and> n = c + length (fired env items) \<and> pg_now s' = pg_now s \<and>
         serial s' = serial s + length (fired env items) \<and>
         tables s' = (tables s)\<lparr>
           runs := runs (tables s) @
             map (\<lambda>k. fired_run now (pg_now s) (fired env items ! k) (uuid_v4 pg (serial s + k)))
               [0..<length (fired env items)],
           schedules := map (advance_all now (pg_now s) (fired env items)) (schedules (tables s))\<rparr>"
  using assms
proof (induction items arbitrary: c s)
  case Nil
  then show ?case by (simp add: advance_all_def)
next
  case (Cons item items)
  show ?case
  proof (cases "Parse env (due_expression item) (due_timezone item)")
    case (Inl e)
    with Cons.prems Cons.IH [of c s] show ?thesis by simp
  next
    case (Inr spec)
    obtain f x m where r: "resolveFireTimes spec item now = (f, x, m)"
      by (cases "resolveFireTimes spec item now") auto
    from Cons.prems(1) Inr r obtain row t1 s1 s2 t2 where
      ins: "tx_call (insert_run pg (due_userID item) (due_agentID item) (Some (due_id item))
              TriggerSchedule (if m then RunMissed else RunPending) f) t s = (Inr row, t1, s1)"
      and adv: "tx_call (advance_schedule (due_id item) f x (WallClock spec f)) t1 s1 = (Inr (), t2, s2)"
      and rest: "materialize_loop pg env now items (Suc c) t2 s2 = (Inr n, t', s')"
      by (auto simp: Let_def split: prod.splits sum.splits)
    note ins' = tx_insert_run_ok [OF ins] and adv' = tx_advance_ok [OF adv]
    have t2: "t2 = t" using ins' adv' by simp
    have notin: "due_id (fst (item, spec)) \<notin> (due_id \<circ> fst) ` set (fired env items)"
      using Cons.prems(2) fired_ids [of env items] by auto
    have fa: "advance_row f x (WallClock spec f) u = fire_advance now u (item, spec)" for u
      by (simp add: fire_advance_def r fun_eq_iff)
    note IH = Cons.IH [OF rest [unfolded t2]]
    have row: "row = fired_run now (pg_now s) (item, spec) (uuid_v4 pg (serial s))"
      using ins' by (simp add: fired_run_def r)
    show ?thesis
      using IH Cons.prems(2) ins' adv' advance_all_Cons [OF notin] Inr
      by (simp add: row fa upt_rec [of 0 "Suc _"] map_Suc_upt [symmetric] comp_def del: upt_Suc)
  qed
qed

lemma scan_due_id [simp]: "due_id (scan_due s) = sch_id s"
  by (simp add: scan_due_def)

lemma due_ids_distinct:
  "distinct (map sch_id (schedules d)) \<Longrightarrow> distinct (map due_id (due_schedules locked now d))"
  by (simp add: due_schedules_def comp_def distinct_map_order_by distinct_map_filter)

lemma RunOnce_ok:
  assumes wf: "distinct (map sch_id (schedules (tables s)))"
    and run: "Materializer_RunOnce pg env locked now s = (Inr created, s')"
  defines "fs \<equiv> fired env (due_schedules locked now (tables s))"
  shows "created = length fs \<and> pg_now s' = pg_now s \<and> serial s' = serial s + length fs \<and>
         tables s' = (tables s)\<lparr>
           runs := runs (tables s) @
             map (\<lambda>k. fired_run now (pg_now s) (fs ! k) (uuid_v4 pg (serial s + k))) [0..<length fs],
           schedules := map (advance_all now (pg_now s) fs) (schedules (tables s))\<rparr>"
proof -
  from run obtain t s1 due t2 s2 t3 s3 where
      b: "Begin s = (Inr t, s1)"
      and q: "tx_call (query (due_schedules locked now)) t s1 = (Inr due, t2, s2)"
      and l: "materialize_loop pg env now due 0 t2 s2 = (Inr created, t3, s3)"
      and c: "Commit t3 s3 = (Inr (), s')"
    by (auto simp: Materializer_RunOnce_def split: prod.splits sum.splits)
  note b' = Begin_ok [OF b] and q' = tx_query_ok [OF q] and c' = Commit_ok [OF c]
  have due: "due = due_schedules locked now (tables s)" using b' q' by simp
  note l' = materialize_loop_ok [OF l] 
  show ?thesis
    using l' b' q' c' due_ids_distinct [OF wf] by (simp add: due fs_def)
qed

text \<open>All cron schedules the environment parses honour the library's contract.\<close>

definition env_later :: "time_env \<Rightarrow> bool" where
  "env_later env \<longleftrightarrow> (\<forall>expression timezone spec.
     Parse env expression timezone = Inr spec \<longrightarrow> spec_later spec)"

lemma resolveFireTimes_bounds:
  assumes "spec_later spec" and "due_nextFireAt item \<le> now"
    and "resolveFireTimes spec item now = (f, x, missed)"
  shows "due_nextFireAt item \<le> f \<and> f \<le> now \<and> missed = (now - f > GraceWindow) \<and>
         (x = zero_time \<or> now < x \<and> x = Next spec f (WallClock spec f))"
proof -
  from assms(3) have l: "resolve_loop spec now maxCatchUpIterations (due_nextFireAt item) = (f, x)"
    and "missed = (now - f > GraceWindow)"
    by (auto simp: resolveFireTimes_def split: prod.splits)
  with resolve_loop_bounds [OF assms(1,2) l] show ?thesis by simp
qed

lemma fired_memb: "p \<in> set (fired env items) \<longleftrightarrow>
    fst p \<in> set items \<and> Parse env (due_expression (fst p)) (due_timezone (fst p)) = Inr (snd p)"
  by (induction items) (auto split: sum.splits)

lemma due_memb: "item \<in> set (due_schedules locked now d) \<longleftrightarrow>
    (\<exists>r \<in> set (schedules d). item = scan_due r \<and> is_due now d r \<and> \<not> locked (sch_id r))"
  by (auto simp: due_schedules_def)

lemma advance_all_id [simp]: "sch_id (advance_all now u ps r) = sch_id r"
  by (simp add: advance_all_def fire_advance_def advance_row_def split: option.splits prod.splits)

text \<open>A schedule the pass fired is no longer due, one it did not fire is unchanged.\<close>

lemma advance_all_fired:
  assumes "env_later env" and "r \<in> set (schedules d)"
    and p: "find (\<lambda>p. due_id (fst p) = sch_id r) (fired env (due_schedules locked now d)) = Some p"
  shows "\<not> is_due now d' (advance_all now u (fired env (due_schedules locked now d)) r)"
proof -
  obtain item spec where ip: "p = (item, spec)" by (cases p)
  have "p \<in> set (fired env (due_schedules locked now d))"
    using p by (auto simp: find_Some_iff)
  then have parse: "Parse env (due_expression item) (due_timezone item) = Inr spec"
    and mem: "item \<in> set (due_schedules locked now d)"
    by (auto simp: fired_memb ip)
  from parse assms(1) have later: "spec_later spec" by (auto simp: env_later_def)
  from mem have le: "due_nextFireAt item \<le> now"
    by (auto simp: due_memb is_due_def scan_due_def fire_time_def split: option.splits)
  obtain f x m where res: "resolveFireTimes spec item now = (f, x, m)"
    by (cases "resolveFireTimes spec item now") auto
  from resolveFireTimes_bounds [OF later le res] have "x = zero_time \<or> now < x" by blast
  then show ?thesis
    by (auto simp: advance_all_def p ip fire_advance_def res is_due_def advance_row_def
        nullableTime_def IsZero_def)
qed

lemma fired_after_pass:
  assumes later: "env_later env"
    and fs: "fs = fired env (due_schedules locked now d)"
    and sch: "schedules d' = map (advance_all now u fs) (schedules d)" and ag: "agents d' = agents d"
    and p: "p \<in> set (fired env (due_schedules locked' now d'))"
  shows "\<exists>r \<in> set (schedules d). sch_id r = due_id (fst p) \<and> is_due now d r \<and> locked (sch_id r) \<and> \<not> locked' (sch_id r)"
proof -
  from p obtain r where r: "r \<in> set (schedules d)" "fst p = scan_due (advance_all now u fs r)"
    and due: "is_due now d' (advance_all now u fs r)" and free: "\<not> locked' (sch_id r)"
    and parse: "Parse env (due_expression (fst p)) (due_timezone (fst p)) = Inr (snd p)"
    by (auto simp: fired_memb due_memb sch advance_all_id)
  have none: "find (\<lambda>p. due_id (fst p) = sch_id r) fs = None"
    using advance_all_fired [OF later r(1)] due by (cases "find (\<lambda>p. due_id (fst p) = sch_id r) fs") (auto simp: fs)
  then have same: "advance_all now u fs r = r" by (simp add: advance_all_def)
  then have due: "is_due now d r" using due by (simp add: is_due_def ag)
  have "locked (sch_id r)"
  proof (rule ccontr)
    assume "\<not> locked (sch_id r)"
    then have "scan_due r \<in> set (due_schedules locked now d)" using due r(1) by (auto simp: due_memb)
    then have "(scan_due r, snd p) \<in> set fs" using parse r(2) same by (simp add: fs fired_memb)
    with none show False by (auto simp: find_None_iff scan_due_def)
  qed
  then show ?thesis using r same due free by (auto simp: scan_due_def)
qed

text \<open>The row of a schedule that a pass fires.\<close>

lemma fired_row:
  assumes "distinct (map sch_id (schedules d))" and "r \<in> set (schedules d)" and "is_due now d r" and "\<not> locked (sch_id r)"
    and "Parse env (sch_cron_expression r) (sch_timezone r) = Inr spec"
  shows "advance_all now u (fired env (due_schedules locked now d)) r = fire_advance now u (scan_due r, spec) r"
proof -
  let ?fs = "fired env (due_schedules locked now d)"
  have mem: "(scan_due r, spec) \<in> set ?fs" using assms(2-5) by (auto simp: fired_memb due_memb scan_due_def)
  have "p = (scan_due r, spec)" if p: "p \<in> set ?fs" "due_id (fst p) = sch_id r" for p
  proof -
    from p obtain r' where "r' \<in> set (schedules d)" "fst p = scan_due r'"
      and parse: "Parse env (due_expression (fst p)) (due_timezone (fst p)) = Inr (snd p)" by (auto simp: fired_memb due_memb)
    with p(2) assms(1,2) have "r' = r" by (auto simp: scan_due_def distinct_map dest: inj_onD)
    with \<open>fst p = scan_due r'\<close> parse assms(5) show ?thesis by (cases p) (simp add: scan_due_def)
  qed
  moreover obtain q where q: "find (\<lambda>p. due_id (fst p) = sch_id r) ?fs = Some q"
    using mem by (cases "find (\<lambda>p. due_id (fst p) = sch_id r) ?fs") (auto simp: find_None_iff scan_due_def)
  moreover have "q \<in> set ?fs" "due_id (fst q) = sch_id r" using q by (auto simp: find_Some_iff)
  ultimately have "q = (scan_due r, spec)" by blast
  then show ?thesis by (simp add: advance_all_def q)
qed

lemma advance_all_Nil [simp]: "advance_all now u [] = id"
  by (simp add: advance_all_def fun_eq_iff)

lemma loop_blind:
  assumes "materialize_loop pg env now items c t s = (Inr n, t', s')"
  shows "materialize_loop pg env now items c t (s\<lparr>outcomes := []\<rparr>) = (Inr n, t, s'\<lparr>outcomes := []\<rparr>)"
  using assms
proof (induction items arbitrary: c s)
  case (Cons item items)
  show ?case
  proof (cases "Parse env (due_expression item) (due_timezone item)")
    case (Inl e)
    with Cons.prems Cons.IH show ?thesis by simp
  next
    case (Inr spec)
    obtain f x m where r: "resolveFireTimes spec item now = (f, x, m)"
      by (cases "resolveFireTimes spec item now") auto
    from Cons.prems(1) Inr r obtain row t1 s1 s2 t2 where
      ins: "tx_call (insert_run pg (due_userID item) (due_agentID item) (Some (due_id item))
              TriggerSchedule (if m then RunMissed else RunPending) f) t s = (Inr row, t1, s1)"
      and adv: "tx_call (advance_schedule (due_id item) f x (WallClock spec f)) t1 s1 = (Inr (), t2, s2)"
      and rest: "materialize_loop pg env now items (Suc c) t2 s2 = (Inr n, t', s')"
      by (auto simp: Let_def split: prod.splits sum.splits)
    from insert_run_stmt.tx_ok [OF ins] advance_schedule_stmt.tx_ok [OF adv] rest Cons.IH Inr r
    show ?thesis by (simp add: Let_def)
  qed
qed simp

lemma db_wf_sch_ids: "db_wf d \<Longrightarrow> distinct (map sch_id (schedules d))"
  by (simp add: db_wf_defs)

lemma loop_saved: "tx_saved (fst (snd (materialize_loop pg env now items c t s))) = tx_saved t"
proof (induction items arbitrary: c t s)
  case (Cons item items)
  show ?case
    using Cons.IH by (auto simp: Let_def dest!: tx_call_saved_D split: sum.splits prod.splits)
qed simp

lemma materialize_loop_none:
  "fired env items = [] \<Longrightarrow> materialize_loop pg env now items c t s = (Inr c, t, s)"
  by (induction items) (auto split: sum.splits)

section \<open>Properties\<close>

text \<open>
  The catch-up walk of \<open>resolveFireTimes\<close> lands on a fire time between the one that was
  due and now, marks it missed exactly when it lies further back than the grace window, and the
  next fire time it returns lies in the future and is the schedule's successor of the fire time
  (or is the zero time).
\<close>

theorem resolve_picks_latest_past_fire:
  assumes "spec_later spec" and "due_nextFireAt item \<le> now"
    and "resolveFireTimes spec item now = (fireAt, nextFireAt, missed)"
  shows "due_nextFireAt item \<le> fireAt \<and> fireAt \<le> now \<and> (missed \<longleftrightarrow> now - fireAt > GraceWindow) \<and>
         (nextFireAt = zero_time \<or>
          now < nextFireAt \<and> nextFireAt = Next spec fireAt (WallClock spec fireAt))"
  using resolveFireTimes_bounds [OF assms] by blast

definition demo_spec :: Spec where
  "demo_spec = \<lparr>Spec_Expression = ''0 0 * * *'', Spec_Location = (\<lambda>_. 0), Spec_schedule = daily\<rparr>"

lemma demo_spec_later: "spec_later demo_spec"
  by (simp add: spec_later_def demo_spec_def daily_later)

definition demo_due :: dueSchedule where
  "demo_due = scan_due (demo_schedule ''s1'' ''a1'')"

lemma demo_due_fire: "due_nextFireAt demo_due = 739402 * Day"
  by (simp add: demo_due_def scan_due_def fire_time_def demo_schedule_def)

lemma demo_walls: "WallClock demo_spec (739402 * Day) = ''2025-06-01T00:00:00''"
    "WallClock demo_spec (739403 * Day) = ''2025-06-02T00:00:00''"
  by code_simp+

lemma demo_Next: "Next demo_spec (739402 * Day) ''2025-06-01T00:00:00'' = 739403 * Day"
proof -
  have s: "schedule_Next demo_spec (739402 * Day) = 739403 * Day"
    by (simp add: schedule_Next_def demo_spec_def daily_def Day_def)
  show ?thesis using Next_other_wall [of demo_spec "739402 * Day"] by (simp add: s demo_walls)
qed

lemma resolve_loop_first:
  assumes "0 < n" and "Next spec f (WallClock spec f) = x" and "x \<noteq> zero_time" and "now < x"
  shows "resolve_loop spec now n f = (f, x)"
  using assms by (cases n) (simp_all add: Let_def IsZero_def)

lemma demo_resolve: "resolveFireTimes demo_spec demo_due demo_now = (739402 * Day, 739403 * Day, False)"
proof -
  have "resolve_loop demo_spec demo_now maxCatchUpIterations (739402 * Day) = (739402 * Day, 739403 * Day)"
  proof (rule resolve_loop_first)
    show "Next demo_spec (739402 * Day) (WallClock demo_spec (739402 * Day)) = 739403 * Day"
      by (simp add: demo_walls demo_Next)
  qed (simp_all add: maxCatchUpIterations_def zero_time_def demo_now_def Day_def Minute_def)
  then show ?thesis
    by (simp add: resolveFireTimes_def demo_due_fire demo_now_def GraceWindow_def Minute_def)
qed

theorem resolve_picks_latest_past_fire_witness:
  "spec_later demo_spec \<and> due_nextFireAt demo_due \<le> demo_now \<and>
   resolveFireTimes demo_spec demo_due demo_now = (739402 * Day, 739403 * Day, False) \<and>
   demo_now < 739403 * Day"
proof -
  have le: "due_nextFireAt demo_due \<le> demo_now" 
    by (simp add: demo_due_fire demo_now_def Minute_def)
  note resolve_picks_latest_past_fire [OF demo_spec_later le demo_resolve]
  then have "739403 * Day = zero_time \<or> demo_now < 739403 * Day" by blast
  then show ?thesis using demo_spec_later le demo_resolve by (simp add: Day_def zero_time_def)
qed

text \<open>
  C34: enough iterations. While consecutive fire times lie at least the minimum interval apart and
  the outage is shorter than the bound on the walk times that interval, the walk is not cut
  short: the next fire time it returns is the schedule's own successor of the fire time it
  picked, so a schedule that still fires is never parked.
\<close>

theorem catch_up_bound_suffices:
  assumes gap: "\<And>k. fire_chain spec (due_nextFireAt item) (Suc k) = zero_time
      \<or> fire_chain spec (due_nextFireAt item) k + MinimumInterval
          \<le> fire_chain spec (due_nextFireAt item) (Suc k)"
    and "due_nextFireAt item \<le> now"
    and short: "now < due_nextFireAt item + int maxCatchUpIterations * MinimumInterval"
    and "resolveFireTimes spec item now = (fireAt, nextFireAt, missed)"
  shows "nextFireAt = Next spec fireAt (WallClock spec fireAt)"
proof (rule resolve_loop_enough [OF gap short assms(2)])
  show "resolve_loop spec now maxCatchUpIterations (due_nextFireAt item) = (fireAt, nextFireAt)"
    using assms(4) by (auto simp: resolveFireTimes_def split: prod.splits)
qed

lemma daily_Next: "t mod Day = 0 \<Longrightarrow> Next demo_spec t w \<in> {zero_time, t + Day, t + 2 * Day}"
  using Next_fire [of demo_spec t w]
  by (auto simp: schedule_Next_def demo_spec_def daily_def Day_def mod_eq_0_iff_dvd)

lemma daily_chain_mod: "fire_chain demo_spec (739402 * Day) k mod Day = 0"
proof (induction k)
  case (Suc k)
  show ?case
    using daily_Next [OF Suc.IH, of "WallClock demo_spec (fire_chain demo_spec (739402 * Day) k)"] Suc.IH
    by (auto simp: fire_chain_snoc zero_time_def mod_eq_0_iff_dvd simp del: fire_chain.simps)
qed simp

theorem catch_up_bound_suffices_witness:
  "due_nextFireAt demo_due \<le> demo_now \<and>
   demo_now < due_nextFireAt demo_due + int maxCatchUpIterations * MinimumInterval \<and>
   739403 * Day = Next demo_spec (739402 * Day) (WallClock demo_spec (739402 * Day))"
proof -
  have gap: "fire_chain demo_spec (due_nextFireAt demo_due) (Suc k) = zero_time
      \<or> fire_chain demo_spec (due_nextFireAt demo_due) k + MinimumInterval
          \<le> fire_chain demo_spec (due_nextFireAt demo_due) (Suc k)" for k
    using daily_Next [OF daily_chain_mod [of k],
        of "WallClock demo_spec (fire_chain demo_spec (739402 * Day) k)"]
    by (auto simp: fire_chain_snoc demo_due_fire Day_def MinimumInterval_def Minute_def
        simp del: fire_chain.simps)
  have le: "due_nextFireAt demo_due \<le> demo_now" by (simp add: demo_due_fire demo_now_def Minute_def)
  have short: "demo_now < due_nextFireAt demo_due + int maxCatchUpIterations * MinimumInterval"
    by (simp add: demo_due_fire demo_now_def maxCatchUpIterations_def MinimumInterval_def Minute_def)
  from catch_up_bound_suffices [OF gap le short demo_resolve] le short show ?thesis by simp
qed

text \<open>
  C2: a pass that succeeds records exactly one run for every due schedule that parses and for
  nothing else. The run names the schedule, is triggered by it, and is pending when its fire
  time is within the grace window and missed when it is older.
\<close>

theorem materializer_one_run_per_due_schedule:
  assumes "db_wf (tables s)" and "Materializer_RunOnce pg env locked now s = (Inr created, s')"
  shows "\<exists>new. runs (tables s') = runs (tables s) @ new \<and> length new = created \<and>
     map r_schedule_id new =
       map (\<lambda>p. Some (due_id (fst p))) (fired env (due_schedules locked now (tables s))) \<and>
     distinct (map r_schedule_id new) \<and>
     (\<forall>r \<in> set new. r_trigger r = TriggerSchedule \<and>
        r_status r = (if now - r_scheduled_for r > GraceWindow then RunMissed else RunPending))"
proof -
  let ?fs = "fired env (due_schedules locked now (tables s))"
  let ?row = "\<lambda>k. fired_run now (pg_now s) (?fs ! k) (uuid_v4 pg (serial s + k))"
  note ok = RunOnce_ok [OF db_wf_sch_ids [OF assms(1)] assms(2)]
  have sid: "r_schedule_id (fired_run now c p i) = Some (due_id (fst p))" for c p i
    by (simp add: fired_run_def new_run_row_def split: prod.splits)
  have fields: "r_trigger (fired_run now c p i) = TriggerSchedule \<and>
      r_status (fired_run now c p i) =
        (if now - r_scheduled_for (fired_run now c p i) > GraceWindow then RunMissed else RunPending)"
    for c p i
    by (auto simp: fired_run_def new_run_row_def resolveFireTimes_def split: prod.splits)
  have ids: "map r_schedule_id (map ?row [0..<length ?fs]) = map (\<lambda>p. Some (due_id (fst p))) ?fs"
    by (simp add: sid comp_def) (rule nth_equalityI, simp_all)
  have "distinct (map (due_id \<circ> fst) ?fs)"
    by (rule distinct_fired [OF due_ids_distinct [OF db_wf_sch_ids [OF assms(1)]]])
  then have "distinct (map (\<lambda>p. Some (due_id (fst p))) ?fs)"
    by (auto simp: distinct_map inj_on_def)
  then show ?thesis
    using ok ids fields by (intro exI [of _ "map ?row [0..<length ?fs]"]) auto
qed

lemma demo_Parse: "Parse demo_env ''0 0 * * *'' ''UTC'' = Inr demo_spec"
  by (simp add: Parse_def demo_env_def checkGranularity_def Let_def schedule_Next_def daily_def
      Date_in_def reference_reading_def IsZero_def zero_time_def Hour_def Day_def
      MinimumInterval_def Minute_def demo_spec_def)

lemma demo_server_simps [simp]: "tables demo_server = demo_db" "outcomes demo_server = []"
    "pg_now demo_server = demo_now" "schedules demo_db = [demo_schedule ''s1'' ''a1'']"
    "agents demo_db = [demo_agent ''a1'']" "runs demo_db = [demo_run ''r1'' ''a1'' RunPending 5]"
  by (simp_all add: demo_server_def demo_db_def)

lemma demo_due_id: "due_id demo_due = ''s1''"
  by (simp add: demo_due_def demo_schedule_def)

lemma demo_due_list: "due_schedules (\<lambda>_. False) demo_now demo_db = [demo_due]"
  by (simp add: due_schedules_def demo_due_def is_due_def order_by_def demo_db_def demo_schedule_def
      demo_agent_def demo_now_def Minute_def)

lemma demo_fired: "fired demo_env [demo_due] = [(demo_due, demo_spec)]"
proof -
  have "due_expression demo_due = ''0 0 * * *''" and "due_timezone demo_due = ''UTC''"
    by (simp_all add: demo_due_def scan_due_def demo_schedule_def)
  then show ?thesis by (simp add: demo_Parse)
qed

lemma demo_RunOnce:
  "\<exists>s'. Materializer_RunOnce demo_pg demo_env (\<lambda>_. False) demo_now demo_server = (Inr 1, s') \<and>
     outcomes s' = []"
proof -
  have e: "due_expression demo_due = ''0 0 * * *''" "due_timezone demo_due = ''UTC''"
      "due_agentID demo_due = ''a1''" "due_userID demo_due = OwnerUserID" "due_id demo_due = ''s1''"
    by (simp_all add: demo_due_def scan_due_def demo_schedule_def)
  have rows: "OwnerUserID \<in> usr_id ` set (users demo_db)" "''s1'' \<in> sch_id ` set (schedules demo_db)"
    by (simp_all add: demo_db_def demo_user_def demo_schedule_def)
  show ?thesis
    by (simp add: Materializer_RunOnce_def Begin_def tx_call_def query_def demo_due_list e rows
        demo_Parse demo_resolve insert_run_def demo_agent_def demo_schedule_def Let_def advance_schedule_def exec_def Commit_def)
qed

theorem materializer_one_run_per_due_schedule_witness:
  "\<exists>new. runs (tables (snd (Materializer_RunOnce demo_pg demo_env (\<lambda>_. False) demo_now demo_server)))
       = runs demo_db @ new \<and> length new = 1 \<and> map r_schedule_id new = [Some ''s1'']"
proof -
  have wf: "db_wf (tables demo_server)" by (simp add: demo_db_wf)
  obtain s' where run: "Materializer_RunOnce demo_pg demo_env (\<lambda>_. False) demo_now demo_server = (Inr 1, s')"
    using demo_RunOnce by blast
  from materializer_one_run_per_due_schedule [OF wf run] show ?thesis
    by (auto simp: run demo_due_list demo_fired demo_due_id simp del: fired.simps)
qed

text \<open>
  C18: a second pass at the same instant fires no schedule again. Whatever rows other transactions
  held during the two passes, when both succeed the second makes runs only for due schedules the
  first had to skip because they were locked; when the first skipped none, the second creates no run and changes nothing.
\<close>

theorem materializer_idempotent:
  assumes "db_wf (tables s)" and "env_later env"
    and "Materializer_RunOnce pg env locked now s = (Inr created, s')"
    and "Materializer_RunOnce pg env locked' now s' = (Inr again, s'')"
  shows "(\<exists>more. runs (tables s'') = runs (tables s') @ more \<and> length more = again \<and>
      (\<forall>r \<in> set more. \<exists>sch \<in> set (schedules (tables s)). r_schedule_id r = Some (sch_id sch) \<and>
         is_due now (tables s) sch \<and> locked (sch_id sch) \<and> \<not> locked' (sch_id sch))) \<and>
    ((\<forall>sch \<in> set (schedules (tables s)). is_due now (tables s) sch \<longrightarrow> \<not> locked (sch_id sch)) \<longrightarrow>
       again = 0 \<and> tables s'' = tables s')"
proof -
  let ?fs = "fired env (due_schedules locked' now (tables s'))"
  let ?row = "\<lambda>k. fired_run now (pg_now s') (?fs ! k) (uuid_v4 pg (serial s' + k))"
  note first = RunOnce_ok [OF db_wf_sch_ids [OF assms(1)] assms(3)]
  have ids: "distinct (map sch_id (schedules (tables s')))"
    using first db_wf_sch_ids [OF assms(1)] by (simp add: comp_def)
  note second = RunOnce_ok [OF ids assms(4)]
  have skipped: "\<exists>sch \<in> set (schedules (tables s)). sch_id sch = due_id (fst p) \<and> is_due now (tables s) sch \<and>
      locked (sch_id sch) \<and> \<not> locked' (sch_id sch)" if "p \<in> set ?fs" for p
    by (rule fired_after_pass [OF assms(2) refl _ _ that]) (use first in auto)
  have sid: "r_schedule_id (fired_run now c p i) = Some (due_id (fst p))" for c p i
    by (simp add: fired_run_def new_run_row_def split: prod.splits)
  have "\<exists>sch \<in> set (schedules (tables s)). r_schedule_id r = Some (sch_id sch) \<and>
      is_due now (tables s) sch \<and> locked (sch_id sch) \<and> \<not> locked' (sch_id sch)" if r: "r \<in> set (map ?row [0..<length ?fs])" for r
  proof -
    obtain k where k: "k < length ?fs" and row: "r = ?row k" using r by auto
    have "r_schedule_id r = Some (due_id (fst (?fs ! k)))" unfolding row by (rule sid)
    with skipped [OF nth_mem [OF k]] show ?thesis by metis
  qed
  moreover have "?fs = []" if "\<forall>sch \<in> set (schedules (tables s)). is_due now (tables s) sch \<longrightarrow> \<not> locked (sch_id sch)"
  proof (rule ccontr)
    assume "?fs \<noteq> []"
    then have "hd ?fs \<in> set ?fs" by simp
    then show False using skipped that by blast
  qed
  moreover have "runs (tables s'') = runs (tables s') @ map ?row [0..<length ?fs]" "length (map ?row [0..<length ?fs]) = again"
    using second by simp_all
  moreover have "?fs = [] \<Longrightarrow> again = 0 \<and> tables s'' = tables s'" using second by simp
  ultimately show ?thesis by (intro conjI exI [of _ "map ?row [0..<length ?fs]"]) blast+
qed

lemma demo_env_later: "env_later demo_env"
  by (auto simp: env_later_def demo_Parse_later)

theorem materializer_idempotent_witness:
  "\<exists>s' s''. Materializer_RunOnce demo_pg demo_env (\<lambda>_. False) demo_now demo_server = (Inr 1, s') \<and>
     Materializer_RunOnce demo_pg demo_env (\<lambda>_. False) demo_now s' = (Inr 0, s'') \<and>
     tables s'' = tables s'"
proof -
  let ?run = "Materializer_RunOnce demo_pg demo_env (\<lambda>_. False) demo_now"
  have wf: "db_wf (tables demo_server)" by (simp add: demo_db_wf)
  obtain s' where first: "?run demo_server = (Inr 1, s')" and o: "outcomes s' = []"
    using demo_RunOnce by blast
  have sch: "schedules (tables s') = [advance_all demo_now demo_now [(demo_due, demo_spec)]
      (demo_schedule ''s1'' ''a1'')]" and ag: "agents (tables s') = agents demo_db"
    using RunOnce_ok [OF db_wf_sch_ids [OF wf] first]
    by (auto simp: demo_due_list demo_fired simp del: fired.simps)
  have "p \<notin> set (fired demo_env (due_schedules (\<lambda>_. False) demo_now (tables s')))" for p
    using fired_after_pass [OF demo_env_later refl, where d = demo_db and now = demo_now and u = demo_now and d' = "tables s'"
        and locked = "\<lambda>_. False" and locked' = "\<lambda>_. False" and p = p]
    by (intro notI) (simp add: sch ag demo_due_list demo_fired del: fired.simps)
  then have "fired demo_env (due_schedules (\<lambda>_. False) demo_now (tables s')) = []" by (metis list.set_intros(1) neq_Nil_conv)
  then obtain s'' where second: "?run s' = (Inr 0, s'')"
    using o by (auto simp: Materializer_RunOnce_def Begin_def tx_call_def query_def Commit_def
        materialize_loop_none)
  from materializer_idempotent [OF wf demo_env_later first second] first second show ?thesis by blast
qed

text \<open>
  C17: a pass is all or nothing. However its calls to the database end, the tables afterwards are
  the ones before it or the ones a pass without any failing call leaves.
\<close>

theorem materializer_atomic:
  "tables (snd (Materializer_RunOnce pg env locked now s))
     \<in> {tables s, tables (snd (Materializer_RunOnce pg env locked now (s\<lparr>outcomes := []\<rparr>)))}"
proof (cases "Begin s")
  case (Pair r s1)
  show ?thesis
  proof (cases r)
    case (Inl e)
    with Pair have "tables s1 = tables s"
      by (auto simp: Begin_def pool_call_def dest: next_outcome_D split: prod.splits outcome.splits)
    with Pair Inl show ?thesis by (simp add: Materializer_RunOnce_def)
  next
    case (Inr t)
    note b = Begin_ok [OF Pair [unfolded Inr]]
    obtain rq t2 s2 where q: "tx_call (query (due_schedules locked now)) t s1 = (rq, t2, s2)"
      by (metis prod.collapse)
    have t2: "tx_saved t2 = tables s"
      using tx_call_saved_D [OF q] b by simp
    show ?thesis
    proof (cases rq)
      case (Inl e)
      with Pair Inr q t2 show ?thesis by (simp add: Materializer_RunOnce_def Rollback_def)
    next
      case due: (Inr due)
      note q' = tx_query_ok [OF q [unfolded due]]
      obtain rl t3 s3 where l: "materialize_loop pg env now due 0 t2 s2 = (rl, t3, s3)"
        by (metis prod.collapse)
      have t3: "tx_saved t3 = tables s"
        using loop_saved [of pg env now due 0 t2 s2] l t2 by simp
      show ?thesis
      proof (cases rl)
        case (Inl e)
        with Pair Inr q due l t3 show ?thesis by (simp add: Materializer_RunOnce_def Rollback_def)
      next
        case ok: (Inr n)
        note blind = loop_blind [OF l [unfolded ok]]
        have s2: "s2\<lparr>outcomes := []\<rparr> = s\<lparr>outcomes := []\<rparr>" using q' b by simp
        have clean: "tables (snd (Materializer_RunOnce pg env locked now (s\<lparr>outcomes := []\<rparr>))) = tables s3"
          using blind b q' s2
          by (simp add: Materializer_RunOnce_def Begin_def tx_call_def query_def Commit_def)
        have "tables (snd (Commit t3 s3)) \<in> {tables s, tables s3}"
          using t3 by (auto simp: Commit_def Rollback_def dest: next_outcome_D split: prod.splits outcome.splits)
        with Pair Inr q due l ok clean show ?thesis
          by (auto simp: Materializer_RunOnce_def split: prod.splits sum.splits)
      qed
    qed
  qed
qed

text \<open>
  C35: past that bound a schedule is lost. When, at a pass that succeeds, as many fire times of a due
  schedule as the bound have gone by, the pass fires it for the last one it visited and stores NULL as its next fire
  time although that fire time has a successor: the schedule is still enabled, and at no later
  instant, whatever else is in the database, is it due again.
\<close>

theorem long_outage_parks_schedule:
  assumes "db_wf (tables s)" and "Materializer_RunOnce pg env locked now s = (Inr created, s')"
    and "sch \<in> set (schedules (tables s))" and "is_due now (tables s) sch" and "\<not> locked (sch_id sch)"
    and "Parse env (sch_cron_expression sch) (sch_timezone sch) = Inr spec"
    and "\<And>k. k < maxCatchUpIterations \<Longrightarrow> fire_chain spec (fire_time sch) (Suc k) \<le> now"
    and "\<And>k. k \<le> maxCatchUpIterations \<Longrightarrow> fire_chain spec (fire_time sch) (Suc k) \<noteq> zero_time"
  shows "\<exists>sch' \<in> set (schedules (tables s')). \<exists>last. sch_id sch' = sch_id sch \<and> sch_enabled sch' \<and>
     sch_last_fired_at sch' = Some last \<and> Next spec last (WallClock spec last) \<noteq> zero_time \<and>
     sch_next_fire_at sch' = None \<and> (\<forall>later d. \<not> is_due later d sch')"
proof -
  let ?last = "fire_chain spec (fire_time sch) maxCatchUpIterations"
  have "due_nextFireAt (scan_due sch) = fire_time sch" by (simp add: scan_due_def)
  then obtain missed where res: "resolveFireTimes spec (scan_due sch) now = (?last, zero_time, missed)"
    using resolve_loop_exhausted [of maxCatchUpIterations spec "fire_time sch" now] assms(7,8)
    by (simp add: resolveFireTimes_def)
  let ?sch = "advance_row ?last zero_time (WallClock spec ?last) (pg_now s) sch"
  note ids = db_wf_sch_ids [OF assms(1)]
  have "advance_all now (pg_now s) (fired env (due_schedules locked now (tables s))) sch = ?sch"
    using fired_row [where locked = locked, OF ids assms(3-6)] by (simp add: fire_advance_def res)
  then have "?sch \<in> set (schedules (tables s'))"
    using RunOnce_ok [OF ids assms(2)] assms(3) by force
  moreover have "Next spec ?last (WallClock spec ?last) \<noteq> zero_time"
    using assms(8) [of maxCatchUpIterations] by (simp only: fire_chain_snoc) simp
  moreover have "sch_enabled sch" using assms(4) by (simp add: is_due_def)
  ultimately show ?thesis
    by (intro bexI [of _ ?sch] exI [of _ ?last]) (simp_all add: advance_row_def nullableTime_def IsZero_def is_due_def)
qed

text \<open>The daily schedule of the fixture after more than two hundred thousand days.\<close>

definition far_now :: time where "far_now = 739402 * Day + 200001 * Day"

lemma far_chain:
  "k < maxCatchUpIterations \<Longrightarrow> fire_chain demo_spec (739402 * Day) (Suc k) \<le> far_now"
  "fire_chain demo_spec (739402 * Day) (Suc k) \<noteq> zero_time"
proof -
  have step: "fire_chain demo_spec (739402 * Day) k + Day \<le> fire_chain demo_spec (739402 * Day) (Suc k) \<and>
     fire_chain demo_spec (739402 * Day) (Suc k) \<le> fire_chain demo_spec (739402 * Day) k + 2 * Day"
     if "fire_chain demo_spec (739402 * Day) k > 0" for k
  proof -
    let ?t = "fire_chain demo_spec (739402 * Day) k"
    have "schedule_Next demo_spec t \<noteq> zero_time" if "t mod Day = 0" "t > 0" for t
      using that by (simp add: schedule_Next_def demo_spec_def daily_def zero_time_def Day_def)
    then have "Next demo_spec ?t w \<noteq> zero_time" for w
      using daily_chain_mod [of k] that
      by (auto simp: Next_def Let_def IsZero_def schedule_Next_def demo_spec_def daily_def zero_time_def Day_def)
    then show ?thesis
      using daily_Next [OF daily_chain_mod [of k], of "WallClock demo_spec ?t"]
      by (auto simp: fire_chain_snoc Day_def simp del: fire_chain.simps)
  qed
  have bounds: "739402 * Day \<le> fire_chain demo_spec (739402 * Day) k \<and>
      fire_chain demo_spec (739402 * Day) k \<le> 739402 * Day + int k * 2 * Day" for k
  proof (induction k)
    case (Suc k)
    then have "fire_chain demo_spec (739402 * Day) k > 0" by (simp add: Day_def)
    from step [OF this] Suc show ?case by (simp add: Day_def del: fire_chain.simps)
  qed simp
  show "k < maxCatchUpIterations \<Longrightarrow> fire_chain demo_spec (739402 * Day) (Suc k) \<le> far_now"
    using bounds [of "Suc k"] by (simp add: far_now_def maxCatchUpIterations_def Day_def del: fire_chain.simps)
  show "fire_chain demo_spec (739402 * Day) (Suc k) \<noteq> zero_time"
    using bounds [of "Suc k"] by (simp add: zero_time_def Day_def del: fire_chain.simps)
qed

lemma far_RunOnce: "\<exists>s'. Materializer_RunOnce demo_pg demo_env (\<lambda>_. False) far_now demo_server = (Inr 1, s')"
proof -
  have e: "due_expression demo_due = ''0 0 * * *''" "due_timezone demo_due = ''UTC''"
      "due_agentID demo_due = ''a1''" "due_userID demo_due = OwnerUserID" "due_id demo_due = ''s1''"
    by (simp_all add: demo_due_def scan_due_def demo_schedule_def)
  have rows: "OwnerUserID \<in> usr_id ` set (users demo_db)" "''s1'' \<in> sch_id ` set (schedules demo_db)"
    by (simp_all add: demo_db_def demo_user_def demo_schedule_def)
  have due: "due_schedules (\<lambda>_. False) far_now demo_db = [demo_due]"
    by (simp add: due_schedules_def demo_due_def is_due_def order_by_def demo_db_def demo_schedule_def
        demo_agent_def far_now_def Day_def)
  obtain f x m where res: "resolveFireTimes demo_spec demo_due far_now = (f, x, m)" by (rule prod_cases3)
  show ?thesis
    by (simp add: Materializer_RunOnce_def Begin_def tx_call_def query_def due e rows
        demo_Parse res insert_run_def demo_agent_def demo_schedule_def Let_def advance_schedule_def exec_def Commit_def)
qed

theorem long_outage_parks_schedule_witness:
  "\<exists>s' sch'. Materializer_RunOnce demo_pg demo_env (\<lambda>_. False) far_now demo_server = (Inr 1, s') \<and>
     sch' \<in> set (schedules (tables s')) \<and> sch_id sch' = ''s1'' \<and> sch_enabled sch' \<and> (\<forall>later d. \<not> is_due later d sch')"
proof -
  let ?sch = "demo_schedule ''s1'' ''a1''"
  have sch: "sch_cron_expression ?sch = ''0 0 * * *''" "sch_timezone ?sch = ''UTC''" "sch_id ?sch = ''s1''"
      "fire_time ?sch = 739402 * Day" "is_due far_now demo_db ?sch"
    by (simp_all add: demo_schedule_def fire_time_def is_due_def demo_db_def demo_agent_def far_now_def Day_def)
  obtain s' where run: "Materializer_RunOnce demo_pg demo_env (\<lambda>_. False) far_now demo_server = (Inr 1, s')"
    using far_RunOnce by blast
  have wf: "db_wf (tables demo_server)" by (simp add: demo_db_wf)
  have mem: "?sch \<in> set (schedules (tables demo_server))" by simp
  have "\<exists>sch' \<in> set (schedules (tables s')). \<exists>last. sch_id sch' = sch_id ?sch \<and> sch_enabled sch' \<and>
     sch_last_fired_at sch' = Some last \<and> Next demo_spec last (WallClock demo_spec last) \<noteq> zero_time \<and>
     sch_next_fire_at sch' = None \<and> (\<forall>later d. \<not> is_due later d sch')"
    by (rule long_outage_parks_schedule [OF wf run mem]) (use sch demo_Parse far_chain in \<open>simp_all del: fire_chain.simps\<close>)
  with run sch(3) show ?thesis by metis
qed

end
