(* ===== verification/Executor.thy ===== *)
theory Executor
  imports Toolset Worker
begin

text \<open>
  \<open>pkg/executor\<close>: the tool-calling loop that is the work of a run.
\<close>

section \<open>Definitions\<close>

text \<open>
  What an \<open>Executor\<close> is built from: the database, the secret store (which may be nil), the
  tools, the fallback key, and how the model provider is reached.
\<close>

record 'h Executor =
  ex_pg :: postgres
  ex_secrets :: "Sealer option"
  ex_registry :: "'h world Registry"
  ex_fallbackAPIKey :: string
  ex_wire :: wire
  ex_http :: "'h http"

definition credentialFor :: "'h Executor \<Rightarrow> Agent \<Rightarrow> 'h world \<Rightarrow> string res \<times> 'h world" where
  "credentialFor e agent w =
     (case ex_secrets e of
        None \<Rightarrow> (Inr (ex_fallbackAPIKey e), w)
      | Some sealer \<Rightarrow>
          (case on_server (Reveal sealer OwnerUserID (Agent_SecretName agent)) w of
             (Inl err, w1) \<Rightarrow>
               if err = ErrNotFound then
                 if ex_fallbackAPIKey e \<noteq> [] then (Inr (ex_fallbackAPIKey e), w1)
                 else (Inl (Errorf (''no credential named '' @ Quote (Agent_SecretName agent) @ '' is stored'')), w1)
               else (Inl err, w1)
           | (Inr v, w1) \<Rightarrow> (Inr v, w1)))"

text \<open>\<open>strings.ToUpper\<close> on ASCII text, which the roles are.\<close>

definition ToUpper :: "string \<Rightarrow> string" where
  "ToUpper s = map (\<lambda>c. let n = (of_char c :: nat) in if 97 \<le> n \<and> n \<le> 122 then char_of (n - 32) else c) s"

definition renderPrompt :: "Message list \<Rightarrow> string" where
  "renderPrompt messages =
     Join (map (\<lambda>m. ToUpper (Message_Role m) @ '':'' @ [newline] @ Message_Content m) messages) [newline, newline]"

definition plain_message :: "string \<Rightarrow> string \<Rightarrow> Message" where
  "plain_message role content =
     \<lparr>Message_Role = role, Message_Content = content, Message_ToolCalls = [], Message_ToolCallID = []\<rparr>"

definition buildInitialMessages :: "'h Executor \<Rightarrow> Agent \<Rightarrow> 'h world \<Rightarrow> Message list res \<times> 'h world" where
  "buildInitialMessages e agent w =
     (let system = (if Agent_SystemPrompt agent \<noteq> [] then [plain_message RoleSystem (Agent_SystemPrompt agent)] else []);
          user = [plain_message RoleUser (Agent_UserPrompt agent)]
      in if Agent_ContextMode agent = ContextLastN \<and> Agent_ContextRuns agent > 0 then
           (case on_server (RecentOutputs (ex_pg e) OwnerUserID (Agent_ID agent) (Agent_ContextRuns agent)) w of
              (Inl err, w1) \<Rightarrow> (Inl err, w1)
            | (Inr previous, w1) \<Rightarrow>
                (Inr (system @ (if previous \<noteq> [] then
                    [plain_message RoleUser (''Output of your previous runs, most recent first:'' @ [newline, newline]
                       @ Join previous ([newline, newline] @ ''---'' @ [newline, newline]))] else []) @ user), w1))
         else (Inr (system @ user), w))"

definition stoppedByBudget :: "Result \<Rightarrow> string \<Rightarrow> Result" where
  "stoppedByBudget result reason =
     (let r = result\<lparr>BudgetExceeded := True\<rparr> in if Output r = [] then r\<lparr>Output := reason\<rparr> else r)"

definition runTool ::
    "'h Executor \<Rightarrow> Agent \<Rightarrow> ToolCall \<Rightarrow> Env \<Rightarrow> 'h world \<Rightarrow> string res \<times> 'h world" where
  "runTool e agent call env w =
     (let name = Function_Name (Call_Function call) in
      if \<not> HasTool agent name then (Inl (ErrNotGranted name), w)
      else (case Registry_Get (ex_registry e) name of
        None \<Rightarrow> (Inl (ErrNotGranted name), w)
      | Some tool \<Rightarrow>
          let arguments = (if TrimSpace (Function_Arguments (Call_Function call)) = [] then ''{}''
                           else Function_Arguments (Call_Function call)) in
          if \<not> Valid arguments then (Inl (Errorf ''the arguments were not valid JSON''), w)
          else Tool_Execute tool arguments env w))"

definition tool_step :: "ToolCall \<Rightarrow> string res \<Rightarrow> Step" where
  "tool_step call r =
     (let step = zero_Step\<lparr>Step_Kind := StepToolCall, Step_ToolName := Function_Name (Call_Function call),
            Step_Arguments := Function_Arguments (Call_Function call)\<rparr>
      in case r of Inl err \<Rightarrow> step\<lparr>Step_Error := Error err\<rparr> | Inr content \<Rightarrow> step\<lparr>Step_Result := content\<rparr>)"

definition tool_message :: "ToolCall \<Rightarrow> string res \<Rightarrow> Message" where
  "tool_message call r =
     \<lparr>Message_Role = RoleTool,
      Message_Content = (case r of Inl err \<Rightarrow> ''Error: '' @ Error err | Inr content \<Rightarrow> content),
      Message_ToolCalls = [], Message_ToolCallID = Call_ID call\<rparr>"

text \<open>The loop over the calls of one answer, on the conversation and the index of the next step.\<close>

fun tool_loop ::
    "'h Executor \<Rightarrow> Agent \<Rightarrow> Env \<Rightarrow> ToolCall list \<Rightarrow> Message list \<Rightarrow> int \<Rightarrow> 'h world
      \<Rightarrow> (Message list \<times> int) res \<times> 'h world" where
  "tool_loop e agent env [] messages stepIndex w = (Inr (messages, stepIndex), w)"
| "tool_loop e agent env (call # calls) messages stepIndex w =
     (case runTool e agent call env w of
        (r, w1) \<Rightarrow>
          (case on_server (StepStore_Record (ex_pg e) (Env_RunID env) stepIndex (tool_step call r)) w1 of
             (Inl err, w2) \<Rightarrow> (Inl err, w2)
           | (Inr _, w2) \<Rightarrow>
               tool_loop e agent env calls (messages @ [tool_message call r]) (stepIndex + 1) w2))"

definition add_usage :: "Usage \<Rightarrow> Result \<Rightarrow> Result" where
  "add_usage u result =
     result\<lparr>PromptTokens := PromptTokens result + Usage_PromptTokens u,
            CompletionTokens := CompletionTokens result + Usage_CompletionTokens u\<rparr>"

definition model_step :: "Response \<Rightarrow> Step" where
  "model_step response =
     zero_Step\<lparr>Step_Kind := StepModelCall,
       Step_Content := Message_Content (Choice_Message (hd (Response_Choices response))),
       Step_PromptTokens := Usage_PromptTokens (Response_Usage response),
       Step_CompletionTokens := Usage_CompletionTokens (Response_Usage response)\<rparr>"

text \<open>The main loop; \<open>n\<close> is what is left of \<open>MaxSteps\<close>.\<close>

fun step_loop ::
    "'h Executor \<Rightarrow> Agent \<Rightarrow> Env \<Rightarrow> Client \<Rightarrow> ToolDefinition list \<Rightarrow> time \<Rightarrow> nat \<Rightarrow> Message list \<Rightarrow> Result \<Rightarrow> int
      \<Rightarrow> 'h world \<Rightarrow> Result res \<times> 'h world" where
  "step_loop e agent env client defs deadline 0 messages result stepIndex w =
     (Inr (stoppedByBudget result ''the run exceeded its step limit''), w)"
| "step_loop e agent env client defs deadline (Suc n) messages result stepIndex w =
     (case Now w of
        (now, w1) \<Rightarrow>
          if now > deadline then (Inr (stoppedByBudget result ''the run exceeded its time limit''), w1)
          else if PromptTokens result + CompletionTokens result > Agent_MaxTokens agent then
            (Inr (stoppedByBudget result ''the run exceeded its token limit''), w1)
          else (case on_net (Complete (ex_wire e) (ex_http e) client
                   \<lparr>Request_Model = Agent_Model agent, Request_Messages = messages, Request_Tools = defs\<rparr>) w1 of
            (Inl err, w2) \<Rightarrow> (Inl err, w2)
          | (Inr response, w2) \<Rightarrow>
              let message = Choice_Message (hd (Response_Choices response));
                  result1 = add_usage (Response_Usage response) result
              in (case on_server (StepStore_Record (ex_pg e) (Env_RunID env) stepIndex (model_step response)) w2 of
                (Inl err, w3) \<Rightarrow> (Inl err, w3)
              | (Inr _, w3) \<Rightarrow>
                  if Message_ToolCalls message = [] then (Inr (result1\<lparr>Output := Message_Content message\<rparr>), w3)
                  else (case tool_loop e agent env (Message_ToolCalls message) (messages @ [message]) (stepIndex + 1) w3 of
                    (Inl err, w4) \<Rightarrow> (Inl err, w4)
                  | (Inr (messages1, stepIndex1), w4) \<Rightarrow>
                      step_loop e agent env client defs deadline n messages1 result1 stepIndex1 w4))))"

definition Execute :: "'h Executor \<Rightarrow> 'h world executor" where
  "Execute e runID agentID w =
     (case on_server (AgentStore_Get (ex_pg e) OwnerUserID agentID) w of
        (Inl err, w1) \<Rightarrow> (Inl (Errorf (''could not load the agent: '' @ Error err)), w1)
      | (Inr agent, w1) \<Rightarrow>
          (case buildInitialMessages e agent w1 of
             (Inl err, w2) \<Rightarrow> (Inl err, w2)
           | (Inr messages, w2) \<Rightarrow>
               (case on_server (SetRenderedPrompt (ex_pg e) runID (renderPrompt messages)) w2 of
                  (Inl err, w3) \<Rightarrow> (Inl err, w3)
                | (Inr _, w3) \<Rightarrow>
                    (case credentialFor e agent w3 of
                       (Inl err, w4) \<Rightarrow> (Inl err, w4)
                     | (Inr apiKey, w4) \<Rightarrow>
                         (case Now w4 of
                            (now, w5) \<Rightarrow>
                              step_loop e agent
                                \<lparr>Env_RunID = runID, Env_AgentID = agentID, Env_UserID = OwnerUserID\<rparr>
                                (llm_New (Agent_BaseURL agent) apiKey)
                                (Definitions (ex_registry e) (tool_list (Agent_Tools agent)))
                                (now + Agent_MaxDurationSeconds agent * Second)
                                (nat (Agent_MaxSteps agent)) messages no_result 0 w5)))))"

section \<open>Lemmas\<close>

subsection \<open>Only granted tools matter\<close>

lemma Definitions_cong:
  assumes "\<And>name. name \<in> set granted \<Longrightarrow> Registry_Get r name = Registry_Get r' name"
  shows "Definitions r granted = Definitions r' granted"
  using assms by (induction granted) (auto simp: Registry_Get_def split: option.splits)

lemma runTool_cong:
  assumes "\<And>name. HasTool agent name \<Longrightarrow> Registry_Get (ex_registry e) name = Registry_Get r' name"
  shows "runTool (e\<lparr>ex_registry := r'\<rparr>) agent call env w = runTool e agent call env w"
  using assms by (simp add: runTool_def Let_def)

lemma tool_loop_cong:
  assumes "\<And>name. HasTool agent name \<Longrightarrow> Registry_Get (ex_registry e) name = Registry_Get r' name"
  shows "tool_loop (e\<lparr>ex_registry := r'\<rparr>) agent env calls messages k w = tool_loop e agent env calls messages k w"
  by (induction calls arbitrary: messages k w) (simp_all add: runTool_cong [OF assms] split: prod.split sum.split)

lemma step_loop_cong:
  assumes "\<And>name. HasTool agent name \<Longrightarrow> Registry_Get (ex_registry e) name = Registry_Get r' name"
  shows "step_loop (e\<lparr>ex_registry := r'\<rparr>) agent env client defs deadline n messages result k w =
    step_loop e agent env client defs deadline n messages result k w"
  by (induction n arbitrary: messages result k w)
    (simp_all add: tool_loop_cong [OF assms] Let_def split: prod.split sum.split)

subsection \<open>The trace of a run\<close>

text \<open>The steps recorded for a run, in the order they were recorded.\<close>

definition trace :: "string \<Rightarrow> 'h world \<Rightarrow> step_row list" where
  "trace u w = filter (\<lambda>t. st_run_id t = u) (run_steps (tables (w_server w)))"

definition step_tokens :: "step_row \<Rightarrow> int" where
  "step_tokens t = st_prompt_tokens t + st_completion_tokens t"

definition result_tokens :: "Result \<Rightarrow> int" where
  "result_tokens r = PromptTokens r + CompletionTokens r"

definition is_model_call :: "step_row \<Rightarrow> bool" where
  "is_model_call t \<longleftrightarrow> st_kind t = StepModelCall"

text \<open>
  The trace grew by these steps, which continue its numbering.
\<close>

definition extends :: "string \<Rightarrow> 'h world \<Rightarrow> 'h world \<Rightarrow> step_row list \<Rightarrow> bool" where
  "extends u w w' ts \<longleftrightarrow>
     trace u w' = trace u w @ ts \<and>
     map st_step_index ts = map int [length (trace u w)..<length (trace u w) + length ts]"

lemma extends_none: "trace u w' = trace u w \<Longrightarrow> extends u w w' []"
  by (simp add: extends_def)

lemma extends_trans:
  assumes "extends u w w1 ts1" and "extends u w1 w2 ts2"
  shows "extends u w w2 (ts1 @ ts2)"
proof -
  let ?n = "length (trace u w)" and ?a = "length ts1" and ?b = "length ts2"
  have "map int [?n..<?n + (?a + ?b)] = map int [?n..<?n + ?a] @ map int [?n + ?a..<?n + ?a + ?b]"
    by (metis add.assoc le_add1 map_append upt_add_eq_append)
  with assms show ?thesis by (simp add: extends_def)
qed

text \<open>What a function on the server leaves alone.\<close>

definition keeps_steps :: "(server \<Rightarrow> 'a \<times> server) \<Rightarrow> bool" where
  "keeps_steps f \<longleftrightarrow> (\<forall>s. run_steps (tables (snd (f s))) = run_steps (tables s))"

lemma keeps_steps_trace: "keeps_steps f \<Longrightarrow> on_server f w = (a, w') \<Longrightarrow> trace u w' = trace u w"
  by (auto simp: keeps_steps_def on_server_def trace_def split: prod.splits) (metis snd_conv)

lemma on_net_trace: "on_net f w = (a, w') \<Longrightarrow> trace u w' = trace u w"
  by (auto simp: on_net_def trace_def split: prod.splits)

lemma Now_trace: "Now w = (t, w') \<Longrightarrow> trace u w' = trace u w"
  by (auto simp: Now_def trace_def)

lemma pool_call_keeps_steps:
  assumes "statement q" and "\<And>s. run_steps (tables (snd (q s))) = run_steps (tables s)"
  shows "run_steps (tables (snd (pool_call q s))) = run_steps (tables s)"
  using statement.pool_atomic [OF assms(1), of s] assms(2) by auto

lemma with_uuid_keeps_steps:
  "(\<And>u s. run_steps (tables (snd (k u s))) = run_steps (tables s)) \<Longrightarrow>
     run_steps (tables (snd (with_uuid pg i k s))) = run_steps (tables s)"
  by (simp add: with_uuid_def split: option.split)

lemma AgentStore_Get_keeps: "keeps_steps (AgentStore_Get pg userID i)"
  unfolding keeps_steps_def
proof
  fix s
  have "run_steps (tables (snd (pool_call (with_uuid pg i (\<lambda>u. query_row (\<lambda>d. filter (names_agent userID u) (agents d)))) s)))
      = run_steps (tables s)"
    by (intro pool_call_keeps_steps statement_with_uuid statement_query_row with_uuid_keeps_steps) (simp add: query_row_def)
  then show "run_steps (tables (snd (AgentStore_Get pg userID i s))) = run_steps (tables s)"
    by (simp add: AgentStore_Get_def case_prod_unfold)
qed

lemma RecentOutputs_keeps: "keeps_steps (RecentOutputs pg userID i n)"
  unfolding keeps_steps_def RecentOutputs_def
  by (intro allI pool_call_keeps_steps statement_with_uuid statement_query with_uuid_keeps_steps) (simp add: query_def)

lemma SetRenderedPrompt_keeps: "keeps_steps (SetRenderedPrompt pg runID prompt)"
  unfolding keeps_steps_def SetRenderedPrompt_def
  by (intro allI pool_call_keeps_steps statement_with_uuid statement_exec with_uuid_keeps_steps) (simp add: exec_def)

lemma Reveal_tables: "tables (snd (Reveal sealer userID name s)) = tables s"
proof -
  have "tables (snd (pool_call (query_row (\<lambda>d. filter (names_secret userID name) (secrets d))) s)) = tables s" by simp
  then show ?thesis by (simp add: Reveal_def case_prod_unfold split: sum.split)
qed

lemma Reveal_keeps: "keeps_steps (Reveal sealer userID name)"
  by (simp add: keeps_steps_def Reveal_tables)

subsection \<open>Recording a step\<close>

interpretation insert_step_stmt: statement "insert_step pg u k step" for pg u k step
  by unfold_locales (auto simp: insert_step_def split: if_splits)

lemma record_step:
  assumes "on_server (StepStore_Record pg runID k step) w = (r, w')" and "uuid_in pg runID = Some u"
    and "k = int (length (trace u w))"
  shows "\<exists>ts. extends u w w' ts \<and> (r = Inr () \<longrightarrow> length ts = 1) \<and>
    (\<forall>t \<in> set ts. st_kind t = Step_Kind step \<and> step_tokens t = Step_PromptTokens step + Step_CompletionTokens step) \<and> length ts \<le> 1"
proof -
  let ?row = "new_step_row (uuid_v4 pg (serial (w_server w))) u k step (pg_now (w_server w))"
  have stmt: "statement (with_uuid pg runID (\<lambda>u. insert_step pg u k step))"
    by (rule statement_with_uuid) (rule insert_step_stmt.statement_axioms)
  have ins: "with_uuid pg runID (\<lambda>u. insert_step pg u k step) (w_server w) = insert_step pg u k step (w_server w)"
    using assms(2) by (simp add: with_uuid_def)
  have w': "StepStore_Record pg runID k step (w_server w) = (r, w_server w')"
    using assms(1) by (auto simp: on_server_def split: prod.splits)
  have cases: "run_steps (tables (w_server w')) = run_steps (tables (w_server w)) \<or>
      run_steps (tables (w_server w')) = run_steps (tables (w_server w)) @ [?row]"
    using statement.pool_atomic [OF stmt, of "w_server w"] w'
    by (auto simp: StepStore_Record_def ins insert_step_def split: if_splits)
  have ok: "r = Inr () \<Longrightarrow> run_steps (tables (w_server w')) = run_steps (tables (w_server w)) @ [?row]"
    using statement.pool_ok [OF stmt, of "w_server w" "()" "w_server w'"] w'
    by (auto simp: StepStore_Record_def ins insert_step_def split: if_splits)
  have row: "st_run_id ?row = u" "st_step_index ?row = k" "st_kind ?row = Step_Kind step"
      "step_tokens ?row = Step_PromptTokens step + Step_CompletionTokens step"
    by (simp_all add: new_step_row_def step_tokens_def)
  show ?thesis
  proof (cases "run_steps (tables (w_server w')) = run_steps (tables (w_server w)) @ [?row]")
    case True
    then have "extends u w w' [?row]" using row assms(3) by (simp add: extends_def trace_def)
    then show ?thesis using row by (intro exI [of _ "[?row]"]) simp
  next
    case False
    then have "extends u w w' []" using cases by (auto simp: trace_def intro: extends_none)
    then show ?thesis using False ok by (intro exI [of _ "[]"]) auto
  qed
qed

subsection \<open>The loops\<close>

text \<open>
  What the executor relies on in the tools of its registry: they leave the traces of runs
  alone. Under that contract the loop keeps the trace it writes.
\<close>

locale tool_frame =
  fixes registry :: "'h world Registry"
  assumes tool_keeps_trace: "Registry_Get registry name = Some tool \<Longrightarrow>
      Tool_Execute tool arguments env w = (r, w') \<Longrightarrow> trace u w' = trace u w"
begin

lemma runTool_trace:
  assumes "ex_registry e = registry" and "runTool e agent call env w = (r, w')"
  shows "trace u w' = trace u w"
  using assms(2)
  by (auto simp: runTool_def Let_def assms(1) intro: tool_keeps_trace split: if_splits option.splits)

lemma tool_loop_trace:
  assumes "ex_registry e = registry" and "uuid_in (ex_pg e) (Env_RunID env) = Some u"
    and "tool_loop e agent env calls messages k w = (r, w')" and "k = int (length (trace u w))"
  shows "\<exists>ts. extends u w w' ts \<and> (\<forall>t \<in> set ts. \<not> is_model_call t \<and> step_tokens t = 0) \<and>
    (\<forall>ms k'. r = Inr (ms, k') \<longrightarrow> k' = int (length (trace u w')))"
  using assms(3,4)
proof (induction calls arbitrary: messages k w)
  case Nil
  then show ?case by (intro exI [of _ "[]"]) (auto intro: extends_none)
next
  case (Cons call calls)
  obtain r1 w1 where tool: "runTool e agent call env w = (r1, w1)" by (cases "runTool e agent call env w")
  have t1: "trace u w1 = trace u w" by (rule runTool_trace [OF assms(1) tool])
  obtain r2 w2 where rec: "on_server (StepStore_Record (ex_pg e) (Env_RunID env) k (tool_step call r1)) w1 = (r2, w2)"
    by (cases "on_server (StepStore_Record (ex_pg e) (Env_RunID env) k (tool_step call r1)) w1")
  obtain ts where ts: "extends u w1 w2 ts" "r2 = Inr () \<longrightarrow> length ts = 1"
      "\<forall>t \<in> set ts. st_kind t = Step_Kind (tool_step call r1) \<and>
        step_tokens t = Step_PromptTokens (tool_step call r1) + Step_CompletionTokens (tool_step call r1)"
    using record_step [OF rec assms(2)] Cons.prems(2) t1 by auto
  have quiet: "\<forall>t \<in> set ts. \<not> is_model_call t \<and> step_tokens t = 0"
    using ts(3) by (auto simp: tool_step_def Let_def zero_Step_def is_model_call_def StepToolCall_def StepModelCall_def split: sum.splits)
  have ext: "extends u w w2 ts" using ts(1) t1 by (simp add: extends_def)
  show ?case
  proof (cases r2)
    case (Inl err)
    then have "w' = w2 \<and> r = Inl err" using Cons.prems(1) by (simp add: tool rec)
    then show ?thesis using ext quiet by auto
  next
    case (Inr x)
    have len: "length (trace u w2) = length (trace u w) + 1" using ext ts(2) Inr by (simp add: extends_def)
    have "tool_loop e agent env calls (messages @ [tool_message call r1]) (k + 1) w2 = (r, w')"
      using Cons.prems(1) by (simp add: tool rec Inr)
    from Cons.IH [OF this] len Cons.prems(2) obtain ts' where ts': "extends u w2 w' ts'"
        "\<forall>t \<in> set ts'. \<not> is_model_call t \<and> step_tokens t = 0" "\<forall>ms k'. r = Inr (ms, k') \<longrightarrow> k' = int (length (trace u w'))"
      by auto
    from extends_trans [OF ext ts'(1)] quiet ts'(2,3) show ?thesis by (intro exI [of _ "ts @ ts'"]) auto
  qed
qed

end

text \<open>What a loop that adds these steps to the trace has respected of its budgets.\<close>

definition within_budget :: "Agent \<Rightarrow> nat \<Rightarrow> int \<Rightarrow> step_row list \<Rightarrow> bool" where
  "within_budget agent n spent ts \<longleftrightarrow>
     length (filter is_model_call ts) \<le> n \<and>
     (\<forall>i < length ts. is_model_call (ts ! i) \<longrightarrow>
        spent + sum_list (map step_tokens (take i ts)) \<le> Agent_MaxTokens agent)"

lemma quiet_tokens: "\<forall>x \<in> set ts. \<not> is_model_call x \<and> step_tokens x = 0 \<Longrightarrow> sum_list (map step_tokens ts) = 0"
  by (induction ts) auto

lemma within_budget_Nil: "within_budget agent n spent []"
  by (simp add: within_budget_def)

lemma within_budget_round:
  assumes "spent \<le> Agent_MaxTokens agent" and "\<forall>x \<in> set quiet. \<not> is_model_call x \<and> step_tokens x = 0"
    and "within_budget agent n (spent + step_tokens t) ts"
  shows "within_budget agent (Suc n) spent (t # quiet @ ts)"
proof -
  have q: "filter is_model_call quiet = []" "sum_list (map step_tokens quiet) = 0"
    using assms(2) quiet_tokens by (auto simp: filter_empty_conv)
  have "spent + sum_list (map step_tokens (take i (t # quiet @ ts))) \<le> Agent_MaxTokens agent"
    if i: "i < length (t # quiet @ ts)" and m: "is_model_call ((t # quiet @ ts) ! i)" for i
  proof (cases i)
    case 0
    then show ?thesis using assms(1) by simp
  next
    case (Suc j)
    have "\<not> j < length quiet"
      using m Suc assms(2) nth_mem [of j quiet] by (auto simp: nth_append)
    then have j: "j - length quiet < length ts" "is_model_call (ts ! (j - length quiet))" and le: "length quiet \<le> j"
      using i m Suc by (auto simp: nth_append)
    have "take i (t # quiet @ ts) = t # quiet @ take (j - length quiet) ts"
      using Suc le by simp
    then show ?thesis
      using assms(3) j q(2) by (simp add: within_budget_def add.assoc)
  qed
  moreover have "length (filter is_model_call (t # quiet @ ts)) \<le> Suc n"
    using assms(3) q(1) by (auto simp: within_budget_def)
  ultimately show ?thesis unfolding within_budget_def by blast
qed

text \<open>
  What a loop that starts in \<open>w\<close> with \<open>n\<close> rounds left does to the trace by the time it returns
  \<open>r\<close> in \<open>w'\<close>.
\<close>

definition loop_trace ::
    "string \<Rightarrow> Agent \<Rightarrow> nat \<Rightarrow> Result \<Rightarrow> 'h world \<Rightarrow> Result res \<Rightarrow> 'h world \<Rightarrow> bool" where
  "loop_trace u agent n result w r w' \<longleftrightarrow>
     (\<exists>ts. extends u w w' ts \<and> within_budget agent n (result_tokens result) ts \<and>
        (\<forall>res. r = Inr res \<longrightarrow> result_tokens res = result_tokens result + sum_list (map step_tokens ts)))"

lemma loop_trace_unchanged:
  assumes "trace u w' = trace u w" and "\<And>res. r = Inr res \<Longrightarrow> result_tokens res = result_tokens result"
  shows "loop_trace u agent n result w r w'"
  unfolding loop_trace_def using assms by (intro exI [of _ "[]"]) (auto simp: within_budget_Nil extends_none)

lemma stopped_tokens: "result_tokens (stoppedByBudget result reason) = result_tokens result"
  by (simp add: stoppedByBudget_def Let_def result_tokens_def)

text \<open>The step of the model's answer, and a loop that ends with it.\<close>

lemma model_step_record:
  assumes "on_server (StepStore_Record pg runID k (model_step response)) w = (r, w')" and "uuid_in pg runID = Some u"
    and "k = int (length (trace u w))"
  obtains ts where "extends u w w' ts" and "r = Inr () \<Longrightarrow> length ts = 1" and "length ts \<le> 1"
    and "\<forall>t \<in> set ts. result_tokens (add_usage (Response_Usage response) result) = result_tokens result + step_tokens t"
  using record_step [OF assms]
  by (auto simp: model_step_def zero_Step_def add_usage_def result_tokens_def)

lemma loop_trace_last_step:
  assumes "extends u w w' ts" and "length ts \<le> 1" and "result_tokens result \<le> Agent_MaxTokens agent"
    and "\<And>res. r = Inr res \<Longrightarrow> length ts = 1 \<and> (\<forall>t \<in> set ts. result_tokens res = result_tokens result + step_tokens t)"
  shows "loop_trace u agent (Suc n) result w r w'"
proof -
  have "within_budget agent (Suc n) (result_tokens result) ts"
    using assms(2,3) by (cases ts) (auto simp: within_budget_def)
  moreover have "result_tokens res = result_tokens result + sum_list (map step_tokens ts)" if "r = Inr res" for res
    using assms(4) [OF that] by (cases ts) auto
  ultimately show ?thesis unfolding loop_trace_def using assms(1) by blast
qed

text \<open>A whole round, followed by what the rest of the loop does.\<close>

lemma loop_trace_round:
  assumes "extends u w w4 (t # quiet)" and "\<forall>x \<in> set quiet. \<not> is_model_call x \<and> step_tokens x = 0"
    and "result_tokens result \<le> Agent_MaxTokens agent" and "result_tokens result1 = result_tokens result + step_tokens t"
    and "loop_trace u agent n result1 w4 r w'"
  shows "loop_trace u agent (Suc n) result w r w'"
proof -
  obtain ts where ts: "extends u w4 w' ts" "within_budget agent n (result_tokens result1) ts"
      "\<forall>res. r = Inr res \<longrightarrow> result_tokens res = result_tokens result1 + sum_list (map step_tokens ts)"
    using assms(5) by (auto simp: loop_trace_def)
  have "within_budget agent (Suc n) (result_tokens result) (t # quiet @ ts)"
    using assms(2-4) ts(2) by (intro within_budget_round) auto
  moreover have "extends u w w' (t # quiet @ ts)" using extends_trans [OF assms(1) ts(1)] by simp
  ultimately show ?thesis
    unfolding loop_trace_def using ts(3) assms(4) quiet_tokens [OF assms(2)]
    by (intro exI [of _ "t # quiet @ ts"]) auto
qed

text \<open>One round of the loop, by where it ends.\<close>

lemma step_loop_round:
  assumes "step_loop e agent env client defs deadline (Suc n) messages result k w = (r, w')"
  obtains (budget) now reason where "Now w = (now, w')" and "r = Inr (stoppedByBudget result reason)"
    | (call) now w1 request err where "Now w = (now, w1)"
        and "on_net (Complete (ex_wire e) (ex_http e) client request) w1 = (Inl err, w')" and "r = Inl err"
    | (recorded) now w1 request response w2 r3 w3 where "Now w = (now, w1)" and "result_tokens result \<le> Agent_MaxTokens agent"
        and "on_net (Complete (ex_wire e) (ex_http e) client request) w1 = (Inr response, w2)"
        and "on_server (StepStore_Record (ex_pg e) (Env_RunID env) k (model_step response)) w2 = (r3, w3)"
        and "(case r3 of Inl err \<Rightarrow> r = Inl err \<and> w' = w3 | Inr _ \<Rightarrow>
           let message = Choice_Message (hd (Response_Choices response)); result1 = add_usage (Response_Usage response) result in
           if Message_ToolCalls message = [] then r = Inr (result1\<lparr>Output := Message_Content message\<rparr>) \<and> w' = w3
           else case tool_loop e agent env (Message_ToolCalls message) (messages @ [message]) (k + 1) w3 of
               (Inl err, w4) \<Rightarrow> r = Inl err \<and> w' = w4
             | (Inr (messages1, k1), w4) \<Rightarrow> step_loop e agent env client defs deadline n messages1 result1 k1 w4 = (r, w'))"
proof -
  obtain now w1 where now: "Now w = (now, w1)" by (cases "Now w")
  let ?req = "\<lparr>Request_Model = Agent_Model agent, Request_Messages = messages, Request_Tools = defs\<rparr>"
  obtain c w2 where c: "on_net (Complete (ex_wire e) (ex_http e) client ?req) w1 = (c, w2)"
    by (cases "on_net (Complete (ex_wire e) (ex_http e) client ?req) w1")
  show thesis
  proof (cases "now > deadline \<or> result_tokens result > Agent_MaxTokens agent")
    case True
    then have "w' = w1 \<and> (\<exists>reason. r = Inr (stoppedByBudget result reason))"
      using assms by (auto simp: now result_tokens_def split: if_splits)
    then show thesis using budget now by blast
  next
    case False
    note run = assms [unfolded step_loop.simps now prod.case c]
    show thesis
    proof (cases c)
      case (Inl err)
      then show thesis using run False c call [OF now] by (auto simp: result_tokens_def)
    next
      case (Inr response)
      obtain r3 w3 where rec: "on_server (StepStore_Record (ex_pg e) (Env_RunID env) k (model_step response)) w2 = (r3, w3)"
        by (cases "on_server (StepStore_Record (ex_pg e) (Env_RunID env) k (model_step response)) w2")
      show thesis
        by (rule recorded [OF now _ c [unfolded Inr] rec])
          (use run False Inr rec in \<open>auto simp: result_tokens_def Let_def split: sum.splits prod.splits if_splits\<close>)
    qed
  qed
qed

context tool_frame
begin

lemma step_loop_trace:
  assumes "ex_registry e = registry" and "uuid_in (ex_pg e) (Env_RunID env) = Some u"
    and "step_loop e agent env client defs deadline n messages result k w = (r, w')"
    and "k = int (length (trace u w))"
  shows "loop_trace u agent n result w r w'"
  using assms(3,4)
proof (induction n arbitrary: messages result k w)
  case 0
  then show ?case by (auto intro!: loop_trace_unchanged simp: stopped_tokens)
next
  case (Suc n)
  from Suc.prems(1) show ?case
  proof (cases rule: step_loop_round)
    case (budget now reason)
    then show ?thesis using Now_trace [OF budget(1)] by (auto intro!: loop_trace_unchanged simp: stopped_tokens)
  next
    case (call now w1 request err)
    then show ?thesis using Now_trace [OF call(1)] on_net_trace [OF call(2)] by (auto intro!: loop_trace_unchanged)
  next
    case (recorded now w1 request response w2 r3 w3)
    let ?m = "Choice_Message (hd (Response_Choices response))" and ?result = "add_usage (Response_Usage response) result"
    have t2: "trace u w2 = trace u w" using Now_trace [OF recorded(1)] on_net_trace [OF recorded(3)] by simp
    obtain ts where ts: "extends u w2 w3 ts" "r3 = Inr () \<Longrightarrow> length ts = 1" "length ts \<le> 1"
        "\<forall>t \<in> set ts. result_tokens ?result = result_tokens result + step_tokens t"
      using model_step_record [OF recorded(4) assms(2)] Suc.prems(2) t2 by metis
    have ext: "extends u w w3 ts" using ts(1) t2 by (simp add: extends_def)
    show ?thesis
    proof (cases "r3 = Inr () \<and> Message_ToolCalls ?m \<noteq> []")
      case False
      then have "w' = w3 \<and> ((\<exists>err. r = Inl err) \<or> r3 = Inr () \<and> r = Inr (?result\<lparr>Output := Message_Content ?m\<rparr>))"
        using recorded(5) by (auto simp: Let_def split: sum.splits)
      then show ?thesis
        using ext ts(2-4) recorded(2) by (intro loop_trace_last_step) (auto simp: result_tokens_def)
    next
      case more: True
      obtain t where t: "ts = [t]" using ts(2) more by (cases ts) auto
      obtain r4 w4 where loop: "tool_loop e agent env (Message_ToolCalls ?m) (messages @ [?m]) (k + 1) w3 = (r4, w4)"
        by (cases "tool_loop e agent env (Message_ToolCalls ?m) (messages @ [?m]) (k + 1) w3")
      have "k + 1 = int (length (trace u w3))" using ext t Suc.prems(2) by (simp add: extends_def)
      from tool_loop_trace [OF assms(1,2) loop this] obtain quiet where quiet: "extends u w3 w4 quiet"
          "\<forall>x \<in> set quiet. \<not> is_model_call x \<and> step_tokens x = 0"
          "\<forall>ms k'. r4 = Inr (ms, k') \<longrightarrow> k' = int (length (trace u w4))" by blast
      have "loop_trace u agent n ?result w4 r w'"
        using recorded(5) more loop quiet(3) Suc.IH
        by (cases r4) (auto simp: Let_def intro!: loop_trace_unchanged split: prod.splits)
      then show ?thesis
        using extends_trans [OF ext quiet(1)] quiet(2) recorded(2) ts(4) t by (intro loop_trace_round) auto
    qed
  qed
qed

end

subsection \<open>The tools of an installation\<close>

definition quiet_tool :: "'h world Tool \<Rightarrow> bool" where
  "quiet_tool tool \<longleftrightarrow> (\<forall>arguments env w r w' u.
     Tool_Execute tool arguments env w = (r, w') \<longrightarrow> trace u w' = trace u w)"

lemma tool_frame_New: "tool_frame NewRegistry"
  by unfold_locales (simp add: NewRegistry_def Registry_Get_def)

lemma tool_frame_Register:
  assumes "tool_frame registry" and "quiet_tool tool" shows "tool_frame (Register tool registry)"
  using tool_frame.tool_keeps_trace [OF assms(1)] assms(2)
  by unfold_locales (auto simp: Register_Get quiet_tool_def split: if_splits)

lemma quiet_on_net: "(\<And>arguments env. Tool_Execute tool arguments env = on_net (f arguments env)) \<Longrightarrow> quiet_tool tool"
  by (auto simp: quiet_tool_def dest: on_net_trace)

lemma quiet_on_server:
  assumes "\<And>arguments env. Tool_Execute tool arguments env = on_server (f arguments env)"
    and "\<And>arguments env. keeps_steps (f arguments env)"
  shows "quiet_tool tool"
  unfolding quiet_tool_def assms(1) using keeps_steps_trace [OF assms(2)] by blast

lemma MemoryRead_keeps: "keeps_steps (MemoryRead_Execute dec arguments env)"
  by (simp add: keeps_steps_def MemoryRead_Execute_def MemoryStore_Read_def Let_def case_prod_unfold split: sum.split)

lemma MemoryStore_Write_keeps:
  "run_steps (tables (snd (MemoryStore_Write pg userID agentID namespace key content s))) = run_steps (tables s)"
proof -
  have a: "run_steps (tables (snd (pool_call (with_uuid pg agentID (\<lambda>u. insert_memory pg userID u namespace key content)) s))) = run_steps (tables s)" for s
    by (intro pool_call_keeps_steps statement_with_uuid insert_memory_stmt.statement_axioms with_uuid_keeps_steps)
      (simp add: insert_memory_def Let_def split: option.split)
  have b: "run_steps (tables (snd (pool_call (exec (prune_namespace userID namespace)) s))) = run_steps (tables s)" for s
    by (intro pool_call_keeps_steps statement_exec) (simp add: exec_def prune_namespace_def)
  show ?thesis by (simp add: MemoryStore_Write_def case_prod_unfold a b split: sum.split)
qed

lemma MemoryWrite_keeps: "keeps_steps (MemoryWrite_Execute pg dec arguments env)"
  by (simp add: keeps_steps_def MemoryWrite_Execute_def case_prod_unfold MemoryStore_Write_keeps split: sum.split)

lemma TelegramToken_tables: "tables (snd (TelegramToken sealer userID s)) = tables s"
  by (simp add: TelegramToken_def case_prod_unfold Reveal_tables split: option.split sum.split)

lemma TelegramDelivery_tables: "tables (snd (TelegramDelivery sealer userID s)) = tables s"
  by (simp add: TelegramDelivery_def Settings_Get_def case_prod_unfold TelegramToken_tables split: sum.split)

lemma SendTelegram_tables:
  "tables (fst (snd (SendTelegram_Execute dec do_request baseURL sealer arguments env s h))) = tables s"
proof -
  obtain c s1 where d: "TelegramDelivery sealer (Env_UserID env) s = (c, s1)"
    by (cases "TelegramDelivery sealer (Env_UserID env) s")
  have "tables s1 = tables s" using TelegramDelivery_tables [of sealer "Env_UserID env" s] by (simp add: d)
  then show ?thesis
    by (simp add: SendTelegram_Execute_def Let_def d case_prod_unfold split: sum.split option.split)
qed

lemma quiet_SendTelegram: "quiet_tool (SendTelegram_tool dec nw baseURL sealer)"
  unfolding quiet_tool_def
proof (intro allI impI)
  fix arguments env and w w' :: "'a world" and r u
  assume run: "Tool_Execute (SendTelegram_tool dec nw baseURL sealer) arguments env w = (r, w')"
  obtain r1 s h where x: "SendTelegram_Execute (decode_telegram dec) (net_exchange nw) (NewSendTelegram baseURL) sealer
      arguments env (w_server w) (w_net w) = (r1, s, h)" by (rule prod_cases3)
  have "tables s = tables (w_server w)"
    using SendTelegram_tables [of "decode_telegram dec" "net_exchange nw" "NewSendTelegram baseURL" sealer
        arguments env "w_server w" "w_net w"] by (simp add: x)
  then show "trace u w' = trace u w" using run by (auto simp: SendTelegram_tool_def x trace_def)
qed

lemma quiet_tools:
  "quiet_tool (HTTPFetch_tool dec nw allow)" "quiet_tool (SendWebhook_tool dec nw allow)"
  "quiet_tool (WebSearch_tool dec nw ws)"
  "quiet_tool (MemoryRead_tool dec :: 'h world Tool)" "quiet_tool (MemoryWrite_tool dec pg :: 'h world Tool)"
  by (rule quiet_on_net, simp add: HTTPFetch_tool_def, rule quiet_on_net, simp add: SendWebhook_tool_def,
      rule quiet_on_net, simp add: WebSearch_tool_def,
      rule quiet_on_server [OF _ MemoryRead_keeps], simp add: MemoryRead_tool_def,
      rule quiet_on_server [OF _ MemoryWrite_keeps], simp add: MemoryWrite_tool_def)

interpretation installed: tool_frame "BuildRegistry dec nw pool settings config" for dec nw pool settings config
  unfolding BuildRegistry_def Let_def
  by (auto intro!: tool_frame_Register tool_frame_New quiet_tools quiet_SendTelegram split: option.split)

subsection \<open>A whole run\<close>

lemma credentialFor_trace: "credentialFor e agent w = (r, w') \<Longrightarrow> trace u w' = trace u w"
  using keeps_steps_trace [OF Reveal_keeps]
  by (auto simp: credentialFor_def split: option.splits prod.splits sum.splits if_splits)

lemma buildInitialMessages_trace: "buildInitialMessages e agent w = (r, w') \<Longrightarrow> trace u w' = trace u w"
  using keeps_steps_trace [OF RecentOutputs_keeps]
  by (auto simp: buildInitialMessages_def Let_def split: prod.splits sum.splits if_splits)

text \<open>The start of a run before its loop, and the loop it ends in.\<close>

lemma Execute_prefix:
  assumes "Execute e runID agentID w = (r, w')"
  obtains (stopped) err where "r = Inl err" and "trace u w' = trace u w"
    | (loop) agent client deadline messages w5 where
        "fst (AgentStore_Get (ex_pg e) OwnerUserID agentID (w_server w)) = Inr agent" and "trace u w5 = trace u w"
        and "step_loop e agent \<lparr>Env_RunID = runID, Env_AgentID = agentID, Env_UserID = OwnerUserID\<rparr> client
          (Definitions (ex_registry e) (tool_list (Agent_Tools agent))) deadline (nat (Agent_MaxSteps agent)) messages no_result 0 w5 = (r, w')"
proof -
  obtain r1 w1 where g: "on_server (AgentStore_Get (ex_pg e) OwnerUserID agentID) w = (r1, w1)"
    by (cases "on_server (AgentStore_Get (ex_pg e) OwnerUserID agentID) w")
  note t1 = keeps_steps_trace [OF AgentStore_Get_keeps g]
  have f: "fst (AgentStore_Get (ex_pg e) OwnerUserID agentID (w_server w)) = r1"
    using g by (auto simp: on_server_def split: prod.splits)
  note tr = buildInitialMessages_trace credentialFor_trace keeps_steps_trace [OF SetRenderedPrompt_keeps] Now_trace
  show thesis
  proof (cases r1)
    case (Inl err)
    then show thesis using assms t1 [of u] by (auto simp: Execute_def g intro: stopped)
  next
    case (Inr agent)
    note run = assms [unfolded Execute_def g Inr]
    obtain rb w2 where b: "buildInitialMessages e agent w1 = (rb, w2)" by (cases "buildInitialMessages e agent w1")
    show thesis
    proof (cases rb)
      case (Inl err)
      then show thesis using run t1 tr(1) [OF b] by (auto simp: b intro: stopped)
    next
      case messages: (Inr messages)
      obtain rp w3 where p: "on_server (SetRenderedPrompt (ex_pg e) runID (renderPrompt messages)) w2 = (rp, w3)"
        by (cases "on_server (SetRenderedPrompt (ex_pg e) runID (renderPrompt messages)) w2")
      obtain rc w4 where c: "credentialFor e agent w3 = (rc, w4)" by (cases "credentialFor e agent w3")
      obtain now w5 where n: "Now w4 = (now, w5)" by (cases "Now w4")
      note t = t1 [of u] tr(1) [OF b, of u] tr(2) [OF c, of u] tr(3) [OF p, of u] tr(4) [OF n, of u]
      show thesis
      proof (cases "\<exists>x key. rp = Inr x \<and> rc = Inr key")
        case True
        then show thesis
          using run t f Inr loop [of agent w5] by (auto simp: b messages p c n)
      next
        case False
        then have "\<exists>err. r = Inl err \<and> (w' = w3 \<or> w' = w4)"
          using run by (auto simp: b messages p c n split: sum.splits)
        then show thesis using t stopped by auto
      qed
    qed
  qed
qed

subsection \<open>A concrete run\<close>

text \<open>
  A model provider that first asks for \<open>memory_write\<close> and \<open>http_fetch\<close> in one answer and
  then answers in words; the number of the request is the state of the network.
\<close>

definition demo_message :: "string \<Rightarrow> ToolCall list \<Rightarrow> Response" where
  "demo_message content calls =
     \<lparr>Response_Choices = [\<lparr>Choice_Message = \<lparr>Message_Role = RoleAssistant, Message_Content = content,
        Message_ToolCalls = calls, Message_ToolCallID = []\<rparr>, Choice_FinishReason = []\<rparr>],
      Response_Usage = \<lparr>Usage_PromptTokens = 10, Usage_CompletionTokens = 4, Usage_TotalTokens = 14\<rparr>\<rparr>"

definition demo_call :: "string \<Rightarrow> string \<Rightarrow> ToolCall" where
  "demo_call i name =
     \<lparr>Call_ID = i, Call_Type = ''function'', Call_Function = \<lparr>Function_Name = name, Function_Arguments = []\<rparr>\<rparr>"

definition demo_wire :: wire where
  "demo_wire =
     \<lparr>marshal_request = (\<lambda>_. Inr ''{}''),
      unmarshal_response = (\<lambda>body. Inr
        (if body = ''0'' then demo_message [] [demo_call ''c1'' ToolMemoryWrite, demo_call ''c2'' ToolHTTPFetch]
         else demo_message ''all done'' []))\<rparr>"

definition demo_http :: "nat http" where
  "demo_http req h = (Inr \<lparr>resp_status = StatusOK, resp_body = Itoa (int h), resp_location = [], resp_broken = None\<rparr>, Suc h)"

definition demo_decoders :: decoders where
  "demo_decoders =
     \<lparr>decode_fetch = Inr, decode_webhook = (\<lambda>_. Inl (Errorf [])), decode_memory_read = (\<lambda>_. Inl (Errorf [])),
      decode_memory_write = (\<lambda>_. Inr \<lparr>write_Key = ''k'', write_Content = ''1'', write_Namespace = []\<rparr>),
      decode_search = (\<lambda>_. Inl (Errorf [])), decode_results = (\<lambda>_. Inl (Errorf [])),
      decode_telegram = (\<lambda>_. Inl (Errorf []))\<rparr>"

definition quiet_net :: "nat net" where
  "quiet_net =
     \<lparr>net_lookup = (\<lambda>_ h. (Inl (Errorf []), h)), net_exchange = demo_http,
      url_Parse = (\<lambda>_. Inl (Errorf [])), url_Resolve = (\<lambda>_ _. Inl (Errorf []))\<rparr>"

definition demo_registry :: "nat world Registry" where
  "demo_registry = BuildRegistry demo_decoders quiet_net (Some demo_pg) None (ConfigFromEnv (\<lambda>_. []))"

definition demo_Executor :: "nat Executor" where
  "demo_Executor =
     \<lparr>ex_pg = demo_pg, ex_secrets = None, ex_registry = demo_registry, ex_fallbackAPIKey = ''key'',
      ex_wire = demo_wire, ex_http = demo_http\<rparr>"

definition demo_world :: "nat world" where
  "demo_world = \<lparr>w_server = demo_server, w_net = 0, w_clock = (\<lambda>n. int n), w_ticks = 0\<rparr>"

lemma demo_loads: "fst (AgentStore_Get (ex_pg demo_Executor) OwnerUserID ''a1'' (w_server demo_world)) = Inr (scanAgent (demo_agent ''a1''))"
  by code_simp

definition demo_outcome :: "nat Executor \<Rightarrow> Result res \<times> nat world" where
  "demo_outcome e = Execute e ''r1'' ''a1'' demo_world"

text \<open>The run asked for a tool it was not granted: the trace has the refusal and the run goes on.\<close>

lemma demo_trace:
  "fst (demo_outcome demo_Executor) =
     Inr \<lparr>Output = ''all done'', PromptTokens = 20, CompletionTokens = 8, BudgetExceeded = False\<rparr>"
  "map st_kind (trace ''r1'' (snd (demo_outcome demo_Executor))) = [StepModelCall, StepToolCall, StepToolCall, StepModelCall]"
  "map (\<lambda>t. st_error t = []) (trace ''r1'' (snd (demo_outcome demo_Executor))) = [True, True, False, True]"
  by code_simp+

section \<open>Properties\<close>

text \<open>
  C1: the trace and the budgets of a run. For an installation's own tools and a run without steps,
  however the model, the tools and the database behave: the steps a run leaves are numbered from
  zero without a gap; the model was called at most \<open>MaxSteps\<close> times; every one of those calls
  was made with the tokens recorded before it still within \<open>MaxTokens\<close>; and a result that is
  reported carries exactly the tokens the trace adds up to.
\<close>

theorem run_trace_and_budgets:
  assumes "ex_registry e = BuildRegistry dec nw pool settings config" and "uuid_in (ex_pg e) runID = Some u"
    and "fst (AgentStore_Get (ex_pg e) OwnerUserID agentID (w_server w)) = Inr agent" and "trace u w = []"
    and "Execute e runID agentID w = (r, w')"
  shows "map st_step_index (trace u w') = map int [0..<length (trace u w')] \<and>
    int (length (filter is_model_call (trace u w'))) \<le> max 0 (Agent_MaxSteps agent) \<and>
    (\<forall>i < length (trace u w'). is_model_call (trace u w' ! i) \<longrightarrow>
       sum_list (map step_tokens (take i (trace u w'))) \<le> Agent_MaxTokens agent) \<and>
    (\<forall>res. r = Inr res \<longrightarrow> PromptTokens res + CompletionTokens res = sum_list (map step_tokens (trace u w')))"
  using assms(5)
proof (cases rule: Execute_prefix [where u = u])
  case (stopped err)
  then show ?thesis using assms(4) by simp
next
  case (loop agent' client deadline messages w5)
  have a: "agent' = agent" using loop(1) assms(3) by simp
  have "0 = int (length (trace u w5))" using loop(2) assms(4) by simp
  from installed.step_loop_trace [OF assms(1) _ loop(3) this] assms(2)
  obtain ts where ts: "extends u w5 w' ts" "within_budget agent (nat (Agent_MaxSteps agent)) (result_tokens no_result) ts"
      "\<forall>res. r = Inr res \<longrightarrow> result_tokens res = result_tokens no_result + sum_list (map step_tokens ts)"
    by (auto simp: a loop_trace_def)
  have "trace u w' = ts" using ts(1) loop(2) assms(4) by (simp add: extends_def)
  then show ?thesis
    using ts loop(2) assms(4)
    by (auto simp: extends_def within_budget_def result_tokens_def no_result_def)
qed

theorem run_trace_and_budgets_witness:
  "\<exists>res w'. Execute demo_Executor ''r1'' ''a1'' demo_world = (Inr res, w') \<and> Output res = ''all done'' \<and>
     map st_step_index (trace ''r1'' w') = [0, 1, 2, 3] \<and>
     sum_list (map step_tokens (trace ''r1'' w')) = 28"
proof -
  let ?o = "demo_outcome demo_Executor"
  have reg: "ex_registry demo_Executor = BuildRegistry demo_decoders quiet_net (Some demo_pg) None (ConfigFromEnv (\<lambda>_. []))"
    by (simp add: demo_Executor_def demo_registry_def)
  have u: "uuid_in (ex_pg demo_Executor) ''r1'' = Some ''r1''" and new: "trace ''r1'' demo_world = []" by code_simp+
  have run: "Execute demo_Executor ''r1'' ''a1'' demo_world = (fst ?o, snd ?o)" by (simp add: demo_outcome_def)
  have four: "length (trace ''r1'' (snd ?o)) = 4" using arg_cong [OF demo_trace(2), of length] by simp
  from run_trace_and_budgets [OF reg u demo_loads new run] demo_trace(1) run four show ?thesis
    by (intro exI [of _ "\<lparr>Output = ''all done'', PromptTokens = 20, CompletionTokens = 8, BudgetExceeded = False\<rparr>"] exI [of _ "snd ?o"])
      (simp add: upt_rec numeral_eq_Suc)
qed

text \<open>
  C16: a tool that was not granted has no influence. For the agent the run loads, exchanging every
  tool it was not granted for anything else, or for nothing, changes neither what the run does to
  the world nor how it ends.
\<close>

theorem ungranted_tools_have_no_influence:
  assumes "fst (AgentStore_Get (ex_pg e) OwnerUserID agentID (w_server w)) = Inr agent"
    and "\<And>name. HasTool agent name \<Longrightarrow> Registry_Get (ex_registry e) name = Registry_Get r' name"
  shows "Execute (e\<lparr>ex_registry := r'\<rparr>) runID agentID w = Execute e runID agentID w"
proof -
  have d: "Definitions r' (tool_list (Agent_Tools agent)) = Definitions (ex_registry e) (tool_list (Agent_Tools agent))"
    using assms(2) by (intro Definitions_cong) (simp add: HasTool_iff)
  obtain s1 where g: "AgentStore_Get (ex_pg e) OwnerUserID agentID (w_server w) = (Inr agent, s1)"
    using assms(1) by (metis prod.collapse)
  have f: "ex_pg (e\<lparr>ex_registry := r'\<rparr>) = ex_pg e" "ex_secrets (e\<lparr>ex_registry := r'\<rparr>) = ex_secrets e"
      "ex_fallbackAPIKey (e\<lparr>ex_registry := r'\<rparr>) = ex_fallbackAPIKey e" by simp_all
  have b: "buildInitialMessages (e\<lparr>ex_registry := r'\<rparr>) = buildInitialMessages e"
      "credentialFor (e\<lparr>ex_registry := r'\<rparr>) = credentialFor e"
    by (intro ext, simp only: buildInitialMessages_def credentialFor_def f)+
  show ?thesis
    by (simp add: Execute_def on_server_def [of "AgentStore_Get _ _ _"] g b d step_loop_cong [OF assms(2)]
        split: prod.split sum.split)
qed

theorem ungranted_tools_have_no_influence_witness:
  "Execute (demo_Executor\<lparr>ex_registry := Register (MemoryWrite_tool demo_decoders demo_pg) NewRegistry\<rparr>) ''r1'' ''a1'' demo_world =
     demo_outcome demo_Executor \<and> length (trace ''r1'' (snd (demo_outcome demo_Executor))) = 4"
proof -
  let ?r = "Register (MemoryWrite_tool demo_decoders demo_pg) NewRegistry :: nat world Registry"
  have "HasTool (scanAgent (demo_agent ''a1'')) name \<Longrightarrow> name = ToolMemoryWrite" for name
    by (simp add: HasTool_iff scanAgent_def demo_agent_def tool_list_def)
  then have "HasTool (scanAgent (demo_agent ''a1'')) name \<Longrightarrow>
      Registry_Get (ex_registry demo_Executor) name = Registry_Get ?r name" for name
    by (simp add: demo_Executor_def demo_registry_def BuildRegistry_def ConfigFromEnv_def Register_Get
        MemoryWrite_tool_def MemoryRead_tool_def)
  from ungranted_tools_have_no_influence [OF demo_loads this]
  have "Execute (demo_Executor\<lparr>ex_registry := ?r\<rparr>) ''r1'' ''a1'' demo_world = demo_outcome demo_Executor"
    by (simp add: demo_outcome_def)
  moreover have "length (trace ''r1'' (snd (demo_outcome demo_Executor))) = 4"
    using arg_cong [OF demo_trace(2), of length] by simp
  ultimately show ?thesis ..
qed

end
