(* ===== verification/Api_Properties.thy ===== *)
theory Api_Properties
  imports Api_Invariants Materializer Executor
begin

text \<open>
  What the API promises of every request: it is closed without a session, what it refuses it does
  not do, and only valid agents are stored; and the session, schedule and preview handlers in full.
\<close>

section \<open>Refusals\<close>

text \<open>
  A call that fails on the way fails with an error of the connection, not with one of the two
  errors by which the driver and Postgres say that there is no such row.
\<close>

definition connection_errors :: "server \<Rightarrow> bool" where
  "connection_errors s \<longleftrightarrow> (\<forall>out \<in> set (outcomes s). \<forall>e. out = Refused e \<or> out = Unacked e \<longrightarrow> translateNoRows e \<noteq> ErrNotFound)"

lemma connection_errors_later: "connection_errors s \<Longrightarrow> connection_errors (s\<lparr>outcomes := drop n (outcomes s)\<rparr>)"
  by (auto simp: connection_errors_def dest: in_set_dropD)

lemma connection_errors_pool:
  assumes "statement q" and "connection_errors s"
  shows "connection_errors (snd (pool_call q s))"
proof -
  have "connection_errors (snd (next_outcome s))"
    using next_outcome_drop [of s] connection_errors_later [OF assms(2)] by auto
  moreover have "outcomes (snd (q (snd (next_outcome s)))) = outcomes (snd (next_outcome s))"
    by (simp add: statement.after_outcome [OF assms(1)] apsnd_def map_prod_def split: prod.splits)
  ultimately show ?thesis
    by (cases rule: pool_call_cases [of q s]) (simp_all add: connection_errors_def)
qed

text \<open>When such a row is reported missing, the statement was rejected and nothing was written.\<close>

lemma pool_missing:
  assumes "statement q" and "connection_errors s" and "pool_call q s = (Inl e, s')" and "translateNoRows e = ErrNotFound"
  shows "tables s' = tables s"
proof (cases "next_outcome s")
  case (Pair out s1)
  have "out \<noteq> Served \<Longrightarrow> out \<in> set (outcomes s)"
    using Pair by (auto simp: next_outcome.simps split: list.splits)
  with assms(2-4) Pair have "q s1 = (Inl e, s')"
    by (auto simp: pool_call_def connection_errors_def split: outcome.splits)
  with statement.rejected_keeps [OF assms(1)] next_outcome_D [OF Pair] show ?thesis by metis
qed

definition unchanged :: "database \<Rightarrow> server \<Rightarrow> bool" where
  "unchanged d s \<longleftrightarrow> tables s = d \<and> connection_errors s"

definition unchanged_if_refused :: "database \<Rightarrow> bool \<Rightarrow> server \<Rightarrow> bool" where
  "unchanged_if_refused d refusal s \<longleftrightarrow> (refusal \<longrightarrow> tables s = d)"

text \<open>A statement that counts the rows it affects and touches none has changed nothing.\<close>

lemma refuses_affected:
  assumes "\<And>u. statement (q u)" and "\<And>u s s'. q u s = (Inr 0, s') \<Longrightarrow> tables s' = tables s"
  shows "refuses (unchanged d) (unchanged_if_refused d)
    (\<lambda>s. case pool_call (with_uuid pg i q) s of (r, s') \<Rightarrow> (affected_or_not_found r, s'))"
proof -
  have "tables s' = tables s" if "connection_errors s" "pool_call (with_uuid pg i q) s = (r, s')"
      "affected_or_not_found r = Inl ErrNotFound" for s r s'
  proof (cases r)
    case (Inl e)
    with that pool_missing [OF statement_with_uuid [OF assms(1)]] show ?thesis
      by (simp add: affected_or_not_found_def)
  next
    case (Inr n)
    with that have "n = 0" by (simp add: affected_or_not_found_def split: if_splits)
    with that Inr have "fst (with_uuid pg i q s) = Inr 0" "tables s' = tables (snd (with_uuid pg i q s))"
      using statement.pool_ok [OF statement_with_uuid [OF assms(1)]] by auto
    with assms(2) show ?thesis
      by (auto simp: with_uuid_def split: option.splits) (metis prod.collapse)
  qed
  then show ?thesis by (auto simp: refuses_def unchanged_def unchanged_if_refused_def split: prod.splits)
qed

interpretation update_agent_stmt: statement "update_agent_stmt userID u agent" for userID u agent
proof
  fix s e s'
  assume "update_agent_stmt userID u agent s = (Inl e, s')"
  then show "tables s' = tables s"
    by (auto simp: update_agent_stmt_def first_row_def filter_empty_conv update_where_none split: if_splits list.splits)
qed (auto simp: update_agent_stmt_def)

interpretation delete_schedule_stmt: statement "delete_schedule_stmt userID u" for userID u
  by unfold_locales (auto simp: delete_schedule_stmt_def)

interpretation delete_memory_stmt: statement "delete_memory_stmt userID u" for userID u
  by unfold_locales (auto simp: delete_memory_stmt_def Let_def)

interpretation delete_secret_stmt: statement "delete_secret_stmt userID name" for userID name
  by unfold_locales (auto simp: delete_secret_stmt_def)

interpretation mark_read_stmt: statement "mark_read_stmt userID u t" for userID u t
  by unfold_locales (auto simp: mark_read_stmt_def Let_def)

lemma delete_where_none: "filter p rs = [] \<Longrightarrow> delete_where p rs = rs"
  by (auto simp: delete_where_def filter_empty_conv)

lemma no_schedule_forgotten: "filter p (schedules d) = [] \<Longrightarrow> forget_schedules p d = d"
  by (auto simp: forget_schedules_def delete_where_none filter_empty_conv update_where_def)

lemma no_agent_deleted:
  assumes "filter p (agents d) = []"
  shows "cascade_agents p d = d"
proof -
  have none: "\<not> p a" if "a \<in> set (agents d)" for a using assms that by (auto simp: filter_empty_conv)
  then show ?thesis
    using assms by (auto simp: cascade_agents_def cascade_runs_def forget_schedules_def delete_where_def filter_empty_conv
        update_where_def)
qed

lemma refuses_update:
  "refuses (unchanged d) (unchanged_if_refused d) (AgentStore_Update pg userID i agent)"
proof -
  have "tables s' = tables s" if c: "connection_errors s" and upd: "AgentStore_Update pg userID i agent s = (Inl ErrNotFound, s')" for s s'
  proof -
    obtain e where call: "pool_call (with_uuid pg i (\<lambda>u. update_agent_stmt userID u agent)) s = (Inl e, s')"
        and missing: "translateNoRows e = ErrNotFound"
      using upd by (auto simp: AgentStore_Update_def translate_res_def split: prod.splits sum.splits)
    show ?thesis
      by (rule pool_missing [OF statement_with_uuid c call missing]) (rule update_agent_stmt.statement_axioms)
  qed
  then show ?thesis by (auto simp: refuses_def unchanged_def unchanged_if_refused_def)
qed

lemma refuses_deletes:
  "refuses (unchanged d) (unchanged_if_refused d) (AgentStore_Delete pg userID i)"
  "refuses (unchanged d) (unchanged_if_refused d) (DeleteByAgent pg userID i)"
  "refuses (unchanged d) (unchanged_if_refused d) (MemoryStore_Delete pg userID i)"
  unfolding AgentStore_Delete_def DeleteByAgent_def MemoryStore_Delete_def
  by (intro refuses_affected delete_agent_stmt.statement_axioms delete_schedule_stmt.statement_axioms
      delete_memory_stmt.statement_axioms;
      auto simp: delete_agent_stmt_def delete_schedule_stmt_def delete_memory_stmt_def Let_def no_agent_deleted
        no_schedule_forgotten delete_where_none)+

lemma refuses_delete_secret:
  "refuses (unchanged d) (unchanged_if_refused d) (SecretStore_Delete userID name)"
proof -
  have "tables s' = tables s" if c: "connection_errors s" and del: "SecretStore_Delete userID name s = (Inl ErrNotFound, s')" for s s'
  proof (cases "pool_call (delete_secret_stmt userID name) s")
    case (Pair r s1)
    have nf: "translateNoRows ErrNotFound = ErrNotFound" by (simp add: translateNoRows_def)
    show ?thesis
    proof (cases r)
      case (Inl e)
      then have "e = ErrNotFound" "s1 = s'" using Pair del by (simp_all add: SecretStore_Delete_def)
      with pool_missing [OF delete_secret_stmt.statement_axioms c] Pair Inl nf show ?thesis by metis
    next
      case (Inr n)
      then have "n = 0" "s1 = s'" using Pair del by (simp_all add: SecretStore_Delete_def split: if_splits)
      with delete_secret_stmt.pool_ok Pair Inr show ?thesis
        by (fastforce simp: delete_secret_stmt_def delete_where_none)
    qed
  qed
  then show ?thesis by (auto simp: refuses_def unchanged_def unchanged_if_refused_def)
qed

lemma refuses_mark_read:
  "refuses (unchanged d) (unchanged_if_refused d) (MarkRead pg userID i t)"
proof -
  let ?q = "with_uuid pg i (\<lambda>u. mark_read_stmt userID u t)"
  let ?p = "with_uuid pg i (\<lambda>u. query (\<lambda>d. \<exists>r \<in> set (runs d). r_id r = u \<and> r_user_id r = userID))"
  have st: "statement ?q" by (rule statement_with_uuid) (rule mark_read_stmt.statement_axioms)
  have "tables s' = tables s" if c: "connection_errors s" and read: "MarkRead pg userID i t s = (Inl ErrNotFound, s')" for s s'
  proof (cases "pool_call ?q s")
    case (Pair r s1)
    show ?thesis
    proof (cases r)
      case (Inl e)
      then have "translateNoRows e = ErrNotFound" "s1 = s'" using Pair read by (simp_all add: MarkRead_def)
      with pool_missing [OF st c] Pair Inl show ?thesis by metis
    next
      case (Inr n)
      have n: "n = 0" using Pair Inr read by (auto simp: MarkRead_def split: if_splits)
      have "fst (?q s) = Inr n" "tables s1 = tables (snd (?q s))"
        using statement.pool_ok [OF st] Pair Inr by auto
      then have "tables s1 = tables s"
        using n by (auto simp: with_uuid_def mark_read_stmt_def Let_def filter_empty_conv update_where_none split: option.splits)
      moreover have "s' = snd (pool_call ?p s1)"
        using Pair Inr n read by (auto simp: MarkRead_def split: prod.splits sum.splits if_splits)
      moreover have "tables (snd (pool_call ?p s1)) = tables s1"
        using reads_uuid_query [of pg i "\<lambda>u d. \<exists>r \<in> set (runs d). r_id r = u \<and> r_user_id r = userID"]
        unfolding reads_def by (metis server.select_convs(1) server.surjective server.update_convs(2))
      ultimately show ?thesis by simp
    qed
  qed
  then show ?thesis by (auto simp: refuses_def unchanged_def unchanged_if_refused_def)
qed

interpretation refusal: api_contract "unchanged d" "unchanged_if_refused d" pg sealer for d pg sealer
  by unfold_locales
    (simp_all add: refuses_update refuses_deletes refuses_delete_secret refuses_mark_read writes_def unchanged_def
      unchanged_if_refused_def connection_errors_later)

text \<open>
  C11: what is refused is not done. Whenever the API answers a request with a status of the 400s
  (a body that does not decode, an agent that is not valid or whose provider does not answer, an
  unknown credential, schedule or row, a wrong password, no session), the tables are exactly
  what they were, for every endpoint. Assumed is only that a broken connection does not look
  like an empty result.
\<close>

theorem refused_requests_change_nothing:
  assumes "installed srv" and "connection_errors (api_server st)" and "serve srv rq st = (reply, st')"
    and "400 \<le> reply_status reply" and "reply_status reply < 500"
  shows "api_tables st' = api_tables st"
proof -
  have "unchanged (api_tables st) (api_server st)" using assms(2) by (simp add: unchanged_def api_tables_def)
  from refusal.serve_ends [OF this refl refl assms(1), of rq] show ?thesis
    using assms(3-5) by (simp add: ends_def refused_def unchanged_if_refused_def api_tables_def)
qed

section \<open>Stored agents are valid\<close>

definition agents_valid :: "database \<Rightarrow> bool" where
  "agents_valid d \<longleftrightarrow> (\<forall>a \<in> set (agents d). agent_ok (scanAgent a))"

definition valid_server :: "server \<Rightarrow> bool" where
  "valid_server s \<longleftrightarrow> agents_valid (tables s)"

lemma agents_valid_tables: "agents d' = agents d \<Longrightarrow> agents_valid d' = agents_valid d"
  by (simp add: agents_valid_def)

lemma scan_stored: "agent_ok agent \<Longrightarrow> agent_ok (scanAgent (set_agent_columns agent a))"
  by (simp add: agent_ok_def scanAgent_def set_agent_columns_def tool_list_def)

lemma insert_agent_valid: "agent_ok agent \<Longrightarrow> valid_server s \<Longrightarrow> valid_server (snd (insert_agent pg u agent s))"
  by (auto simp: insert_agent_def valid_server_def agents_valid_def Let_def scan_stored)

lemma update_agent_valid: "agent_ok agent \<Longrightarrow> valid_server s \<Longrightarrow> valid_server (snd (update_agent_stmt u i agent s))"
proof -
  have "agent_ok agent \<Longrightarrow> agent_ok (scanAgent (update_agent_row agent now a))" for now a
    using scan_stored [of agent a] by (simp add: update_agent_row_def scanAgent_def agent_ok_def)
  then show "agent_ok agent \<Longrightarrow> valid_server s \<Longrightarrow> valid_server (snd (update_agent_stmt u i agent s))"
    by (auto simp: update_agent_stmt_def valid_server_def agents_valid_def ball_update_where)
qed

lemma delete_agent_valid: "valid_server s \<Longrightarrow> valid_server (snd (delete_agent_stmt u i s))"
  by (auto simp: delete_agent_stmt_def valid_server_def agents_valid_def cascade_agents_fields)

text \<open>The other statements of the stores do not touch the agents.\<close>

lemma other_stmts_valid:
  "valid_server s \<Longrightarrow> valid_server (snd (upsert_schedule pg u i schedule t w s))"
  "valid_server s \<Longrightarrow> valid_server (snd (delete_schedule_stmt u i s))"
  "valid_server s \<Longrightarrow> valid_server (snd (insert_run pg u i None trigger status t s))"
  "valid_server s \<Longrightarrow> valid_server (snd (mark_read_stmt u i t s))"
  "valid_server s \<Longrightarrow> valid_server (snd (delete_memory_stmt u i s))"
  "valid_server s \<Longrightarrow> valid_server (snd (upsert_secret pg u name v k m s))"
  "valid_server s \<Longrightarrow> valid_server (snd (delete_secret_stmt u name s))"
  "valid_server s \<Longrightarrow> valid_server (snd (insert_session token u t s))"
  by (auto simp: valid_server_def agents_valid_def upsert_schedule_def delete_schedule_stmt_def forget_schedules_def
      insert_run_def mark_read_stmt_def delete_memory_stmt_def upsert_secret_def delete_secret_stmt_def insert_session_def
      Let_def split: list.split)

interpretation validity: statements_keep valid_server pg for pg
proof unfold_locales
  show "valid_server (s\<lparr>outcomes := os\<rparr>) = valid_server s" for s os by (simp add: valid_server_def)
  show "valid_server s \<Longrightarrow> valid_server (s\<lparr>tables := (tables s)\<lparr>users := u\<rparr>\<rparr>)" for s u
    by (simp add: valid_server_def agents_valid_def)
  show "valid_server s \<Longrightarrow> valid_server (s\<lparr>tables := (tables s)\<lparr>sessions := x\<rparr>\<rparr>)" for s x
    by (simp add: valid_server_def agents_valid_def)
qed (simp_all add: keeps_def insert_agent_valid update_agent_valid delete_agent_valid other_stmts_valid)

text \<open>
  C12: the API stores valid agents only. If every stored agent has a name, a model, tools of the
  catalogue only, a context mode with its number of runs, and budgets between one and their
  ceilings, then so it is after any request, whatever its body decodes to and however
  the database and the model provider behave.
\<close>

theorem api_stores_only_valid_agents:
  assumes "installed srv" and "agents_valid (api_tables st)" and "serve srv rq st = (reply, st')"
  shows "agents_valid (api_tables st')"
  using validity.serve_keeps [OF assms(1) refl _ assms(3)] assms(2) by (simp add: valid_server_def api_tables_def)

section \<open>Sessions\<close>

text \<open>What a path that needs no session can reach.\<close>

lemma route_is_public:
  assumes "(m, ps, f) \<in> set (health_route # api_routes)" and "isPublicPath (slash # Join (fill ps vs) [slash])"
  shows "f vs \<in> {Login, Session, Health}"
  using assms
  by (cases vs)
    (auto simp: health_route_def api_routes_def agent_routes_def schedule_routes_def auth_routes_def secret_routes_def
      inbox_routes_def isPublicPath_def slash_def Join_Cons)

lemma public_endpoint:
  assumes "mux_match (health_route # api_routes) method escaped = Endpoint e" and "PathUnescape escaped = Some path"
    and "isPublicPath path"
  shows "e \<in> {Login, Session, Health}"
  using mux_match_path [OF assms(1,2)] assms(3) route_is_public by blast

fun public_body :: "payload \<Rightarrow> bool" where
  "public_body (ErrorBody _) = True"
| "public_body (StatusBody _) = True"
| "public_body (SignedIn _) = True"
| "public_body (RedirectTo _) = True"
| "public_body (DashboardFile _) = True"
| "public_body _ = False"

lemma public_writes [simp]: "reply_body (writeJSON status b) = b" "reply_body (writeError status m) = ErrorBody m"
  "reply_body notSignedIn = ErrorBody ''not signed in''"
  by (simp_all add: writeJSON_def writeError_def notSignedIn_def)

text \<open>Who knows the owner's password.\<close>

definition right_password :: "'h SchedulerServer \<Rightarrow> api_request \<Rightarrow> database \<Rightarrow> bool" where
  "right_password srv rq d \<longleftrightarrow> (\<exists>password. decodeBody rq (json_password (srv_decode srv)) = Inr password \<and>
     (\<exists>u \<in> set (users d). usr_id u = OwnerUserID \<and> usr_password_hash u \<noteq> [] \<and>
        CompareHashAndPassword (srv_bcrypt srv) (usr_password_hash u) password))"

text \<open>The outcome of a request that was not let in: nothing of the state but the answers still to come.\<close>

definition only_looked :: "'h api \<Rightarrow> 'h api \<Rightarrow> bool" where
  "only_looked st st' \<longleftrightarrow> api_tables st' = api_tables st \<and> w_net (api_world st') = w_net (api_world st)"

lemma only_looked_refl [simp]: "only_looked st st"
  by (simp add: only_looked_def)

lemma only_looked_trans: "only_looked a b \<Longrightarrow> only_looked b c \<Longrightarrow> only_looked a c"
  by (simp add: only_looked_def)

lemma clock_looked: "clock_Now st = (t, st') \<Longrightarrow> only_looked st st' \<and> t = w_clock (api_world st) (w_ticks (api_world st))"
  by (auto simp: clock_Now_def Now_def only_looked_def api_tables_def api_server_def)

lemma store_looked:
  assumes "reads f" and "on_store f st = (a, st')"
  shows "only_looked st st'"
proof -
  have "tables (api_server st') = tables (api_server st)"
    using readsD [OF assms(1) on_store_D [OF assms(2)]] by auto
  moreover have "w_net (api_world st') = w_net (api_world st)"
    using assms(2) by (auto simp: on_store_def on_server_def split: prod.splits)
  ultimately show ?thesis by (simp add: only_looked_def api_tables_def)
qed

lemma session_looked:
  assumes "clock_Now st = (t, st1)" and "on_store (UserForSession token t) st1 = (r, st2)"
  shows "only_looked st st2"
  using clock_looked [OF assms(1)] store_looked [OF reads_others(8) assms(2)] only_looked_trans by blast

lemma handleSession_looked:
  assumes "handleSession rq st = (reply, st')"
  shows "only_looked st st' \<and> public_body (reply_body reply)"
  using assms by (auto simp: handleSession_def split: option.splits prod.splits dest: session_looked)

lemma handleHealth_looked:
  assumes "handleHealth st = (reply, st')"
  shows "only_looked st st' \<and> public_body (reply_body reply)"
  using assms store_looked [OF reads_query] by (fastforce simp: handleHealth_def split: prod.splits sum.splits)

text \<open>A login changes something only for the right password, and then adds a session.\<close>

lemma CreateSession_tables:
  "\<exists>xs. tables (snd (snd (CreateSession u t rng s))) = (tables s)\<lparr>sessions := sessions (tables s) @ xs\<rparr>"
proof -
  have none: "\<exists>xs. tables s = (tables s)\<lparr>sessions := sessions (tables s) @ xs\<rparr>" by (rule exI [of _ "[]"]) simp
  have "\<exists>xs. tables (snd (pool_call (insert_session token u t') s)) = (tables s)\<lparr>sessions := sessions (tables s) @ xs\<rparr>" for token t'
  proof -
    have "tables (snd (insert_session token u t' s)) \<in> {(tables s)\<lparr>sessions := sessions (tables s) @ xs\<rparr> | xs. True}"
      using none by (auto simp: insert_session_def)
    with none show ?thesis
      using insert_session_stmt.pool_atomic [of token u t' s] by auto
  qed
  with none show ?thesis
    by (auto simp: CreateSession_def Let_def case_prod_unfold split: sum.split)
qed

lemma handleLogin_effect:
  assumes "handleLogin srv rq st = (reply, st')"
  shows "public_body (reply_body reply) \<and> w_net (api_world st') = w_net (api_world st) \<and>
    (only_looked st st' \<or> right_password srv rq (api_tables st) \<and>
      (\<exists>xs. api_tables st' = (api_tables st)\<lparr>sessions := sessions (api_tables st) @ xs\<rparr>))"
proof (cases "decodeBody rq (json_password (srv_decode srv))")
  case (Inl r)
  then show ?thesis using assms
    by (auto simp: handleLogin_def decodeBody_def split: sum.splits)
next
  case (Inr password)
  obtain r st1 where check: "on_store (CheckPassword (srv_bcrypt srv) OwnerUserID password) st = (r, st1)"
    by (cases "on_store (CheckPassword (srv_bcrypt srv) OwnerUserID password) st")
  have looked: "only_looked st st1" using store_looked [OF reads_others(9) check] .
  show ?thesis
  proof (cases "r = Inr True")
    case True
    then have right: "right_password srv rq (api_tables st)"
      using CheckPassword_true [of "srv_bcrypt srv" OwnerUserID password "api_server st"] on_store_D [OF check] Inr
      by (auto simp: right_password_def api_tables_def)
    obtain t st2 where now: "clock_Now st1 = (t, st2)" by (cases "clock_Now st1")
    have "only_looked st st2" using looked clock_looked [OF now] only_looked_trans by blast
    moreover obtain xs where "tables (api_server (snd (on_store_rng (CreateSession OwnerUserID t) st2)))
        = (tables (api_server st2))\<lparr>sessions := sessions (tables (api_server st2)) @ xs\<rparr>"
      using CreateSession_tables by (metis api_server_on_store_rng)
    moreover have "w_net (api_world (snd (on_store_rng (CreateSession OwnerUserID t) st2))) = w_net (api_world st2)"
      by (simp add: on_store_rng_def split: prod.splits)
    moreover have "st' = snd (on_store_rng (CreateSession OwnerUserID t) st2)" "public_body (reply_body reply)"
      using assms Inr check True now
      by (auto simp: handleLogin_def or_internal_def split: sum.splits prod.splits)
    ultimately show ?thesis using right by (auto simp: only_looked_def api_tables_def)
  next
    case False
    then show ?thesis
      using assms Inr check looked
      by (auto simp: handleLogin_def or_internal_def only_looked_def split: sum.splits)
  qed
qed

text \<open>
  C10: the API is closed. A request whose cookie is missing, unknown or expired reads and changes
  nothing behind the API, whatever its method and path, escaped in whichever way: its answer is an
  error, the health or session state, a redirect or a file of the dashboard; the network is not
  used; and the tables are what they were, unless the request is a login with the owner's
  password, which adds a session and nothing else.
\<close>

theorem closed_without_session:
  assumes "serve srv rq st = (reply, st')"
    and "\<forall>x \<in> set (sessions (api_tables st)). rq_cookie rq = Some (ses_id x) \<longrightarrow>
      ses_expires_at x \<le> w_clock (api_world st) (w_ticks (api_world st))"
  shows "public_body (reply_body reply) \<and> w_net (api_world st') = w_net (api_world st) \<and>
    (api_tables st' = api_tables st \<or>
      right_password srv rq (api_tables st) \<and>
      (\<exists>xs. api_tables st' = (api_tables st)\<lparr>sessions := sessions (api_tables st) @ xs\<rparr>))"
proof (cases "PathUnescape (rq_escaped rq)")
  case None
  then show ?thesis using assms(1) by (auto simp: serve_def)
next
  case (Some path)
  show ?thesis
  proof (cases "isPublicPath path")
    case True
    then have mux: "mux_ServeHTTP srv path rq st = (reply, st')"
      using assms(1) Some by (simp add: serve_def requireSession_def)
    show ?thesis
    proof (cases "mux_match (health_route # api_routes) (rq_method rq) (rq_escaped rq)")
      case (Endpoint e)
      then have "e \<in> {Login, Session, Health}" using public_endpoint Some True by blast
      then show ?thesis
        using mux Endpoint handleLogin_effect [of srv rq st reply st'] handleSession_looked [of rq st reply st']
          handleHealth_looked [of st reply st']
        by (auto simp: mux_ServeHTTP_def only_looked_def)
    qed (use mux in \<open>auto simp: mux_ServeHTTP_def dashboard_Handler_def\<close>)
  next
    case False
    show ?thesis
    proof (cases "rq_cookie rq")
      case None
      then show ?thesis using assms(1) Some False by (auto simp: serve_def requireSession_def)
    next
      case (Some token)
      obtain t st1 where now: "clock_Now st = (t, st1)" by (cases "clock_Now st")
      obtain r st2 where user: "on_store (UserForSession token t) st1 = (r, st2)"
        by (cases "on_store (UserForSession token t) st1")
      have "is_err r"
      proof (cases r)
        case (Inr u)
        then show ?thesis
          using UserForSession_live [of token t "api_server st1" u] on_store_D [OF user] clock_looked [OF now] assms(2) Some
          by (auto simp: live_session_def only_looked_def api_tables_def)
      qed simp
      moreover have "only_looked st st2" using session_looked [OF now user] .
      ultimately show ?thesis
        using assms(1) \<open>PathUnescape (rq_escaped rq) = Some path\<close> False Some now user
        by (auto simp: serve_def requireSession_def only_looked_def split: sum.splits)
    qed
  qed
qed

lemma live_session_id: "live_session token t x \<Longrightarrow> ses_id x = token"
  by (simp add: live_session_def)

lemma CreateSession_served: "CreateSession u t rng s = (r, rng', s') \<Longrightarrow> outcomes s = [] \<Longrightarrow> outcomes s' = []"
  by (auto simp: CreateSession_def insert_session_def Let_def split: sum.splits prod.splits if_splits)

text \<open>
  C25: the life of a session. A login that was answered with a cookie has stored the cookie's
  token as a session of the owner: it is recognised at every instant before thirty days after the
  login and at none from then on, the cookie carries the same lifetime, and once the session is
  deleted the token is never recognised again. What other tokens are worth is not touched
  by either.
\<close>

theorem login_session_lifecycle:
  assumes "handleLogin srv rq st = (reply, st')" and "reply_cookie reply = Some c"
    and "outcomes (api_server st) = []"
  shows "let s = api_server st'; now = w_clock (api_world st) (w_ticks (api_world st)); token = cookie_Value c in
    cookie_MaxAge c = 2592000 \<and>
    (\<forall>t. fst (UserForSession token t s) = (if t < now + 2592000 * Second then Inr OwnerUserID else Inl ErrNotFound)) \<and>
    (\<forall>t. fst (UserForSession token t (snd (DeleteSession token s))) = Inl ErrNotFound) \<and>
    (\<forall>other t. other \<noteq> token \<longrightarrow>
       fst (UserForSession other t s) = fst (UserForSession other t (api_server st)) \<and>
       fst (UserForSession other t (snd (DeleteSession token s))) = fst (UserForSession other t (api_server st)))"
proof -
  obtain password where pw: "decodeBody rq (json_password (srv_decode srv)) = Inr password"
    using assms(1,2) by (auto simp: handleLogin_def decodeBody_def writeError_def writeJSON_def split: sum.splits)
  have check: "on_store (CheckPassword (srv_bcrypt srv) OwnerUserID password) st =
      (fst (CheckPassword (srv_bcrypt srv) OwnerUserID password (api_server st)), st)"
  proof -
    have "snd (CheckPassword (srv_bcrypt srv) OwnerUserID password (api_server st)) = api_server st"
      using assms(3) by (auto simp: CheckPassword_def select_hash_def query_row_def split: sum.splits prod.splits)
    then show ?thesis by (simp add: on_store_def on_server_def api_server_def case_prod_unfold)
  qed
  let ?now = "w_clock (api_world st) (w_ticks (api_world st))"
  obtain st2 where now: "clock_Now st = (?now, st2)" and same: "api_server st2 = api_server st" "api_rng st2 = api_rng st"
    by (auto simp: clock_Now_def Now_def api_server_def)
  obtain token rng where create: "CreateSession OwnerUserID ?now (api_rng st) (api_server st) = (Inr token, rng, api_server st')"
      and c: "c = session_cookie token"
    using assms(1,2) pw check now same
    by (auto simp: handleLogin_def or_internal_def on_store_rng_def api_server_def writeError_def writeJSON_def
        split: sum.splits prod.splits if_splits)
  note row = CreateSession_ok(1,2) [OF create]
  have out: "outcomes (api_server st') = []"
    using CreateSession_served [OF create assms(3)] .
  have del: "DeleteSession token (api_server st') = (Inr (), (api_server st')\<lparr>tables := (tables (api_server st'))\<lparr>sessions :=
      delete_where (\<lambda>x. ses_id x = token) (sessions (tables (api_server st')))\<rparr>\<rparr>)"
    using out by (simp add: DeleteSession_def exec_def)
  have none: "filter (live_session token t) (sessions (tables (api_server st))) = []" for t
    using row(2) by (auto simp: filter_empty_conv live_session_def)
  have "filter (live_session other t) (delete_where (\<lambda>x. ses_id x = token) xs) =
      (if other = token then [] else filter (live_session other t) xs)" for other t xs
    by (induction xs) (auto simp: delete_where_def dest: live_session_id)
  then show ?thesis
    using out assms(3) none
    by (auto simp: c session_cookie_def SessionLifetime_def duration_defs Let_def UserForSession_served del row live_session_def)
qed

section \<open>Schedules: the upsert\<close>

lemma filter_update_schedule:
  assumes "\<And>y. sch_agent_id (f y) = sch_agent_id y"
  shows "filter (\<lambda>y. sch_agent_id y = u) (update_where (\<lambda>y. sch_agent_id y = u) f rs) = map f (filter (\<lambda>y. sch_agent_id y = u) rs)"
    "filter (\<lambda>y. sch_agent_id y \<noteq> u) (update_where (\<lambda>y. sch_agent_id y = u) f rs) = filter (\<lambda>y. sch_agent_id y \<noteq> u) rs"
  using assms by (induction rs) auto

lemma upsert_schedule_effect:
  assumes "fst (upsert_schedule pg userID u schedule t w s) = Inr row"
    and "distinct (map sch_agent_id (schedules (tables s)))"
  shows "let d = tables (snd (upsert_schedule pg userID u schedule t w s)) in
    filter (\<lambda>x. sch_agent_id x = u) (schedules d) = [row] \<and>
    filter (\<lambda>x. sch_agent_id x \<noteq> u) (schedules d) = filter (\<lambda>x. sch_agent_id x \<noteq> u) (schedules (tables s)) \<and>
    sch_cron_expression row = Schedule_CronExpression schedule \<and> sch_timezone row = Schedule_Timezone schedule \<and>
    sch_enabled row = Schedule_Enabled schedule \<and> sch_last_fired_wall row = w \<and> sch_next_fire_at row = Some t"
proof (cases "filter (\<lambda>x. sch_agent_id x = u) (schedules (tables s))")
  case Nil
  then show ?thesis using assms(1)
    by (auto simp: upsert_schedule_def set_schedule_columns_def Let_def split: if_splits)
next
  case (Cons x xs)
  have "filter (\<lambda>x. sch_agent_id x = u) (schedules (tables s)) = [x]"
    using Cons filter_key_distinct [OF assms(2), of u] by (auto split: option.splits)
  then show ?thesis
    using assms(1) by (auto simp: upsert_schedule_def set_schedule_columns_def Let_def filter_update_schedule)
qed

section \<open>Schedules\<close>

text \<open>The preview walks the fire times in order, as many as it shows.\<close>

lemma preview_later:
  assumes "spec_later spec"
  shows "sorted_wrt (<) (at # preview_loop spec n at)" and "length (preview_loop spec n at) \<le> n"
proof (induction n arbitrary: at)
  case (Suc n)
  { case 1
    have "preview_loop spec (Suc n) at = [] \<or>
        (\<exists>at1. at < at1 \<and> preview_loop spec (Suc n) at = at1 # preview_loop spec n at1)"
      using Next_later [OF assms, of at "[]"] by (auto simp: Let_def IsZero_def)
    then show ?case using Suc(1) by fastforce }
  { case 2
    show ?case using Suc(2) by (simp add: Let_def) }
qed simp_all

lemma preview_ends:
  "length (preview_loop spec n at) < n \<Longrightarrow> IsZero (Next spec (last (at # preview_loop spec n at)) '''')"
proof (induction n arbitrary: at)
  case (Suc n)
  let ?at1 = "Next spec at ''''"
  show ?case
  proof (cases "IsZero ?at1")
    case False
    then have loop: "preview_loop spec (Suc n) at = ?at1 # preview_loop spec n ?at1" by (simp add: Let_def)
    then show ?thesis using Suc.IH [of ?at1] Suc.prems unfolding loop by simp
  qed simp
qed simp

text \<open>What saving a schedule that the API answers for leaves behind.\<close>

lemma saved_schedule:
  assumes "handleSetSchedule srv agentID rq st = (reply, st')" and "reply_status reply = StatusOK"
    and "uuid_in (srv_pg srv) agentID = Some u" and "distinct (map sch_agent_id (schedules (api_tables st)))"
  shows "\<exists>requested spec row. decodeBody rq (\<lambda>body. json_Schedule (srv_decode srv) body blank_Schedule) = Inr requested \<and>
    Parse (srv_time srv) (Schedule_CronExpression requested) (Schedule_Timezone requested) = Inr spec \<and>
    Next spec (fst (clock_Now st)) '''' \<noteq> zero_time \<and>
    filter (\<lambda>x. sch_agent_id x = u) (schedules (api_tables st')) = [row] \<and>
    sch_cron_expression row = Schedule_CronExpression requested \<and> sch_timezone row = Schedule_Timezone requested \<and>
    sch_enabled row = Schedule_Enabled requested \<and> sch_last_fired_wall row = '''' \<and>
    sch_next_fire_at row = Some (Next spec (fst (clock_Now st)) '''') \<and>
    filter (\<lambda>x. sch_agent_id x \<noteq> u) (schedules (api_tables st')) = filter (\<lambda>x. sch_agent_id x \<noteq> u) (schedules (api_tables st))"
proof -
  obtain a st1 where get: "on_store (AgentStore_Get (srv_pg srv) OwnerUserID agentID) st = (Inr a, st1)"
    using assms(1,2)
    by (auto simp: handleSetSchedule_def or_store_error_def writeStoreError_def writeError_def writeJSON_def http_status_defs
        split: prod.splits sum.splits if_splits)
  have looked: "only_looked st st1" and clock: "fst (clock_Now st1) = fst (clock_Now st)"
    using store_looked [OF reads_others(1) get] get
    by (auto simp: clock_Now_def Now_def on_store_def on_server_def split: prod.splits)
  obtain requested spec where req: "decodeBody rq (\<lambda>body. json_Schedule (srv_decode srv) body blank_Schedule) = Inr requested"
      and parse: "Parse (srv_time srv) (Schedule_CronExpression requested) (Schedule_Timezone requested) = Inr spec"
    using assms(1,2) get
    by (auto simp: handleSetSchedule_def or_store_error_def decodeBody_def writeError_def writeJSON_def http_status_defs
        split: sum.splits)
  let ?now = "fst (clock_Now st)" and ?t = "Next spec (fst (clock_Now st)) ''''"
  obtain stored where up: "on_store (ScheduleStore_Upsert (srv_pg srv) OwnerUserID agentID requested ?t '''') (snd (clock_Now st1)) = (Inr stored, st')"
      and nz: "\<not> IsZero ?t"
    using assms(1,2) get req parse clock
    by (auto simp: handleSetSchedule_def or_store_error_def or_internal_def json_ok_def writeError_def writeJSON_def
        http_status_defs Let_def split: prod.splits sum.splits if_splits)
  let ?s = "api_server (snd (clock_Now st1))"
  have s: "tables ?s = api_tables st" using looked by (simp add: only_looked_def api_tables_def)
  obtain r where call: "pool_call (with_uuid (srv_pg srv) agentID (\<lambda>u. upsert_schedule (srv_pg srv) OwnerUserID u requested ?t '''')) ?s
      = (Inr r, api_server st')"
    using on_store_D [OF up] by (auto simp: ScheduleStore_Upsert_def translate_res_def split: prod.splits sum.splits)
  have stmt: "statement (with_uuid (srv_pg srv) agentID (\<lambda>u. upsert_schedule (srv_pg srv) OwnerUserID u requested ?t ''''))"
    by (rule statement_with_uuid) (rule upsert_schedule_stmt.statement_axioms)
  have ups: "fst (upsert_schedule (srv_pg srv) OwnerUserID u requested ?t '''' ?s) = Inr r"
      "api_tables st' = tables (snd (upsert_schedule (srv_pg srv) OwnerUserID u requested ?t '''' ?s))"
    using statement.pool_ok [OF stmt call] assms(3) by (simp_all add: with_uuid_def api_tables_def)
  note eff = upsert_schedule_effect [OF ups(1) assms(4) [folded s], unfolded Let_def]
  show ?thesis
    using req parse nz eff ups(2) s
    by (intro exI [of _ requested] exI [of _ spec] exI [of _ r]) (simp add: IsZero_def)
qed

text \<open>
  C26: what the schedule picker shows is what will be. For a valid expression and timezone the
  preview lists at most five instants, each later than the clock and than the one before, and
  fewer than five only when the schedule ends there. Saving the same expression and timezone for an agent in the
  same state of the API (so at the same clock reading), when the API answers that it was saved, leaves the agent exactly one
  schedule row, with that expression and timezone and with the first instant shown as its next fire
  time; when the preview is empty, saving is never answered as done.
\<close>

theorem preview_shows_what_saving_stores:
  assumes "Parse (srv_time srv) cronExpression timezone = Inr spec" and "spec_later spec"
    and "json_preview (srv_decode srv) body = Inr (cronExpression, timezone)" and "rq_body rq = Inr body"
    and "decodeBody rq' (\<lambda>body. json_Schedule (srv_decode srv) body blank_Schedule) = Inr requested"
    and "Schedule_CronExpression requested = cronExpression" and "Schedule_Timezone requested = timezone"
    and "handleSetSchedule srv agentID rq' st = (reply, st')"
    and "uuid_in (srv_pg srv) agentID = Some u" and "distinct (map sch_agent_id (schedules (api_tables st)))"
  shows "\<exists>ts st1. handlePreviewSchedule srv rq st = (writeJSON StatusOK (FireTimesBody ts), st1) \<and>
    length ts \<le> 5 \<and> sorted_wrt (<) (fst (clock_Now st) # ts) \<and>
    (length ts < 5 \<longrightarrow> IsZero (Next spec (last (fst (clock_Now st) # ts)) '''')) \<and>
    (reply_status reply = StatusOK \<longrightarrow> ts \<noteq> [] \<and>
       (\<exists>row. filter (\<lambda>x. sch_agent_id x = u) (schedules (api_tables st')) = [row] \<and>
          sch_cron_expression row = cronExpression \<and> sch_timezone row = timezone \<and> sch_next_fire_at row = Some (hd ts)))"
proof -
  let ?now = "fst (clock_Now st)" and ?ts = "preview_loop spec previewFireCount (fst (clock_Now st))"
  have five: "previewFireCount = Suc 4" by (simp add: previewFireCount_def)
  have handled: "handlePreviewSchedule srv rq st = (writeJSON StatusOK (FireTimesBody ?ts), snd (clock_Now st))"
    using assms(1,3,4) by (simp add: handlePreviewSchedule_def decodeBody_def case_prod_unfold)
  have first: "?ts \<noteq> [] \<and> hd ?ts = Next spec ?now ''''" if "Next spec ?now '''' \<noteq> zero_time"
    unfolding five preview_loop.simps using that by (simp add: Let_def IsZero_def)
  have "previewFireCount = 5" by (simp add: previewFireCount_def)
  then have "length ?ts \<le> 5" "length ?ts < 5 \<longrightarrow> IsZero (Next spec (last (?now # ?ts)) '''')"
    using preview_later(2) [OF assms(2)] preview_ends by metis+
  moreover have "?ts \<noteq> [] \<and> (\<exists>row. filter (\<lambda>x. sch_agent_id x = u) (schedules (api_tables st')) = [row] \<and>
      sch_cron_expression row = cronExpression \<and> sch_timezone row = timezone \<and> sch_next_fire_at row = Some (hd ?ts))"
    if "reply_status reply = StatusOK"
    using saved_schedule [OF assms(8) that assms(9,10)] first assms(1,5-7) by auto
  ultimately show ?thesis using handled preview_later(1) [OF assms(2)] by blast
qed

text \<open>
  Saving a schedule. When the API answers that a schedule was saved, the agent has exactly one
  schedule row, with the expression, the timezone and the switch of the request, no memory of
  an earlier fire, and the next fire time strictly after the clock, so that the materializer
  does not find it due at that instant; the schedules of other agents are as they were.
\<close>

theorem saved_schedule_starts_later:
  assumes "handleSetSchedule srv agentID rq st = (reply, st')" and "reply_status reply = StatusOK"
    and "uuid_in (srv_pg srv) agentID = Some u" and "distinct (map sch_agent_id (schedules (api_tables st)))"
    and "\<forall>e tz spec. Parse (srv_time srv) e tz = Inr spec \<longrightarrow> spec_later spec"
  shows "\<exists>requested row t. decodeBody rq (\<lambda>body. json_Schedule (srv_decode srv) body blank_Schedule) = Inr requested \<and>
    filter (\<lambda>x. sch_agent_id x = u) (schedules (api_tables st')) = [row] \<and>
    sch_cron_expression row = Schedule_CronExpression requested \<and> sch_timezone row = Schedule_Timezone requested \<and>
    sch_enabled row = Schedule_Enabled requested \<and> sch_last_fired_wall row = '''' \<and>
    sch_next_fire_at row = Some t \<and> fst (clock_Now st) < t \<and>
    \<not> is_due (fst (clock_Now st)) (api_tables st') row \<and>
    filter (\<lambda>x. sch_agent_id x \<noteq> u) (schedules (api_tables st')) = filter (\<lambda>x. sch_agent_id x \<noteq> u) (schedules (api_tables st))"
proof -
  from saved_schedule [OF assms(1-4)] obtain requested spec row where
      req: "decodeBody rq (\<lambda>body. json_Schedule (srv_decode srv) body blank_Schedule) = Inr requested"
      and parse: "Parse (srv_time srv) (Schedule_CronExpression requested) (Schedule_Timezone requested) = Inr spec"
      and nz: "Next spec (fst (clock_Now st)) '''' \<noteq> zero_time"
      and row: "filter (\<lambda>x. sch_agent_id x = u) (schedules (api_tables st')) = [row]"
        "sch_cron_expression row = Schedule_CronExpression requested" "sch_timezone row = Schedule_Timezone requested"
        "sch_enabled row = Schedule_Enabled requested" "sch_last_fired_wall row = ''''"
        "sch_next_fire_at row = Some (Next spec (fst (clock_Now st)) '''')"
      and other: "filter (\<lambda>x. sch_agent_id x \<noteq> u) (schedules (api_tables st')) = filter (\<lambda>x. sch_agent_id x \<noteq> u) (schedules (api_tables st))"
    by blast
  have "fst (clock_Now st) < Next spec (fst (clock_Now st)) ''''"
    using Next_later [of spec "fst (clock_Now st)" "[]"] assms(5) parse nz by auto
  with req row other show ?thesis by (auto simp: is_due_def)
qed

section \<open>The API on a concrete installation\<close>

definition demo_bcrypt :: bcrypt where
  "demo_bcrypt = \<lparr>GenerateFromPassword = (\<lambda>password rng. (Inr (CHR ''h'' # password), rng)),
     CompareHashAndPassword = (\<lambda>hash password. hash = CHR ''h'' # password)\<rparr>"

definition demo_api_decoders :: api_decoders where
  "demo_api_decoders =
     \<lparr>json_Agent = (\<lambda>body a. Inr (a\<lparr>Agent_Name := body, Agent_Model := ''m''\<rparr>)),
      json_Schedule = (\<lambda>_ x. Inr (x\<lparr>Schedule_CronExpression := ''0 0 * * *'', Schedule_Timezone := ''UTC''\<rparr>)),
      json_Settings = (\<lambda>_ x. Inr x), json_password = Inr, json_value = Inr,
      json_preview = (\<lambda>_. Inr (''0 0 * * *'', ''UTC'')), json_updates = (\<lambda>_. Inr [])\<rparr>"

definition demo_config :: Config where "demo_config = ConfigFromEnv (\<lambda>_. [])"

definition demo_srv :: "nat SchedulerServer" where
  "demo_srv =
     \<lparr>srv_pg = demo_pg, srv_sealer = demo_sealer, srv_toolConfig = demo_config,
      srv_registry = BuildRegistry demo_decoders quiet_net (Some demo_pg) (Some (Some demo_sealer)) demo_config,
      srv_bcrypt = demo_bcrypt, srv_time = demo_env, srv_decode = demo_api_decoders, srv_wire = demo_wire,
      srv_http = demo_http, srv_getenv = (\<lambda>name. if name = ''TASKD_SKIP_VALIDATION'' then ''true'' else []),
      srv_files = (\<lambda>_. False)\<rparr>"

text \<open>The owner has the password \<open>pw\<close> and one session, which lasts until the instant 1000.\<close>

definition demo_api :: "nat api" where
  "demo_api =
     \<lparr>api_world = demo_world\<lparr>w_server := demo_server\<lparr>tables := demo_db\<lparr>
        users := [demo_user\<lparr>usr_password_hash := ''hpw''\<rparr>],
        sessions := [\<lparr>ses_id = ''tok'', ses_user_id = OwnerUserID, ses_expires_at = 1000, ses_created_at = 0\<rparr>]\<rparr>\<rparr>\<rparr>,
      api_rng = replicate 40 CHR ''r''\<rparr>"

definition demo_request :: "string \<Rightarrow> string \<Rightarrow> string option \<Rightarrow> string \<Rightarrow> api_request" where
  "demo_request method path cookie body =
     \<lparr>rq_method = method, rq_escaped = path, rq_cookie = cookie, rq_body = Inr body\<rparr>"

lemma demo_installed: "installed demo_srv"
  by (auto simp: installed_def demo_srv_def)

lemma demo_connection: "connection_errors (api_server demo_api)"
  by (simp add: connection_errors_def api_server_def demo_api_def demo_server_def)

lemma pair_fst_snd: "p = (fst p, snd p)"
  by simp

theorem refused_requests_change_nothing_witness:
  "reply_status (fst (serve demo_srv (demo_request ''POST'' ''/api/login'' None ''guess'') demo_api)) = 401 \<and>
   api_tables (snd (serve demo_srv (demo_request ''POST'' ''/api/login'' None ''guess'') demo_api)) = api_tables demo_api"
proof -
  let ?p = "serve demo_srv (demo_request ''POST'' ''/api/login'' None ''guess'') demo_api"
  have "reply_status (fst ?p) = 401" by code_simp
  then show ?thesis
    using refused_requests_change_nothing [OF demo_installed demo_connection pair_fst_snd, of "demo_request ''POST'' ''/api/login'' None ''guess''"]
    by simp
qed

theorem api_stores_only_valid_agents_witness:
  "reply_status (fst (serve demo_srv (demo_request ''POST'' ''/api/agents'' (Some ''tok'') ''Weekly'') demo_api)) = 201 \<and>
   agents_valid (api_tables (snd (serve demo_srv (demo_request ''POST'' ''/api/agents'' (Some ''tok'') ''Weekly'') demo_api)))"
proof -
  let ?p = "serve demo_srv (demo_request ''POST'' ''/api/agents'' (Some ''tok'') ''Weekly'') demo_api"
  have "reply_status (fst ?p) = 201" by code_simp
  moreover have "agents_valid (api_tables demo_api)"
    by (simp add: agents_valid_def agent_ok_def scanAgent_def tool_list_def api_tables_def api_server_def demo_api_def
        demo_db_def demo_agent_def ToolCatalog_def CeilingMaxSteps_def CeilingMaxTokens_def CeilingMaxDurationSeconds_def)
  ultimately show ?thesis using api_stores_only_valid_agents [OF demo_installed _ pair_fst_snd] by blast
qed

theorem closed_without_session_witness:
  "reply_body (fst (serve demo_srv (demo_request ''GET'' ''/%61pi/agents'' (Some ''stale'') []) demo_api)) = ErrorBody ''not signed in'' \<and>
   api_tables (snd (serve demo_srv (demo_request ''GET'' ''/%61pi/agents'' (Some ''stale'') []) demo_api)) = api_tables demo_api"
proof -
  let ?r = "demo_request ''GET'' ''/%61pi/agents'' (Some ''stale'') []"
  have body: "reply_body (fst (serve demo_srv ?r demo_api)) = ErrorBody ''not signed in''" by code_simp
  have "\<forall>x \<in> set (sessions (api_tables demo_api)). rq_cookie ?r = Some (ses_id x) \<longrightarrow>
      ses_expires_at x \<le> w_clock (api_world demo_api) (w_ticks (api_world demo_api))" by code_simp
  from closed_without_session [OF pair_fst_snd this, of demo_srv] have
    "api_tables (snd (serve demo_srv ?r demo_api)) = api_tables demo_api \<or> right_password demo_srv ?r (api_tables demo_api)"
    by blast
  moreover have "\<not> right_password demo_srv ?r (api_tables demo_api)"
    by (simp add: right_password_def decodeBody_def demo_request_def demo_srv_def demo_api_decoders_def demo_bcrypt_def
        demo_api_def api_tables_def api_server_def)
  ultimately show ?thesis using body by blast
qed

theorem login_session_lifecycle_witness:
  "\<exists>c st'. fst (UserForSession (cookie_Value c) 5 (api_server st')) = Inr OwnerUserID \<and>
     fst (UserForSession (cookie_Value c) (2592000 * Second) (api_server st')) = Inl ErrNotFound \<and>
     handleLogin demo_srv (demo_request ''POST'' ''/api/login'' None ''pw'') demo_api =
       ((writeJSON StatusOK (SignedIn True))\<lparr>reply_cookie := Some c\<rparr>, st')"
proof -
  let ?p = "handleLogin demo_srv (demo_request ''POST'' ''/api/login'' None ''pw'') demo_api"
  have r: "reply_status (fst ?p) = StatusOK" "reply_body (fst ?p) = SignedIn True" "reply_cookie (fst ?p) \<noteq> None"
    by code_simp+
  then obtain c where c: "reply_cookie (fst ?p) = Some c" by auto
  have "fst ?p = (writeJSON StatusOK (SignedIn True))\<lparr>reply_cookie := Some c\<rparr>"
    using r c by (cases "fst ?p") (simp add: writeJSON_def)
  moreover have "outcomes (api_server demo_api) = []" by (simp add: demo_api_def api_server_def demo_server_def)
  note life = login_session_lifecycle [OF pair_fst_snd c this, unfolded Let_def]
  have "w_clock (api_world demo_api) (w_ticks (api_world demo_api)) = 0" by (simp add: demo_api_def demo_world_def)
  with life have "fst (UserForSession (cookie_Value c) 5 (api_server (snd ?p))) = Inr OwnerUserID"
      "fst (UserForSession (cookie_Value c) (2592000 * Second) (api_server (snd ?p))) = Inl ErrNotFound"
    by (simp_all add: Second_def)
  ultimately show ?thesis by (metis prod.collapse)
qed

lemma demo_spec: "\<exists>spec. Parse demo_env ''0 0 * * *'' ''UTC'' = Inr spec"
proof -
  have "\<not> is_err (Parse demo_env ''0 0 * * *'' ''UTC'')" by code_simp
  then show ?thesis by (cases "Parse demo_env ''0 0 * * *'' ''UTC''") auto
qed

theorem preview_shows_what_saving_stores_witness:
  "\<exists>ts st1 row. handlePreviewSchedule demo_srv (demo_request ''POST'' ''/api/schedules/preview'' None []) demo_api
      = (writeJSON StatusOK (FireTimesBody ts), st1) \<and> sorted_wrt (<) (0 # ts) \<and>
     filter (\<lambda>x. sch_agent_id x = ''a1'') (schedules (api_tables (snd
       (handleSetSchedule demo_srv ''a1'' (demo_request ''PUT'' ''/api/agents/a1/schedule'' None []) demo_api)))) = [row] \<and>
     sch_next_fire_at row = Some (hd ts)"
proof -
  let ?rq = "demo_request ''PUT'' ''/api/agents/a1/schedule'' None []"
  let ?p = "handleSetSchedule demo_srv ''a1'' ?rq demo_api"
  let ?req = "blank_Schedule\<lparr>Schedule_CronExpression := ''0 0 * * *'', Schedule_Timezone := ''UTC''\<rparr>"
  obtain spec where spec: "Parse (srv_time demo_srv) ''0 0 * * *'' ''UTC'' = Inr spec"
    using demo_spec by (auto simp: demo_srv_def)
  have later: "spec_later spec" using demo_Parse_later spec by (simp add: demo_srv_def)
  have body: "json_preview (srv_decode demo_srv) [] = Inr (''0 0 * * *'', ''UTC'')"
    "rq_body (demo_request ''POST'' ''/api/schedules/preview'' None []) = Inr []"
    "decodeBody ?rq (\<lambda>body. json_Schedule (srv_decode demo_srv) body blank_Schedule) = Inr ?req"
    "Schedule_CronExpression ?req = ''0 0 * * *''" "Schedule_Timezone ?req = ''UTC''"
    by (simp_all add: demo_srv_def demo_api_decoders_def demo_request_def decodeBody_def)
  have ok: "reply_status (fst ?p) = StatusOK" and u: "uuid_in (srv_pg demo_srv) ''a1'' = Some ''a1''"
    "distinct (map sch_agent_id (schedules (api_tables demo_api)))"
    by code_simp+
  from preview_shows_what_saving_stores [OF spec later body pair_fst_snd u] ok show ?thesis
    by (auto simp: clock_Now_def Now_def demo_api_def demo_world_def)
qed

theorem saved_schedule_starts_later_witness:
  "\<exists>row t. filter (\<lambda>x. sch_agent_id x = ''a1'') (schedules (api_tables (snd
       (handleSetSchedule demo_srv ''a1'' (demo_request ''PUT'' ''/api/agents/a1/schedule'' None []) demo_api)))) = [row] \<and>
     sch_next_fire_at row = Some t \<and> 0 < t"
proof -
  let ?p = "handleSetSchedule demo_srv ''a1'' (demo_request ''PUT'' ''/api/agents/a1/schedule'' None []) demo_api"
  have "reply_status (fst ?p) = StatusOK" "uuid_in (srv_pg demo_srv) ''a1'' = Some ''a1''"
    "distinct (map sch_agent_id (schedules (api_tables demo_api)))"
    by code_simp+
  moreover have "\<forall>e tz spec. Parse (srv_time demo_srv) e tz = Inr spec \<longrightarrow> spec_later spec"
    using demo_Parse_later by (simp add: demo_srv_def)
  ultimately have "\<exists>row t. filter (\<lambda>x. sch_agent_id x = ''a1'') (schedules (api_tables (snd ?p))) = [row] \<and>
      sch_next_fire_at row = Some t \<and> fst (clock_Now demo_api) < t"
    using saved_schedule_starts_later [OF pair_fst_snd] by blast
  then show ?thesis by (simp add: clock_Now_def Now_def demo_api_def demo_world_def)
qed

end
