(* ===== verification/Migrations.thy ===== *)
theory Migrations
  imports Database "HOL-Library.List_Lexorder" "HOL-Library.Char_ord"
begin

text \<open>
  \<open>db/migrate.go\<close>: bringing the schema up to date on every start. What the text of a migration does
  to the schema is the database's; here it is a parameter, a partial function on schemas.
\<close>

section \<open>Definitions\<close>

text \<open>
  The state a migration works on: the rows of \<open>schema_migrations\<close> (None before the table exists),
  the schema, and how the calls to come will end.
\<close>

record 'd migration_state =
  mg_applied :: "string list option"
  mg_schema :: 'd
  mg_outcomes :: "outcome list"

type_synonym 'd run_sql = "string \<Rightarrow> 'd \<Rightarrow> 'd res"

definition mg_next :: "'d migration_state \<Rightarrow> outcome \<times> 'd migration_state" where
  "mg_next m =
     (case mg_outcomes m of [] \<Rightarrow> (Served, m) | out # outs \<Rightarrow> (out, m\<lparr>mg_outcomes := outs\<rparr>))"

text \<open>A call outside a transaction, as the pool's are.\<close>

definition conn_call :: "('d migration_state \<Rightarrow> 'a res \<times> 'd migration_state) \<Rightarrow> 'd migration_state \<Rightarrow> 'a res \<times> 'd migration_state" where
  "conn_call q m =
     (case mg_next m of
        (Served, m1) \<Rightarrow> q m1
      | (Refused e, m1) \<Rightarrow> (Inl e, m1)
      | (Unacked e, m1) \<Rightarrow> (Inl e, snd (q m1)))"

definition create_version_table :: "'d migration_state \<Rightarrow> unit res \<times> 'd migration_state" where
  "create_version_table m =
     (Inr (), m\<lparr>mg_applied := (case mg_applied m of None \<Rightarrow> Some [] | Some vs \<Rightarrow> Some vs)\<rparr>)"

definition select_versions :: "'d migration_state \<Rightarrow> string list res \<times> 'd migration_state" where
  "select_versions m =
     (case mg_applied m of
        None \<Rightarrow> (Inl (PgError ''42P01'' ''relation does not exist''), m)
      | Some vs \<Rightarrow> (Inr vs, m))"

text \<open>
  One migration in its transaction: the statement fails, the connection fails before the commit,
  or the commit is carried out without the client hearing of it. Until then nothing is kept.
\<close>

definition apply_migration ::
    "'d run_sql \<Rightarrow> string \<Rightarrow> string \<Rightarrow> 'd migration_state \<Rightarrow> unit res \<times> 'd migration_state" where
  "apply_migration run name body m =
     (case mg_next m of
        (Refused e, m1) \<Rightarrow> (Inl e, m1)
      | (Unacked e, m1) \<Rightarrow> (Inl e, m1)
      | (Served, m1) \<Rightarrow>
          (case mg_next m1 of
             (Refused e, m2) \<Rightarrow> (Inl (Errorf (''migration '' @ name @ '' failed: '' @ Error e)), m2)
           | (Unacked e, m2) \<Rightarrow> (Inl (Errorf (''migration '' @ name @ '' failed: '' @ Error e)), m2)
           | (Served, m2) \<Rightarrow>
               (case run body (mg_schema m2) of
                  Inl e \<Rightarrow> (Inl (Errorf (''migration '' @ name @ '' failed: '' @ Error e)), m2)
                | Inr schema \<Rightarrow>
                    (case mg_next m2 of
                       (Refused e, m3) \<Rightarrow> (Inl e, m3)
                     | (Unacked e, m3) \<Rightarrow> (Inl e, m3)
                     | (Served, m3) \<Rightarrow>
                         (let done = m3\<lparr>mg_schema := schema, mg_applied := map_option (\<lambda>vs. vs @ [name]) (mg_applied m3)\<rparr> in
                          case mg_next m3 of
                            (Served, m4) \<Rightarrow> (Inr (), done\<lparr>mg_outcomes := mg_outcomes m4\<rparr>)
                          | (Refused e, m4) \<Rightarrow> (Inl e, m4)
                          | (Unacked e, m4) \<Rightarrow> (Inl e, done\<lparr>mg_outcomes := mg_outcomes m4\<rparr>))))))"

fun migrate_loop ::
    "'d run_sql \<Rightarrow> string list \<Rightarrow> (string \<times> string) list \<Rightarrow> 'd migration_state \<Rightarrow> unit res \<times> 'd migration_state" where
  "migrate_loop run applied [] m = (Inr (), m)"
| "migrate_loop run applied ((name, body) # files) m =
     (if name \<in> set applied then migrate_loop run applied files m
      else (case apply_migration run name body m of
        (Inl e, m1) \<Rightarrow> (Inl e, m1)
      | (Inr _, m1) \<Rightarrow> migrate_loop run applied files m1))"

text \<open>The embedded files whose name ends in \<open>.sql\<close>, in the order of their names.\<close>

definition migration_files :: "(string \<times> string) list \<Rightarrow> (string \<times> string) list" where
  "migration_files entries = sort_key fst (filter (\<lambda>(name, body). suffix ''.sql'' name) entries)"

text \<open>
  \<open>Acquire\<close>, the advisory lock, the version table, the versions already there, then the loop; the
  lock is released on the way out, however that call ends.
\<close>

definition migrate_locked ::
    "'d run_sql \<Rightarrow> (string \<times> string) list \<Rightarrow> 'd migration_state \<Rightarrow> unit res \<times> 'd migration_state" where
  "migrate_locked run entries m =
     (case conn_call create_version_table m of
        (Inl e, m1) \<Rightarrow> (Inl e, m1)
      | (Inr _, m1) \<Rightarrow>
          (case conn_call select_versions m1 of
             (Inl e, m2) \<Rightarrow> (Inl e, m2)
           | (Inr applied, m2) \<Rightarrow> migrate_loop run applied (migration_files entries) m2))"

definition Migrate ::
    "'d run_sql \<Rightarrow> (string \<times> string) list \<Rightarrow> 'd migration_state \<Rightarrow> unit res \<times> 'd migration_state" where
  "Migrate run entries m =
     (case conn_call (\<lambda>m. (Inr (), m)) m of
        (Inl e, m1) \<Rightarrow> (Inl e, m1)
      | (Inr _, m1) \<Rightarrow>
          (case conn_call (\<lambda>m. (Inr (), m)) m1 of
             (Inl e, m2) \<Rightarrow> (Inl e, m2)
           | (Inr _, m2) \<Rightarrow>
               (case migrate_locked run entries m2 of (r, m3) \<Rightarrow> (r, snd (mg_next m3)))))"

section \<open>Lemmas\<close>

text \<open>Running texts one after the other.\<close>

fun run_all :: "'d run_sql \<Rightarrow> string list \<Rightarrow> 'd \<Rightarrow> 'd res" where
  "run_all run [] d = Inr d"
| "run_all run (body # bodies) d = (case run body d of Inl e \<Rightarrow> Inl e | Inr d1 \<Rightarrow> run_all run bodies d1)"

lemma run_all_append:
  "run_all run (xs @ ys) d = (case run_all run xs d of Inl e \<Rightarrow> Inl e | Inr d1 \<Rightarrow> run_all run ys d1)"
  by (induction xs arbitrary: d) (auto split: sum.splits)

text \<open>Exactly the first \<open>k\<close> files are recorded, and the schema is what they make of \<open>d0\<close>.\<close>

definition up_to :: "'d run_sql \<Rightarrow> (string \<times> string) list \<Rightarrow> 'd \<Rightarrow> nat \<Rightarrow> 'd migration_state \<Rightarrow> bool" where
  "up_to run files d0 k m \<longleftrightarrow>
     k \<le> length files \<and> (mg_applied m = Some (map fst (take k files)) \<or> mg_applied m = None \<and> k = 0) \<and>
     run_all run (map snd (take k files)) d0 = Inr (mg_schema m)"

lemma mg_next_state [simp]: "mg_applied (snd (mg_next m)) = mg_applied m" "mg_schema (snd (mg_next m)) = mg_schema m"
  by (auto simp: mg_next_def split: list.splits)

lemma mg_next_D: "mg_next m = (out, m1) \<Longrightarrow> mg_applied m1 = mg_applied m \<and> mg_schema m1 = mg_schema m \<and> (mg_outcomes m = [] \<longrightarrow> out = Served \<and> mg_outcomes m1 = [])"
  by (auto simp: mg_next_def split: list.splits)

lemma up_to_cong: "mg_applied m' = mg_applied m \<Longrightarrow> mg_schema m' = mg_schema m \<Longrightarrow> up_to run files d0 k m' = up_to run files d0 k m"
  by (simp add: up_to_def)

lemma apply_migration_up_to:
  assumes "up_to run files d0 k m" and "k < length files" and "mg_applied m \<noteq> None"
    and "apply_migration run (fst (files ! k)) (snd (files ! k)) m = (r, m')"
  shows "up_to run files d0 k m' \<and> is_err r \<or> up_to run files d0 (Suc k) m'" and "mg_applied m' \<noteq> None"
    and "mg_outcomes m = [] \<Longrightarrow> run_all run (map snd files) d0 = Inr d \<Longrightarrow> r = Inr () \<and> mg_outcomes m' = []"
proof -
  have step: "take (Suc k) files = take k files @ [files ! k]" using assms(2) by (simp add: take_Suc_conv_app_nth)
  have vs: "mg_applied m = Some (map fst (take k files))" using assms(1,3) by (auto simp: up_to_def)
  have sch: "run_all run (map snd (take k files)) d0 = Inr (mg_schema m)" using assms(1) by (simp add: up_to_def)
  have cases: "(mg_applied m' = mg_applied m \<and> mg_schema m' = mg_schema m \<and> is_err r) \<or>
      (mg_applied m' = Some (map fst (take (Suc k) files)) \<and> run (snd (files ! k)) (mg_schema m) = Inr (mg_schema m'))"
    using assms(4) vs step
    by (auto simp: apply_migration_def Let_def dest!: mg_next_D split: prod.splits outcome.splits sum.splits)
  then show "up_to run files d0 k m' \<and> is_err r \<or> up_to run files d0 (Suc k) m'" "mg_applied m' \<noteq> None"
    using assms(1,2) vs sch by (auto simp: up_to_def step run_all_append)
  assume out: "mg_outcomes m = []" and all: "run_all run (map snd files) d0 = Inr d"
  have "files = take k files @ files ! k # drop (Suc k) files" using assms(2) by (rule id_take_nth_drop)
  then have "run_all run (map snd files) d0 = run_all run (map snd (files ! k # drop (Suc k) files)) (mg_schema m)"
    using sch by (metis (no_types, lifting) map_append run_all_append sum.case(2))
  then obtain d1 where "run (snd (files ! k)) (mg_schema m) = Inr d1"
    using all by (auto split: sum.splits)
  then show "r = Inr () \<and> mg_outcomes m' = []"
    using assms(4) out by (auto simp: apply_migration_def mg_next_def Let_def)
qed

lemma migrate_loop_up_to:
  assumes "up_to run files d0 k m" and "mg_applied m \<noteq> None" and "distinct (map fst files)"
    and "applied = map fst (take n files)" and "n \<le> k"
    and "migrate_loop run applied (drop k files) m = (r, m')"
  shows "\<exists>k'. k \<le> k' \<and> up_to run files d0 k' m' \<and> (r = Inr () \<longrightarrow> k' = length files) \<and>
    (mg_outcomes m = [] \<longrightarrow> run_all run (map snd files) d0 \<in> range Inr \<longrightarrow> r = Inr ())"
  using assms
proof (induction "length files - k" arbitrary: k m)
  case 0
  then have "k = length files" by (simp add: up_to_def)
  with 0 show ?case by auto
next
  case (Suc x)
  then have k: "k < length files" by simp
  have drop: "drop k files = files ! k # drop (Suc k) files" using k by (simp add: Cons_nth_drop_Suc)
  have new: "fst (files ! k) \<notin> set applied"
  proof
    assume "fst (files ! k) \<in> set applied"
    then obtain j where "j < n" "j < length files" "fst (files ! j) = fst (files ! k)"
      using Suc.prems(4) by (auto simp: in_set_conv_nth)
    with Suc.prems(3,5) k show False by (auto simp: distinct_conv_nth)
  qed
  obtain a b where ab: "files ! k = (a, b)" by (cases "files ! k")
  obtain r1 m1 where step: "apply_migration run a b m = (r1, m1)" by (cases "apply_migration run a b m")
  note eff = apply_migration_up_to [OF Suc.prems(1) k Suc.prems(2), unfolded ab fst_conv snd_conv, OF step]
  show ?case
  proof (cases "is_err r1")
    case True
    then have "r = r1 \<and> m' = m1" "r1 \<noteq> Inr ()"
      using Suc.prems(6) new step unfolding drop ab by (auto split: sum.splits)
    moreover have "mg_outcomes m \<noteq> [] \<or> run_all run (map snd files) d0 \<notin> range Inr"
      using eff(3) True by (auto dest: eff(3))
    ultimately show ?thesis using eff(1) by (meson le_SucI le_refl)
  next
    case False
    then obtain u where "r1 = Inr u" by (cases r1) auto
    then have loop: "migrate_loop run applied (drop (Suc k) files) m1 = (r, m')"
      using Suc.prems(6) new step unfolding drop ab by simp
    have up: "up_to run files d0 (Suc k) m1" using eff(1) False by simp
    have "x = length files - Suc k" using Suc(2) by simp
    from Suc.hyps(1) [OF this up eff(2) Suc.prems(3,4) _ loop] Suc.prems(5) eff(3) show ?thesis
      by (metis Suc_leD le_SucI rangeE)
  qed
qed

lemma migrate_loop_skip:
  "\<lbrakk>set (map fst done) \<subseteq> set applied\<rbrakk> \<Longrightarrow> migrate_loop run applied (done @ files) m = migrate_loop run applied files m"
  by (induction "done") auto

lemma distinct_migration_files: "distinct (map fst entries) \<Longrightarrow> distinct (map fst (migration_files entries))"
  by (auto simp: migration_files_def distinct_map inj_on_def)

lemma migrate_locked_up_to:
  assumes "distinct (map fst entries)" and "up_to run (migration_files entries) d0 k m"
    and "migrate_locked run entries m = (r, m')"
  shows "\<exists>k'. k \<le> k' \<and> up_to run (migration_files entries) d0 k' m' \<and> (r = Inr () \<longrightarrow> k' = length (migration_files entries)) \<and>
    (mg_outcomes m = [] \<longrightarrow> run_all run (map snd (migration_files entries)) d0 \<in> range Inr \<longrightarrow> r = Inr ())"
proof -
  let ?files = "migration_files entries"
  obtain r1 m1 where create: "conn_call create_version_table m = (r1, m1)" by (cases "conn_call create_version_table m")
  have up1: "up_to run ?files d0 k m1" and out1: "mg_outcomes m = [] \<Longrightarrow> \<not> is_err r1 \<and> mg_outcomes m1 = []"
      and tab: "\<not> is_err r1 \<Longrightarrow> mg_applied m1 = Some (map fst (take k ?files))"
    using create assms(2)
    by (auto simp: conn_call_def create_version_table_def up_to_def dest!: mg_next_D split: prod.splits outcome.splits option.splits)
  obtain r2 m2 where sel: "conn_call select_versions m1 = (r2, m2)" by (cases "conn_call select_versions m1")
  have up2: "up_to run ?files d0 k m2" and out2: "mg_outcomes m1 = [] \<Longrightarrow> mg_applied m1 \<noteq> None \<Longrightarrow> \<not> is_err r2 \<and> mg_outcomes m2 = []"
      and vs: "\<And>vs. r2 = Inr vs \<Longrightarrow> mg_applied m1 = Some vs" and app2: "mg_applied m2 = mg_applied m1"
    using sel up1
    by (auto simp: conn_call_def select_versions_def up_to_def dest!: mg_next_D split: prod.splits outcome.splits option.splits)
  show ?thesis
  proof (cases "is_err r1 \<or> is_err r2")
    case True
    then have "is_err r" "m' = m1 \<or> m' = m2" "mg_outcomes m \<noteq> []"
      using assms(3) create sel out1 out2 tab by (auto simp: migrate_locked_def split: sum.splits)
    then show ?thesis using up1 up2 by (cases r) auto
  next
    case False
    then obtain vs where r2: "r2 = Inr vs" and v: "vs = map fst (take k ?files)"
      using vs tab by (cases r2) auto
    have loop: "migrate_loop run vs ?files m2 = (r, m')"
      using assms(3) create sel False r2 by (cases r1) (auto simp: migrate_locked_def)
    then have "migrate_loop run vs (drop k ?files) m2 = (r, m')"
      using migrate_loop_skip [of "take k ?files" vs run "drop k ?files" m2] v by simp
    moreover have "mg_applied m2 \<noteq> None" using app2 vs [OF r2] by simp
    ultimately obtain k' where "k \<le> k'" "up_to run ?files d0 k' m'" "r = Inr () \<longrightarrow> k' = length ?files"
        "mg_outcomes m2 = [] \<longrightarrow> run_all run (map snd ?files) d0 \<in> range Inr \<longrightarrow> r = Inr ()"
      using migrate_loop_up_to [OF up2 _ distinct_migration_files [OF assms(1)] v le_refl] by blast
    then show ?thesis using out1 out2 tab False by auto
  qed
qed

lemma Migrate_up_to:
  assumes "distinct (map fst entries)" and "up_to run (migration_files entries) d0 k m" and "Migrate run entries m = (r, m')"
  shows "\<exists>k'. k \<le> k' \<and> up_to run (migration_files entries) d0 k' m' \<and>
    (r = Inr () \<longrightarrow> k' = length (migration_files entries)) \<and>
    (mg_outcomes m = [] \<longrightarrow> run_all run (map snd (migration_files entries)) d0 \<in> range Inr \<longrightarrow> r = Inr ())"
proof -
  let ?up = "up_to run (migration_files entries) d0"
  obtain r1 m1 where acquire: "conn_call (\<lambda>m. (Inr (), m)) m = (r1, m1)" by (cases "conn_call (\<lambda>m. (Inr (), m)) m")
  obtain r2 m2 where lock: "conn_call (\<lambda>m. (Inr (), m)) m1 = (r2, m2)" by (cases "conn_call (\<lambda>m. (Inr (), m)) m1")
  have call: "mg_applied b = mg_applied a \<and> mg_schema b = mg_schema a \<and> (mg_outcomes a = [] \<longrightarrow> x = Inr () \<and> mg_outcomes b = [])"
    if "conn_call (\<lambda>m. (Inr (), m)) a = (x, b)" for a b :: "'a migration_state" and x
    using that by (auto simp: conn_call_def dest!: mg_next_D split: prod.splits outcome.splits)
  have up: "?up k m1" "?up k m2" using call [OF acquire] call [OF lock] assms(2) by (simp_all add: up_to_def)
  show ?thesis
  proof (cases "is_err r1 \<or> is_err r2")
    case True
    then have "is_err r" "m' = m1 \<or> m' = m2" "mg_outcomes m \<noteq> []"
      using assms(3) acquire lock call [OF acquire] call [OF lock]
      by (auto simp: Migrate_def split: sum.splits)
    then show ?thesis using up by (cases r) auto
  next
    case False
    obtain r3 m3 where locked: "migrate_locked run entries m2 = (r3, m3)" by (cases "migrate_locked run entries m2")
    have "r = r3" "m' = snd (mg_next m3)"
      using assms(3) acquire lock locked False by (cases r1; cases r2; auto simp: Migrate_def)+
    with migrate_locked_up_to [OF assms(1) up(2) locked] call [OF acquire] call [OF lock] show ?thesis
      by (auto simp: up_to_def)
  qed
qed

section \<open>Properties\<close>

text \<open>
  C13: migrations. From a database to which the first \<open>k\<close> migrations have been applied (in the order
  of their names), a start leaves one to which the first \<open>k'\<close> have been applied, with \<open>k'\<close> no
  smaller, wherever it is interrupted: a migration is recorded if and only if its effect is in
  the schema, and none is applied twice or out of order. A start that reports success has
  applied them all, so that starting again changes nothing; and when the calls are answered
  and no migration fails, it does succeed.
\<close>

theorem migrations_apply_in_order_once:
  assumes "distinct (map fst entries)" and "up_to run (migration_files entries) d0 k m" and "Migrate run entries m = (r, m')"
  shows "\<exists>k'. k \<le> k' \<and> up_to run (migration_files entries) d0 k' m' \<and>
    (r = Inr () \<longrightarrow> k' = length (migration_files entries)) \<and>
    (mg_outcomes m = [] \<longrightarrow> run_all run (map snd (migration_files entries)) d0 \<in> range Inr \<longrightarrow> r = Inr ())"
  by (rule Migrate_up_to [OF assms])

definition demo_migrations :: "(string \<times> string) list" where
  "demo_migrations = [(''0002_b.sql'', ''b''), (''0001_a.sql'', ''a''), (''notes.txt'', ''n'')]"

theorem migrations_apply_in_order_once_witness:
  "\<exists>k' m'. Migrate (\<lambda>body d. Inr (d @ body)) demo_migrations
      \<lparr>mg_applied = None, mg_schema = [], mg_outcomes = [Served, Served, Served, Served, Served, Served, Served, Unacked (Errorf ''EOF'')]\<rparr>
      = (Inl (Errorf ''EOF''), m') \<and> mg_schema m' = ''a'' \<and> mg_applied m' = Some [''0001_a.sql''] \<and>
    up_to (\<lambda>body d. Inr (d @ body)) (migration_files demo_migrations) [] k' m'"
proof -
  let ?m = "\<lparr>mg_applied = None, mg_schema = [], mg_outcomes = [Served, Served, Served, Served, Served, Served, Served, Unacked (Errorf ''EOF'')]\<rparr>"
  let ?run = "\<lambda>body d. Inr (d @ body) :: string res"
  have eff: "Migrate ?run demo_migrations ?m = (Inl (Errorf ''EOF''), \<lparr>mg_applied = Some [''0001_a.sql''], mg_schema = ''a'', mg_outcomes = []\<rparr>)"
    by code_simp
  have "distinct (map fst demo_migrations)" "up_to ?run (migration_files demo_migrations) [] 0 ?m"
    by (simp_all add: demo_migrations_def up_to_def)
  from migrations_apply_in_order_once [OF this eff] eff show ?thesis by auto
qed

end
