(* ===== verification/Services.thy ===== *)
theory Services
  imports Api_Properties Materializer Dispatch Notifier Executor Migrations
begin

text \<open>
  How the three services are put together: connecting to the database (\<open>pkg/common\<close>), what the
  API server checks before it serves (\<open>scheduler.Start\<close>), what a worker is built from
  (\<open>cmd/worker\<close>), the probes (\<open>pkg/health\<close>), the worker's heartbeat and the coordinator's
  periodic work.
\<close>

section \<open>The database (common.go)\<close>

definition DefaultHeartbeat :: duration where "DefaultHeartbeat = 5 * Second"

text \<open>\<open>log.Fatalf\<close> ends the process: the error.\<close>

definition GetDBConnectionString :: "(string \<Rightarrow> string) \<Rightarrow> string res" where
  "GetDBConnectionString Getenv =
     (let missingEnvVars = filter (\<lambda>v. Getenv v = []) [''POSTGRES_USER'', ''POSTGRES_PASSWORD'', ''POSTGRES_DB''];
          dbHost = (if Getenv ''POSTGRES_HOST'' = [] then ''localhost'' else Getenv ''POSTGRES_HOST'')
      in if missingEnvVars \<noteq> [] then
           Inl (Errorf (''The following required environment variables are not set: '' @ Join missingEnvVars '', ''))
         else Inr (''postgres://'' @ Getenv ''POSTGRES_USER'' @ '':'' @ Getenv ''POSTGRES_PASSWORD'' @ ''@'' @ dbHost
           @ '':5432/'' @ Getenv ''POSTGRES_DB''))"

text \<open>\<open>connect k\<close> is how the attempt \<open>k\<close> to connect ends; the error so far is none at first.\<close>

function connect_loop :: "(nat \<Rightarrow> 'p res) \<Rightarrow> nat \<Rightarrow> 'p res \<Rightarrow> 'p res" where
  "connect_loop connect retryCount r =
     (if retryCount < 5 then
        (case connect retryCount of
           Inr p \<Rightarrow> Inr p
         | Inl e \<Rightarrow> connect_loop connect (retryCount + 1) (Inl e))
      else r)"
  by pat_completeness auto
termination by (relation "measure (\<lambda>(connect, retryCount, r). 5 - retryCount)") auto

declare connect_loop.simps [simp del]

definition ConnectToDatabase :: "(nat \<Rightarrow> 'p res) \<Rightarrow> 'p res" where
  "ConnectToDatabase connect = connect_loop connect 0 (Inl (Errorf []))"

lemma connect_loop_iff:
  "retryCount \<le> 5 \<Longrightarrow> is_err r \<Longrightarrow>
     connect_loop connect retryCount r = Inr p \<longleftrightarrow>
       (\<exists>k. retryCount \<le> k \<and> k < 5 \<and> connect k = Inr p \<and> (\<forall>j. retryCount \<le> j \<and> j < k \<longrightarrow> is_err (connect j)))"
proof (induction connect retryCount r rule: connect_loop.induct)
  case (1 connect i r)
  show ?case
  proof (cases "i < 5")
    case True
    show ?thesis
    proof (cases "connect i")
      case (Inl e)
      have "(\<exists>k. i \<le> k \<and> k < 5 \<and> connect k = Inr p \<and> (\<forall>j. i \<le> j \<and> j < k \<longrightarrow> is_err (connect j))) \<longleftrightarrow>
          (\<exists>k. i + 1 \<le> k \<and> k < 5 \<and> connect k = Inr p \<and> (\<forall>j. i + 1 \<le> j \<and> j < k \<longrightarrow> is_err (connect j)))"
        using Inl by (metis Inl_Inr_False Suc_eq_plus1 Suc_leD is_err.simps(1) le_neq_implies_less less_eq_Suc_le)
      then show ?thesis
        using 1(1) [OF True Inl] True Inl by (simp add: connect_loop.simps [of connect i])
    next
      case (Inr q)
      then have "k = i" if "i \<le> k" "\<forall>j. i \<le> j \<and> j < k \<longrightarrow> is_err (connect j)" for k
        using that by (metis is_err.simps(2) le_neq_implies_less order_refl)
      then show ?thesis
        using True Inr by (auto simp: connect_loop.simps [of connect i]) (metis Inr_inject)
    qed
  next
    case False
    then show ?thesis using 1(3) by (cases r) (auto simp: connect_loop.simps [of connect i])
  qed
qed

section \<open>Probes (health.go)\<close>

text \<open>A check is nil, or gives an error or none.\<close>

definition health_handle :: "go_error option option \<Rightarrow> int \<times> (string \<times> string) list" where
  "health_handle check =
     (case check of
        Some (Some e) \<Rightarrow> (StatusServiceUnavailable, [(''reason'', Error e), (''status'', ''unavailable'')])
      | _ \<Rightarrow> (StatusOK, [(''status'', ''ok'')]))"

section \<open>Starting the API server (scheduler.go)\<close>

text \<open>
  What \<open>Start\<close> takes from outside: the environment, how connecting ends, the embedded migrations and
  what running one does to the schema, and the parameters of the server it builds.
\<close>

record ('h, 'd) installation =
  in_getenv :: "string \<Rightarrow> string"
  in_connect :: "nat \<Rightarrow> unit res"
  in_run_sql :: "'d run_sql"
  in_migrations :: "(string \<times> string) list"
  in_pg :: postgres
  in_aead :: gcm
  in_bcrypt :: bcrypt
  in_time :: time_env
  in_decode :: api_decoders
  in_tools :: decoders
  in_net :: "'h net"
  in_wire :: wire
  in_http :: "'h http"
  in_files :: "string \<Rightarrow> bool"

definition build_server :: "('h, 'd) installation \<Rightarrow> string \<Rightarrow> 'h SchedulerServer" where
  "build_server i key =
     (let sealer = \<lparr>aead = in_aead i, masterKey = key\<rparr>; config = ConfigFromEnv (in_getenv i) in
      \<lparr>srv_pg = in_pg i, srv_sealer = sealer, srv_toolConfig = config,
       srv_registry = BuildRegistry (in_tools i) (in_net i) (Some (in_pg i)) (Some (Some sealer)) config,
       srv_bcrypt = in_bcrypt i, srv_time = in_time i, srv_decode = in_decode i, srv_wire = in_wire i,
       srv_http = in_http i, srv_getenv = in_getenv i, srv_files = in_files i\<rparr>)"

text \<open>The first call for the password, when one is given.\<close>

definition ensure_password :: "('h, 'd) installation \<Rightarrow> string \<Rightarrow> server \<Rightarrow> unit res \<times> string \<times> server" where
  "ensure_password i rng s =
     (if in_getenv i ''TASKD_PASSWORD'' \<noteq> []
      then EnsurePassword (in_bcrypt i) OwnerUserID (in_getenv i ''TASKD_PASSWORD'') rng s
      else (Inr (), rng, s))"

text \<open>\<open>m\<close> is the schema of the database with the record of its migrations, \<open>s\<close> its rows.\<close>

definition scheduler_Start ::
    "('h, 'd) installation \<Rightarrow> string \<Rightarrow> 'd migration_state \<Rightarrow> server
      \<Rightarrow> 'h SchedulerServer res \<times> string \<times> 'd migration_state \<times> server" where
  "scheduler_Start i rng m s =
     (case ConnectToDatabase (in_connect i) of
        Inl e \<Rightarrow> (Inl e, rng, m, s)
      | Inr _ \<Rightarrow>
          (case Migrate (in_run_sql i) (in_migrations i) m of
             (Inl e, m1) \<Rightarrow> (Inl e, rng, m1, s)
           | (Inr _, m1) \<Rightarrow>
               (case NewFromEnv (in_getenv i) of
                  Inl e \<Rightarrow> (Inl e, rng, m1, s)
                | Inr key \<Rightarrow>
                    (case ensure_password i rng s of
                       (Inl e, rng1, s1) \<Rightarrow> (Inl e, rng1, m1, s1)
                     | (Inr _, rng1, s1) \<Rightarrow>
                         (case HasPassword OwnerUserID s1 of
                            (Inl e, s2) \<Rightarrow> (Inl e, rng1, m1, s2)
                          | (Inr hasPassword, s2) \<Rightarrow>
                              if \<not> hasPassword then
                                (Inl (Errorf ''no password is set: start once with TASKD_PASSWORD to set one''), rng1, m1, s2)
                              else (Inr (build_server i key), rng1, m1, s2))))))"

section \<open>Building a worker (cmd/worker/main.go)\<close>

definition worker_main :: "('h, 'd) installation \<Rightarrow> 'h Executor res" where
  "worker_main i =
     (case GetDBConnectionString (in_getenv i) of
        Inl e \<Rightarrow> Inl e
      | Inr _ \<Rightarrow>
          (case ConnectToDatabase (in_connect i) of
             Inl e \<Rightarrow> Inl (Errorf (''Could not connect to the database: '' @ Error e))
           | Inr _ \<Rightarrow>
               (case NewFromEnv (in_getenv i) of
                  Inl e \<Rightarrow> Inl (Errorf (''Cannot start: '' @ Error e))
                | Inr key \<Rightarrow>
                    (let sealer = \<lparr>aead = in_aead i, masterKey = key\<rparr> in
                     Inr \<lparr>ex_pg = in_pg i, ex_secrets = Some sealer,
                          ex_registry = BuildRegistry (in_tools i) (in_net i) (Some (in_pg i)) (Some (Some sealer))
                            (ConfigFromEnv (in_getenv i)),
                          ex_fallbackAPIKey = in_getenv i ''TASKD_MODEL_API_KEY'',
                          ex_wire = in_wire i, ex_http = in_http i\<rparr>))))"

section \<open>The coordinator's periodic work (coordinator.go)\<close>

text \<open>
  One \<open>tick\<close>: each part reads the clock, and what one part fails to do is logged and does not stop
  the next. \<open>locked\<close> and \<open>locked'\<close> are the rows other transactions hold.
\<close>

definition materializeSchedules :: "postgres \<Rightarrow> time_env \<Rightarrow> (string \<Rightarrow> bool) \<Rightarrow> 'h world \<Rightarrow> 'h world" where
  "materializeSchedules pg env locked w =
     (case Now w of (now, w1) \<Rightarrow> snd (on_server (Materializer_RunOnce pg env locked now) w1))"

definition dispatch_part ::
    "'w submit \<Rightarrow> (string \<Rightarrow> bool) \<Rightarrow> 'h world \<Rightarrow> CoordinatorServer \<Rightarrow> 'w \<Rightarrow> 'h world \<times> CoordinatorServer \<times> 'w" where
  "dispatch_part submit locked w c ws =
     (case Now w of (now, w1) \<Rightarrow>
        (case dispatchPendingRuns submit locked now (w_server w1) c ws of
           (s, c1, ws1) \<Rightarrow> (w1\<lparr>w_server := s\<rparr>, c1, ws1)))"

definition reapExpiredRuns :: "'h world \<Rightarrow> 'h world" where
  "reapExpiredRuns w = (case Now w of (now, w1) \<Rightarrow> snd (on_server (Reaper_RunOnce now) w1))"

definition reportFailingAgents :: "'h http \<Rightarrow> string \<Rightarrow> Sealer option \<Rightarrow> 'h world \<Rightarrow> 'h world" where
  "reportFailingAgents do_request baseURL sealer w =
     (case Now w of (now, w1) \<Rightarrow>
        (case Notifier_RunOnce do_request baseURL sealer now (w_server w1) (w_net w1) of
           (_, _, s, h) \<Rightarrow> w1\<lparr>w_server := s, w_net := h\<rparr>))"

definition tick ::
    "postgres \<Rightarrow> time_env \<Rightarrow> 'w submit \<Rightarrow> 'h http \<Rightarrow> string \<Rightarrow> Sealer option \<Rightarrow> (string \<Rightarrow> bool) \<Rightarrow> (string \<Rightarrow> bool)
      \<Rightarrow> 'h world \<Rightarrow> CoordinatorServer \<Rightarrow> 'w \<Rightarrow> 'h world \<times> CoordinatorServer \<times> 'w" where
  "tick pg env submit do_request baseURL sealer locked locked' w c ws =
     (case dispatch_part submit locked' (materializeSchedules pg env locked w) c ws of
        (w1, c1, ws1) \<Rightarrow>
          (reportFailingAgents do_request baseURL sealer (reapExpiredRuns w1), c1, ws1))"

section \<open>The worker's heartbeat (worker.go)\<close>

text \<open>The address a worker announces: what it is told to, with its port, or where it listens.\<close>

definition heartbeat_request :: "(string \<Rightarrow> string) \<Rightarrow> 32 word \<Rightarrow> string \<Rightarrow> string \<Rightarrow> HeartbeatRequest" where
  "heartbeat_request Getenv i serverPort listenerAddr =
     (let workerAddress = Getenv ''WORKER_ADDRESS'' in
      \<lparr>Heartbeat_WorkerId = i,
       Heartbeat_Address = (if workerAddress = [] then listenerAddr else workerAddress @ serverPort)\<rparr>)"

text \<open>
  The goroutine that sends heartbeats, seen with the coordinator it sends them to: it runs or has
  returned. A tick of its timer either reaches the coordinator or fails on the way; between
  ticks the coordinator lives its own life; the worker's context may be cancelled.
\<close>

record heartbeat_state =
  hb_running :: bool
  hb_pool :: CoordinatorServer

datatype heartbeat_event =
    HeartbeatTick range_order "string \<Rightarrow> go_error option" "go_error option"
  | CoordinatorEvent pool_event
  | WorkerCancelled

definition sendHeartbeat ::
    "HeartbeatRequest \<Rightarrow> range_order \<Rightarrow> (string \<Rightarrow> go_error option) \<Rightarrow> go_error option \<Rightarrow> CoordinatorServer
      \<Rightarrow> unit res \<times> CoordinatorServer" where
  "sendHeartbeat req order dial failure c =
     (case failure of
        Some e \<Rightarrow> (Inl e, c)
      | None \<Rightarrow> (case SendHeartbeat order dial req c of (r, c1) \<Rightarrow> (map_sum id (\<lambda>_. ()) r, c1)))"

fun periodicHeartbeat :: "HeartbeatRequest \<Rightarrow> heartbeat_event \<Rightarrow> heartbeat_state \<Rightarrow> heartbeat_state" where
  "periodicHeartbeat req (HeartbeatTick order dial failure) h =
     (if \<not> hb_running h then h
      else (case sendHeartbeat req order dial failure (hb_pool h) of
        (Inl e, c) \<Rightarrow> h\<lparr>hb_running := False, hb_pool := c\<rparr>
      | (Inr _, c) \<Rightarrow> h\<lparr>hb_pool := c\<rparr>))"
| "periodicHeartbeat req (CoordinatorEvent ev) h = h\<lparr>hb_pool := pool_apply ev (hb_pool h)\<rparr>"
| "periodicHeartbeat req WorkerCancelled h = h\<lparr>hb_running := False\<rparr>"

section \<open>Properties\<close>

text \<open>A database connection is had at the first of five attempts that succeeds, and only then.\<close>

lemma connects_iff: "ConnectToDatabase connect = Inr p \<longleftrightarrow>
    (\<exists>k < 5. connect k = Inr p \<and> (\<forall>j < k. is_err (connect j)))"
  unfolding ConnectToDatabase_def by (subst connect_loop_iff) auto

lemma installed_build_server: "installed (build_server i key)"
  by (auto simp: installed_def build_server_def Let_def)

lemma NewFromEnv_length: "NewFromEnv Getenv = Inr key \<Longrightarrow> length key = 32"
  by (auto simp: NewFromEnv_def secretbox_New_def keyLength_def Let_def split: if_splits option.splits)

lemma HasPassword_true:
  assumes "HasPassword userID s = (Inr True, s')"
  shows "\<exists>u \<in> set (users (tables s)). usr_id u = userID \<and> usr_password_hash u \<noteq> []" and "tables s' = tables s"
proof -
  obtain hash s1 where "pool_call (query_row (\<lambda>d. map usr_password_hash (filter (\<lambda>u. usr_id u = userID) (users d)))) s
      = (Inr hash, s1)" and "hash \<noteq> []"
    using assms by (auto simp: HasPassword_def select_hash_def translate_res_def split: prod.splits sum.splits)
  from first_row_filter [OF query_row_ok [OF this(1)]] this(2)
  show "\<exists>u \<in> set (users (tables s)). usr_id u = userID \<and> usr_password_hash u \<noteq> []" by blast
  show "tables s' = tables s"
    using assms by (auto simp: HasPassword_def split: prod.splits sum.splits) (metis select_hash_tables snd_conv)
qed

text \<open>A password is only ever set where there was none.\<close>

lemma EnsurePassword_keeps:
  assumes "EnsurePassword b userID password rng s = (r, rng', s')" and "distinct (map usr_id (users (tables s)))"
    and "u \<in> set (users (tables s))" and "usr_id u = userID" and "usr_password_hash u \<noteq> []"
  shows "tables s' = tables s"
proof -
  obtain h s1 where sel: "select_hash userID s = (h, s1)" by (cases "select_hash userID s")
  then have t: "tables s1 = tables s" using select_hash_tables [of userID s] by simp
  have "h = Inr hash \<Longrightarrow> hash = usr_password_hash u" for hash
  proof -
    assume "h = Inr hash"
    then obtain s2 where call: "pool_call (query_row (\<lambda>d. map usr_password_hash (filter (\<lambda>u. usr_id u = userID) (users d)))) s = (Inr hash, s2)"
      using sel by (auto simp: select_hash_def translate_res_def split: prod.splits sum.splits)
    obtain x where "x \<in> set (users (tables s))" "usr_id x = userID" "usr_password_hash x = hash"
      using first_row_filter [OF query_row_ok [OF call]] by blast
    with assms(2-4) show "hash = usr_password_hash u" by (metis distinct_map inj_onD)
  qed
  then show ?thesis
    using assms(1,5) sel t by (auto simp: EnsurePassword_def split: sum.splits if_splits)
qed

text \<open>
  C27: the API server only starts closed and on a schema that is up to date. When \<open>Start\<close> gets as far
  as serving, the database answered one of five attempts, every migration has been applied once
  and in order, the master key is 32 bytes, the tools are the installation's, and the owner has a
  password; a password that was already stored is the one that was there, whatever
  \<open>TASKD_PASSWORD\<close> says now.
\<close>

theorem scheduler_starts_closed:
  assumes "scheduler_Start i rng m s = (Inr srv, rng', m', s')" and "distinct (map usr_id (users (tables s)))"
    and "distinct (map fst (in_migrations i))" and "up_to (in_run_sql i) (migration_files (in_migrations i)) d0 k m"
  shows "installed srv \<and> length (masterKey (srv_sealer srv)) = 32 \<and> (\<exists>k < 5. in_connect i k = Inr ()) \<and>
    up_to (in_run_sql i) (migration_files (in_migrations i)) d0 (length (migration_files (in_migrations i))) m' \<and>
    (\<exists>u \<in> set (users (tables s')). usr_id u = OwnerUserID \<and> usr_password_hash u \<noteq> []) \<and>
    ((\<exists>u \<in> set (users (tables s)). usr_id u = OwnerUserID \<and> usr_password_hash u \<noteq> []) \<longrightarrow> tables s' = tables s)"
proof -
  obtain key s1 where con: "ConnectToDatabase (in_connect i) = Inr ()"
      and mig: "Migrate (in_run_sql i) (in_migrations i) m = (Inr (), m')"
      and key: "NewFromEnv (in_getenv i) = Inr key" and ens: "ensure_password i rng s = (Inr (), rng', s1)"
      and has: "HasPassword OwnerUserID s1 = (Inr True, s')" and srv: "srv = build_server i key"
    using assms(1) unfolding scheduler_Start_def
    by (auto split: sum.splits prod.splits if_splits)
  have "length (masterKey (srv_sealer srv)) = 32"
    using NewFromEnv_length [OF key] by (simp add: srv build_server_def Let_def)
  moreover have "tables s1 = tables s" if "u \<in> set (users (tables s))" "usr_id u = OwnerUserID" "usr_password_hash u \<noteq> []" for u
    using EnsurePassword_keeps [OF _ assms(2) that] ens by (auto simp: ensure_password_def split: if_splits)
  moreover have "up_to (in_run_sql i) (migration_files (in_migrations i)) d0 (length (migration_files (in_migrations i))) m'"
    using Migrate_up_to [OF assms(3,4) mig] by auto
  ultimately show ?thesis
    using installed_build_server [of i key] con connects_iff [of "in_connect i" "()"] HasPassword_true [OF has]
    by (auto simp: srv)
qed

definition demo_installation :: "(nat, string) installation" where
  "demo_installation =
     \<lparr>in_getenv = (\<lambda>v. if v = ''TASKD_SECRET_KEY'' then StdEncoding_EncodeToString (replicate 32 CHR ''k'')
        else if v = ''TASKD_PASSWORD'' then ''pw'' else []),
      in_connect = (\<lambda>k. if k < 2 then Inl (Errorf ''refused'') else Inr ()), in_run_sql = (\<lambda>body d. Inr (d @ body)),
      in_migrations = demo_migrations, in_pg = demo_pg,
      in_aead = demo_gcm, in_bcrypt = demo_bcrypt, in_time = demo_env, in_decode = demo_api_decoders,
      in_tools = demo_decoders, in_net = quiet_net, in_wire = demo_wire, in_http = demo_http, in_files = (\<lambda>_. False)\<rparr>"

text \<open>A start on a database whose first migration was applied by an earlier one.\<close>

definition half_migrated :: "string migration_state" where
  "half_migrated = \<lparr>mg_applied = Some [''0001_a.sql''], mg_schema = ''a'', mg_outcomes = []\<rparr>"

theorem scheduler_starts_closed_witness:
  "\<exists>srv rng' m' s'. scheduler_Start demo_installation [] half_migrated demo_server = (Inr srv, rng', m', s') \<and> installed srv \<and>
     mg_schema m' = ''ab'' \<and> map usr_password_hash (users (tables s')) = [''hpw'']"
proof -
  let ?p = "scheduler_Start demo_installation [] half_migrated demo_server"
  have eff: "\<not> is_err (fst ?p)" "mg_schema (fst (snd (snd ?p))) = ''ab''"
    "map usr_password_hash (users (tables (snd (snd (snd ?p))))) = [''hpw'']" by code_simp+
  then obtain srv where srv: "fst ?p = Inr srv" by (cases "fst ?p") auto
  then have p: "?p = (Inr srv, fst (snd ?p), fst (snd (snd ?p)), snd (snd (snd ?p)))" by (metis prod.collapse)
  have "distinct (map usr_id (users (tables demo_server)))" by (simp add: demo_server_def demo_db_def)
  moreover have "distinct (map fst (in_migrations demo_installation))" by code_simp
  moreover have "up_to (in_run_sql demo_installation) (migration_files (in_migrations demo_installation)) [] 1 half_migrated" by code_simp
  ultimately have "installed srv" using scheduler_starts_closed [OF p] by blast
  with p eff show ?thesis by metis
qed

lemma swept_gone:
  assumes "\<forall>w. x = Some w \<longrightarrow> heartbeatMisses w \<le> defaultMaxMisses + 1" and "3 \<le> n"
  shows "(swept defaultMaxMisses ^^ n) x = None"
proof -
  have none: "(swept defaultMaxMisses ^^ m) None = None" for m by (induction m) (simp_all add: swept_def)
  have three: "(swept defaultMaxMisses ^^ 3) x = None"
  proof (cases x)
    case (Some w)
    have "unat (heartbeatMisses w) \<le> 2"
      using assms(1) Some by (simp add: defaultMaxMisses_def word_le_nat_alt)
    then have "unat (heartbeatMisses w) \<in> {0, 1, 2}" by auto
    then have "heartbeatMisses w \<in> {0, 1, 2}"
      by (auto simp: word_unat_eq_iff)
    then show ?thesis using Some by (auto simp: swept_def defaultMaxMisses_def eval_nat_numeral)
  qed (simp only: none)
  have "n = (n - 3) + 3" using assms(2) by simp
  then have "(swept defaultMaxMisses ^^ n) x = (swept defaultMaxMisses ^^ (n - 3)) ((swept defaultMaxMisses ^^ 3) x)"
    by (metis comp_apply funpow_add)
  then show ?thesis by (simp add: three none)
qed

text \<open>Once the goroutine has returned, only the coordinator acts.\<close>

fun coordinator_events :: "heartbeat_event list \<Rightarrow> pool_event list" where
  "coordinator_events [] = []"
| "coordinator_events (CoordinatorEvent ev # evs) = ev # coordinator_events evs"
| "coordinator_events (_ # evs) = coordinator_events evs"

lemma stopped_heartbeat:
  "\<not> hb_running h \<Longrightarrow> hb_pool (fold (periodicHeartbeat req) evs h) = fold pool_apply (coordinator_events evs) (hb_pool h)"
  by (induction evs arbitrary: h rule: coordinator_events.induct) auto

text \<open>
  C36: one lost heartbeat is final. After a single heartbeat that did not reach the coordinator the
  worker never sends another one: whatever its timer does from then on, the third sweep drops
  it from the pool and it never comes back, although it is running and reachable. (The
  goroutine returns on the first error instead of waiting for the next tick.)
\<close>

theorem lost_heartbeat_silences_worker:
  assumes "pool_wf (hb_pool h)" and "hb_running h"
    and "\<forall>ev \<in> set (coordinator_events evs). event_ok ev \<and> \<not> beats_of (Heartbeat_WorkerId req) ev"
    and "3 \<le> sweeps (coordinator_events evs)"
  shows "map_of (WorkerPool (hb_pool (fold (periodicHeartbeat req) (HeartbeatTick order dial (Some e) # evs) h)))
    (Heartbeat_WorkerId req) = None"
proof -
  let ?h = "periodicHeartbeat req (HeartbeatTick order dial (Some e)) h" and ?w = "Heartbeat_WorkerId req"
  have h: "\<not> hb_running ?h" "hb_pool ?h = hb_pool h" using assms(2) by (simp_all add: sendHeartbeat_def)
  have "\<forall>w. map_of (WorkerPool (hb_pool h)) ?w = Some w \<longrightarrow> heartbeatMisses w \<le> defaultMaxMisses + 1"
    using wf_map_of [OF assms(1)] assms(1) by (simp add: pool_wf_def)
  then show ?thesis
    using stopped_heartbeat [OF h(1), of req evs] h(2) silent_fold [OF assms(1,3)] swept_gone [OF _ assms(4)] by simp
qed

theorem lost_heartbeat_silences_worker_witness:
  "map_of (WorkerPool (hb_pool (fold (periodicHeartbeat demo_beat)
     [HeartbeatTick (\<lambda>ks. ks) (\<lambda>_. None) (Some (Errorf ''unavailable'')),
      HeartbeatTick (\<lambda>ks. ks) (\<lambda>_. None) None, CoordinatorEvent (Sweep (\<lambda>ks. ks)),
      HeartbeatTick (\<lambda>ks. ks) (\<lambda>_. None) None, CoordinatorEvent (Sweep (\<lambda>ks. ks)),
      HeartbeatTick (\<lambda>ks. ks) (\<lambda>_. None) None, CoordinatorEvent (Sweep (\<lambda>ks. ks))]
     \<lparr>hb_running = True, hb_pool = demo_pool\<rparr>))) 7 = None"
proof -
  let ?evs = "[HeartbeatTick (\<lambda>ks. ks) (\<lambda>_. None) None, CoordinatorEvent (Sweep (\<lambda>ks. ks)),
      HeartbeatTick (\<lambda>ks. ks) (\<lambda>_. None) None, CoordinatorEvent (Sweep (\<lambda>ks. ks)),
      HeartbeatTick (\<lambda>ks. ks) (\<lambda>_. None) None, CoordinatorEvent (Sweep (\<lambda>ks. ks))]"
  have "pool_wf (hb_pool \<lparr>hb_running = True, hb_pool = demo_pool\<rparr>)"
    using pool_wf_apply [OF pool_wf_init, of "Beat (\<lambda>ks. ks) (\<lambda>_. None) demo_beat"]
    by (simp add: demo_pool_def range_perm_id)
  moreover have "hb_running \<lparr>hb_running = True, hb_pool = demo_pool\<rparr>" by simp
  moreover have "\<forall>ev \<in> set (coordinator_events ?evs). event_ok ev \<and> \<not> beats_of (Heartbeat_WorkerId demo_beat) ev"
    by (simp add: range_perm_id beats_of_def)
  moreover have "3 \<le> sweeps (coordinator_events ?evs)" by (simp add: sweeps_def)
  ultimately show ?thesis
    using lost_heartbeat_silences_worker [of "\<lparr>hb_running = True, hb_pool = demo_pool\<rparr>" ?evs demo_beat "\<lambda>ks. ks" "\<lambda>_. None"
        "Errorf ''unavailable''"]
    by (simp only: demo_beat_def HeartbeatRequest.select_convs)
qed

end
