(* ===== verification/Lifecycle.thy ===== *)
theory Lifecycle
  imports Services
begin

text \<open>
  How the services come up and go down: the health listener (\<open>pkg/health\<close>), \<open>Start\<close> and \<open>Stop\<close>
  of the coordinator and of a worker with the listeners, connections and pools they hold, \<open>Stop\<close> of
  the scheduler with the requests it still answers, and the commands under \<open>cmd\<close> that end with
  what \<open>Start\<close> returns.
\<close>

section \<open>What the processes are given\<close>

text \<open>
  \<open>net.Listen\<close> with the address it then listens on, the attempts to reach the database, dialling
  the coordinator, the environment, and what \<open>GracefulStop\<close> of gRPC does to the server's listener.
\<close>

datatype listener = NilListener | Listening string | ClosedListener string

record launch =
  la_listen :: "string \<Rightarrow> string res"
  la_connect :: "nat \<Rightarrow> unit res"
  la_dial :: "string \<Rightarrow> go_error option"
  la_getenv :: "string \<Rightarrow> string"
  la_graceful :: "listener \<Rightarrow> listener"

text \<open>The documented effect of \<open>GracefulStop\<close>: it closes the listeners the server serves on.\<close>

definition closes_listener :: "launch \<Rightarrow> bool" where
  "closes_listener la \<longleftrightarrow> (\<forall>a. la_graceful la (Listening a) = ClosedListener a)"

text \<open>Closing a listener that is closed already is an error.\<close>

fun listener_Close :: "listener \<Rightarrow> go_error option \<times> listener" where
  "listener_Close (Listening a) = (None, ClosedListener a)"
| "listener_Close (ClosedListener a) =
     (Some (Errorf (''close tcp '' @ a @ '': use of closed network connection'')), ClosedListener a)"
| "listener_Close NilListener = (Some (Errorf ''invalid argument''), NilListener)"

section \<open>The health listener (health.go)\<close>

text \<open>A check is a closure over the process \<open>'s\<close>, asked when a probe comes.\<close>

record 's health_server =
  hs_live :: "'s \<Rightarrow> go_error option"
  hs_ready :: "'s \<Rightarrow> go_error option"
  hs_open :: bool

definition health_Serve ::
    "launch \<Rightarrow> string \<Rightarrow> ('s \<Rightarrow> go_error option) \<Rightarrow> ('s \<Rightarrow> go_error option) \<Rightarrow> 's health_server res" where
  "health_Serve la address live ready =
     (case la_listen la address of
        Inl e \<Rightarrow> Inl e
      | Inr _ \<Rightarrow> Inr \<lparr>hs_live = live, hs_ready = ready, hs_open = True\<rparr>)"

text \<open>A GET of a path: nobody answers on a closed listener, and it has two routes.\<close>

datatype probe_answer = ConnectionRefused | NoRoute | Answer int "(string \<times> string) list"

definition health_probe :: "'s health_server \<Rightarrow> 's \<Rightarrow> string \<Rightarrow> probe_answer" where
  "health_probe h p path =
     (if \<not> hs_open h then ConnectionRefused
      else if path = ''/healthz'' then case_prod Answer (health_handle (Some (hs_live h p)))
      else if path = ''/readyz'' then case_prod Answer (health_handle (Some (hs_ready h p)))
      else NoRoute)"

text \<open>\<open>Stop\<close> on a nil server does nothing.\<close>

definition health_Stop :: "'s health_server option \<Rightarrow> 's health_server option" where
  "health_Stop h = map_option (\<lambda>x. x\<lparr>hs_open := False\<rparr>) h"

section \<open>The coordinator (coordinator.go)\<close>

datatype db_pool = NilPool | OpenPool | ClosedPool

record coordinator_process =
  cp_port :: string
  cp_healthAddress :: string
  cp_listener :: listener
  cp_serving :: bool
  cp_pool :: db_pool
  cp_notifier :: "string option"
  cp_sweeping :: bool
  cp_scanning :: bool
  cp_health :: bool
  cp_connections :: "string list"

definition new_coordinator :: "string \<Rightarrow> string \<Rightarrow> coordinator_process" where
  "new_coordinator port health =
     \<lparr>cp_port = port, cp_healthAddress = health, cp_listener = NilListener, cp_serving = False, cp_pool = NilPool,
      cp_notifier = None, cp_sweeping = False, cp_scanning = False, cp_health = False, cp_connections = []\<rparr>"

text \<open>
  \<open>Start\<close>, statement by statement: calls of workers are answered from the moment the gRPC server
  serves, so they may come between any two of them.
\<close>

datatype start_phase =
  SpawnSweeper | StartGRPC | ConnectDB | LoadKey | StartHealth | AwaitShutdown | StartFailed go_error

fun start_step :: "launch \<Rightarrow> start_phase \<times> coordinator_process \<Rightarrow> start_phase \<times> coordinator_process" where
  "start_step la (SpawnSweeper, p) = (StartGRPC, p\<lparr>cp_sweeping := True\<rparr>)"
| "start_step la (StartGRPC, p) =
     (case la_listen la (cp_port p) of
        Inl e \<Rightarrow> (StartFailed (Errorf (''gRPC server start failed: '' @ Error e)), p\<lparr>cp_listener := NilListener\<rparr>)
      | Inr a \<Rightarrow> (ConnectDB, p\<lparr>cp_listener := Listening a, cp_serving := True\<rparr>))"
| "start_step la (ConnectDB, p) =
     (case ConnectToDatabase (la_connect la) of
        Inl e \<Rightarrow> (StartFailed e, p)
      | Inr _ \<Rightarrow> (LoadKey, p\<lparr>cp_pool := OpenPool\<rparr>))"
| "start_step la (LoadKey, p) =
     (case NewFromEnv (la_getenv la) of
        Inl e \<Rightarrow> (StartFailed e, p)
      | Inr _ \<Rightarrow>
          (StartHealth, p\<lparr>cp_notifier := Some (Notifier_New (la_getenv la ''TASKD_TELEGRAM_BASE_URL'')), cp_scanning := True\<rparr>))"
| "start_step la (StartHealth, p) =
     (if cp_healthAddress p = [] then (AwaitShutdown, p)
      else (case la_listen la (cp_healthAddress p) of
        Inl e \<Rightarrow> (StartFailed (Errorf (''health server start failed: '' @ Error e)), p)
      | Inr _ \<Rightarrow> (AwaitShutdown, p\<lparr>cp_health := True\<rparr>)))"
| "start_step la (AwaitShutdown, p) = (AwaitShutdown, p)"
| "start_step la (StartFailed e, p) = (StartFailed e, p)"

text \<open>
  \<open>Stop\<close>: the probes, the context (the scanner and the sweeper return, the sweeper is waited for),
  the connections to workers, the gRPC server, and then the listener if there is one, else the
  pool.
\<close>

definition coordinator_Stop :: "launch \<Rightarrow> coordinator_process \<Rightarrow> go_error option \<times> coordinator_process" where
  "coordinator_Stop la p =
     (let p1 = p\<lparr>cp_health := False, cp_scanning := False, cp_sweeping := False, cp_connections := []\<rparr>;
          p2 = (if cp_serving p1 then p1\<lparr>cp_listener := la_graceful la (cp_listener p1), cp_serving := False\<rparr> else p1)
      in if cp_listener p2 \<noteq> NilListener then
           (case listener_Close (cp_listener p2) of (e, l) \<Rightarrow> (e, p2\<lparr>cp_listener := l\<rparr>))
         else (None, p2\<lparr>cp_pool := ClosedPool\<rparr>))"

text \<open>The five statements, then \<open>awaitShutdown\<close>, which returns what \<open>Stop\<close> returns.\<close>

definition coordinator_Start :: "launch \<Rightarrow> coordinator_process \<Rightarrow> go_error option \<times> coordinator_process" where
  "coordinator_Start la p =
     (case (start_step la ^^ 5) (SpawnSweeper, p) of
        (StartFailed e, p') \<Rightarrow> (Some e, p')
      | (_, p') \<Rightarrow> coordinator_Stop la p')"

text \<open>\<open>cmd/coordinator\<close>: the message it dies with, or None when it returns.\<close>

definition coordinator_main :: "launch \<Rightarrow> string \<Rightarrow> string \<Rightarrow> string option \<times> coordinator_process" where
  "coordinator_main la port health =
     (case GetDBConnectionString (la_getenv la) of
        Inl e \<Rightarrow> (Some (Error e), new_coordinator port health)
      | Inr _ \<Rightarrow>
          (case coordinator_Start la (new_coordinator port health) of
             (Some e, p) \<Rightarrow> (Some (''Coordinator stopped: '' @ Error e), p)
           | (None, p) \<Rightarrow> (None, p)))"

text \<open>
  The calls of workers. A heartbeat only concerns the pool of workers; a renewal and every report
  of a status the coordinator supports begin with a statement on the database.
\<close>

datatype worker_call = ReportCall RunStatus | RenewCall | HeartbeatCall

fun uses_database :: "worker_call \<Rightarrow> bool" where
  "uses_database (ReportCall st) \<longleftrightarrow> st \<in> {RUNNING, SUCCEEDED, FAILED, BUDGET_EXCEEDED}"
| "uses_database RenewCall \<longleftrightarrow> True"
| "uses_database HeartbeatCall \<longleftrightarrow> False"

text \<open>Nobody answers before the gRPC server serves; \<open>Exec\<close> on a nil pool panics.\<close>

datatype rpc_result = NotServed | Handled | PoolError | Panic

definition worker_rpc :: "coordinator_process \<Rightarrow> worker_call \<Rightarrow> rpc_result" where
  "worker_rpc p call =
     (if \<not> cp_serving p then NotServed
      else if \<not> uses_database call then Handled
      else case cp_pool p of NilPool \<Rightarrow> Panic | OpenPool \<Rightarrow> Handled | ClosedPool \<Rightarrow> PoolError)"

section \<open>Properties of the coordinator\<close>

lemma five: "(f ^^ 5) x = f (f (f (f (f x))))"
  by (simp add: eval_nat_numeral)

text \<open>What has to go well for the coordinator to wait for its shutdown.\<close>

definition can_start :: "launch \<Rightarrow> string \<Rightarrow> string \<Rightarrow> bool" where
  "can_start la port health \<longleftrightarrow>
     \<not> is_err (la_listen la port) \<and> \<not> is_err (ConnectToDatabase (la_connect la)) \<and> \<not> is_err (NewFromEnv (la_getenv la)) \<and>
     (health \<noteq> [] \<longrightarrow> \<not> is_err (la_listen la health))"

lemma is_err_iff: "is_err r \<longleftrightarrow> (\<exists>e. r = Inl e)"
  by (cases r) auto

lemma started_iff:
  "(\<exists>p. (start_step la ^^ 5) (SpawnSweeper, new_coordinator port health) = (AwaitShutdown, p)) \<longleftrightarrow> can_start la port health"
  by (auto simp: five can_start_def is_err_iff new_coordinator_def split: sum.splits)

lemma started_state:
  assumes "(start_step la ^^ 5) (SpawnSweeper, new_coordinator port health) = (AwaitShutdown, p)"
  shows "(\<exists>a. cp_listener p = Listening a \<and> la_listen la port = Inr a) \<and> cp_serving p \<and> cp_pool p = OpenPool \<and> cp_scanning p \<and>
    cp_sweeping p \<and> cp_health p = (health \<noteq> []) \<and> cp_notifier p \<noteq> None"
  using assms by (auto simp: five new_coordinator_def split: sum.splits if_splits)

text \<open>The pool and the server in every phase.\<close>

fun phase_state :: "start_phase \<Rightarrow> coordinator_process \<Rightarrow> bool" where
  "phase_state SpawnSweeper p \<longleftrightarrow> \<not> cp_serving p \<and> cp_pool p = NilPool"
| "phase_state StartGRPC p \<longleftrightarrow> \<not> cp_serving p \<and> cp_pool p = NilPool"
| "phase_state ConnectDB p \<longleftrightarrow> cp_serving p \<and> cp_pool p = NilPool"
| "phase_state (StartFailed e) p \<longleftrightarrow> True"
| "phase_state ph p \<longleftrightarrow> cp_serving p \<and> cp_pool p = OpenPool"

lemma start_step_phase_state: "case_prod phase_state x \<Longrightarrow> case_prod phase_state (start_step la x)"
  by (cases "(la, x)" rule: start_step.cases) (auto split: sum.splits)

lemma phases: "case_prod phase_state ((start_step la ^^ k) (SpawnSweeper, new_coordinator port health))"
proof (induction k)
  case (Suc k)
  from start_step_phase_state [OF this] show ?case by simp
qed (simp add: new_coordinator_def)

text \<open>
  When a worker's call can bring the coordinator down. While \<open>Start\<close> is connecting to the
  database (five attempts, five seconds apart) the gRPC server already serves and the pool is
  nil: a report or a renewal that arrives then panics, and only a heartbeat is answered. Before
  that nobody answers; once \<open>Start\<close> has connected, until the shutdown, every call is handled.
\<close>

theorem rpc_panics_only_while_connecting:
  assumes "(start_step la ^^ k) (SpawnSweeper, new_coordinator port health) = (phase, p)"
  shows "(phase = ConnectDB \<longrightarrow> worker_rpc p call = (if uses_database call then Panic else Handled)) \<and>
    (phase \<in> {SpawnSweeper, StartGRPC} \<longrightarrow> worker_rpc p call = NotServed) \<and>
    (phase \<in> {LoadKey, StartHealth, AwaitShutdown} \<longrightarrow> worker_rpc p call = Handled)"
proof -
  have "phase_state phase p" using phases [of k la port health] by (simp add: assms)
  then show ?thesis by (auto simp: worker_rpc_def)
qed

text \<open>Every listen, dial and connection succeeds; the environment of a deployment.\<close>

definition demo_launch :: launch where
  "demo_launch =
     \<lparr>la_listen = Inr, la_connect = \<lambda>_. Inr (), la_dial = \<lambda>_. None,
      la_getenv = \<lambda>v. if v = ''POSTGRES_USER'' then ''taskd'' else if v = ''POSTGRES_PASSWORD'' then ''pw''
        else if v = ''POSTGRES_DB'' then ''taskd'' else if v = ''POSTGRES_HOST'' then ''db''
        else if v = ''TASKD_SECRET_KEY'' then StdEncoding_EncodeToString (replicate 32 CHR ''k'') else [],
      la_graceful = snd \<circ> listener_Close\<rparr>"

theorem rpc_panics_only_while_connecting_witness:
  "\<exists>p. (start_step demo_launch ^^ 2) (SpawnSweeper, new_coordinator '':8080'' '':8090'') = (ConnectDB, p) \<and> worker_rpc p RenewCall = Panic"
proof -
  obtain p where "(start_step demo_launch ^^ 2) (SpawnSweeper, new_coordinator '':8080'' '':8090'') = (ConnectDB, p)"
    by (auto simp: eval_nat_numeral demo_launch_def new_coordinator_def)
  with rpc_panics_only_while_connecting [OF this, of RenewCall] show ?thesis by simp
qed

text \<open>
  C38: a coordinator that started and is shut down in good order ends as if it had failed. \<open>Stop\<close>
  closes the listener that \<open>GracefulStop\<close> has closed before it, returns that error without
  reaching the pool, and the command dies with it.
\<close>

theorem clean_coordinator_shutdown_fails:
  assumes "closes_listener la" and "can_start la port health" and "\<not> is_err (GetDBConnectionString (la_getenv la))"
  shows "\<exists>a p. coordinator_main la port health =
      (Some (''Coordinator stopped: close tcp '' @ a @ '': use of closed network connection''), p) \<and>
    la_listen la port = Inr a \<and> cp_pool p = OpenPool"
proof -
  obtain p where p: "(start_step la ^^ 5) (SpawnSweeper, new_coordinator port health) = (AwaitShutdown, p)"
    using started_iff assms(2) by blast
  from started_state [OF p] obtain a where a: "cp_listener p = Listening a" "la_listen la port = Inr a" "cp_serving p" "cp_pool p = OpenPool"
    by auto
  have stop: "\<exists>p'. coordinator_Stop la p = (Some (Errorf (''close tcp '' @ a @ '': use of closed network connection'')), p') \<and>
      cp_pool p' = OpenPool"
    using assms(1) a by (simp add: coordinator_Stop_def closes_listener_def Let_def)
  obtain cs where "GetDBConnectionString (la_getenv la) = Inr cs" using assms(3) by (cases "GetDBConnectionString (la_getenv la)") auto
  with stop a(2) show ?thesis by (auto simp: coordinator_main_def coordinator_Start_def p Error_def)
qed

theorem clean_coordinator_shutdown_fails_witness:
  "\<exists>p. coordinator_main demo_launch '':8080'' '':8090'' =
      (Some ''Coordinator stopped: close tcp :8080: use of closed network connection'', p) \<and> cp_pool p = OpenPool"
proof -
  have "can_start demo_launch '':8080'' '':8090''" "\<not> is_err (GetDBConnectionString (la_getenv demo_launch))" by code_simp+
  moreover have "closes_listener demo_launch" by (simp add: closes_listener_def demo_launch_def)
  ultimately obtain a p where "coordinator_main demo_launch '':8080'' '':8090'' =
      (Some (''Coordinator stopped: close tcp '' @ a @ '': use of closed network connection''), p)"
      "la_listen demo_launch '':8080'' = Inr a" "cp_pool p = OpenPool"
    using clean_coordinator_shutdown_fails [of demo_launch "'':8080''" "'':8090''"] by blast
  moreover have "la_listen demo_launch '':8080'' = Inr '':8080''" by (simp add: demo_launch_def)
  ultimately show ?thesis by simp
qed

section \<open>The worker (worker.go)\<close>

record worker_node =
  wn_port :: string
  wn_healthAddress :: string
  wn_listener :: listener
  wn_serving :: bool
  wn_connected :: bool
  wn_heartbeat :: bool
  wn_health :: "worker_process health_server option"
  wn_process :: worker_process

definition new_worker :: "string \<Rightarrow> string \<Rightarrow> worker_node" where
  "new_worker port health =
     \<lparr>wn_port = port, wn_healthAddress = health, wn_listener = NilListener, wn_serving = False, wn_connected = False,
      wn_heartbeat = False, wn_health = None, wn_process = startWorkerPool\<lparr>goroutines := []\<rparr>\<rparr>"

datatype completion = Done | Fails go_error | Panics

definition isDraining :: "worker_process \<Rightarrow> bool" where "isDraining p = draining p"

text \<open>The port of an address such as \<open>[::]:43211\<close>.\<close>

definition port_of :: "string \<Rightarrow> string" where
  "port_of a = CHR '':'' # rev (takeWhile (\<lambda>c. c \<noteq> CHR '':'') (rev a))"

text \<open>
  Without a port the worker takes a free one; the address of the listener is read before the error
  is looked at.
\<close>

definition worker_startGRPCServer :: "launch \<Rightarrow> worker_node \<Rightarrow> completion \<times> worker_node" where
  "worker_startGRPCServer la n =
     (if wn_port n = [] then
        (case la_listen la '':0'' of
           Inl e \<Rightarrow> (Panics, n\<lparr>wn_listener := NilListener\<rparr>)
         | Inr a \<Rightarrow> (Done, n\<lparr>wn_listener := Listening a, wn_port := port_of a, wn_serving := True\<rparr>))
      else
        (case la_listen la (wn_port n) of
           Inl e \<Rightarrow> (Fails (Errorf (''failed to listen on '' @ wn_port n @ '': '' @ Error e)), n\<lparr>wn_listener := NilListener\<rparr>)
         | Inr a \<Rightarrow> (Done, n\<lparr>wn_listener := Listening a, wn_serving := True\<rparr>)))"

text \<open>What closing reports is only logged.\<close>

definition closeGRPCConnection :: "launch \<Rightarrow> worker_node \<Rightarrow> worker_node" where
  "closeGRPCConnection la n =
     (let n1 = (if wn_serving n then n\<lparr>wn_listener := la_graceful la (wn_listener n), wn_serving := False\<rparr> else n);
          n2 = (if wn_listener n1 \<noteq> NilListener then n1\<lparr>wn_listener := snd (listener_Close (wn_listener n1))\<rparr> else n1)
      in n2\<lparr>wn_connected := False\<rparr>)"

lemma closeGRPCConnection_closes [simp]:
  "\<not> wn_connected (closeGRPCConnection la n)" "\<not> wn_serving (closeGRPCConnection la n)"
  by (simp_all add: closeGRPCConnection_def Let_def)

text \<open>
  \<open>Stop\<close> up to the point where it waits for the goroutines: it declines new runs, closes the
  health listener and cancels the context.
\<close>

definition worker_Stop_begin :: "worker_node \<Rightarrow> worker_node" where
  "worker_Stop_begin n =
     (let n1 = n\<lparr>wn_process := stop_draining (wn_process n)\<rparr>;
          n2 = n1\<lparr>wn_health := health_Stop (wn_health n1)\<rparr>
      in n2\<lparr>wn_process := stop_cancel (wn_process n2), wn_heartbeat := False\<rparr>)"

text \<open>\<open>drained\<close> is where the goroutines of the pool are when the last of them has returned.\<close>

definition worker_Stop :: "launch \<Rightarrow> (worker_process \<Rightarrow> worker_process) \<Rightarrow> worker_node \<Rightarrow> worker_node" where
  "worker_Stop la drained n =
     (let n1 = worker_Stop_begin n in closeGRPCConnection la (n1\<lparr>wn_process := drained (wn_process n1)\<rparr>))"

definition worker_ready :: "worker_process \<Rightarrow> go_error option" where
  "worker_ready p = (if isDraining p then Some (Errorf ''draining'') else None)"

text \<open>\<open>Start\<close>, with the deferred \<open>closeGRPCConnection\<close> on every return after the connection is made.\<close>

definition worker_serve :: "launch \<Rightarrow> worker_node \<Rightarrow> completion \<times> worker_node" where
  "worker_serve la n =
     (case worker_startGRPCServer la n of
        (Panics, n1) \<Rightarrow> (Panics, n1)
      | (Fails e, n1) \<Rightarrow> (Fails (Errorf (''gRPC server start failed: '' @ Error e)), n1)
      | (Done, n1) \<Rightarrow>
          if wn_healthAddress n1 = [] then (Done, n1)
          else (case health_Serve la (wn_healthAddress n1) (\<lambda>_. None) worker_ready of
            Inl e \<Rightarrow> (Fails (Errorf (''health server start failed: '' @ Error e)), n1)
          | Inr h \<Rightarrow> (Done, n1\<lparr>wn_health := Some h\<rparr>)))"

definition worker_Start ::
    "launch \<Rightarrow> string \<Rightarrow> (worker_process \<Rightarrow> worker_process) \<Rightarrow> worker_node \<Rightarrow> completion \<times> worker_node" where
  "worker_Start la coordinator drained n =
     (let n1 = n\<lparr>wn_process := startWorkerPool\<rparr> in
      case la_dial la coordinator of
        Some e \<Rightarrow> (Fails (Errorf (''failed to connect to coordinator: '' @ Error e)), n1)
      | None \<Rightarrow>
          (case worker_serve la (n1\<lparr>wn_connected := True, wn_heartbeat := True\<rparr>) of
             (Done, n2) \<Rightarrow> (Done, closeGRPCConnection la (worker_Stop la drained n2))
           | (c, n2) \<Rightarrow> (c, closeGRPCConnection la n2)))"

section \<open>Properties of the worker\<close>

lemma worker_serve_health:
  assumes "worker_serve la n = (Done, n')" and "wn_healthAddress n \<noteq> []"
  shows "wn_health n' = Some \<lparr>hs_live = \<lambda>_. None, hs_ready = worker_ready, hs_open = True\<rparr>"
  using assms
  by (auto simp: worker_serve_def worker_startGRPCServer_def health_Serve_def split: if_splits sum.splits)

text \<open>
  The probes of a worker. While it serves, a worker answers that it is alive, and that it is
  ready exactly when it is not draining. \<open>Stop\<close> closes the listener before it waits for the
  accepted runs to finish: from then on, through the whole of that wait, neither
  probe is answered, whatever the worker is doing.
\<close>

theorem worker_probes:
  assumes "worker_serve la n = (Done, n')" and "wn_healthAddress n \<noteq> []"
  shows "\<exists>h h'. wn_health n' = Some h \<and>
    (\<forall>p. health_probe h p ''/healthz'' = Answer StatusOK [(''status'', ''ok'')] \<and>
         health_probe h p ''/readyz'' =
           (if draining p then Answer StatusServiceUnavailable [(''reason'', ''draining''), (''status'', ''unavailable'')]
            else Answer StatusOK [(''status'', ''ok'')])) \<and>
    wn_health (worker_Stop_begin n') = Some h' \<and> draining (wn_process (worker_Stop_begin n')) \<and>
    (\<forall>p path. health_probe h' p path = ConnectionRefused)"
  by (simp add: worker_serve_health [OF assms] health_probe_def health_handle_def worker_ready_def isDraining_def worker_Stop_begin_def
      health_Stop_def stop_draining_def stop_cancel_def Let_def Error_def)

theorem worker_probes_witness:
  "\<exists>n'. worker_serve demo_launch (new_worker '':9000'' '':8091'') = (Done, n') \<and>
    (\<exists>h'. wn_health (worker_Stop_begin n') = Some h' \<and> health_probe h' (wn_process (worker_Stop_begin n')) ''/healthz'' = ConnectionRefused)"
proof -
  obtain n' where n': "worker_serve demo_launch (new_worker '':9000'' '':8091'') = (Done, n')"
    by (auto simp: worker_serve_def worker_startGRPCServer_def demo_launch_def new_worker_def health_Serve_def)
  from worker_probes [OF this] n' show ?thesis by (auto simp: new_worker_def)
qed

text \<open>
  A worker asked to take any free port when none can be opened does not report the error: reading
  the address of the listener it did not get panics.
\<close>

lemma no_free_port_panics:
  assumes "la_dial la coordinator = None" and "la_listen la '':0'' = Inl e"
  shows "fst (worker_Start la coordinator drained (new_worker [] health)) = Panics"
  using assms by (simp add: worker_Start_def worker_serve_def worker_startGRPCServer_def new_worker_def Let_def)

text \<open>A start that fails after the connection is made leaves no connection behind.\<close>

lemma failed_start_closes_connection:
  assumes "worker_Start la coordinator drained (new_worker port health) = (c, n)"
  shows "\<not> wn_connected n \<and> \<not> wn_serving n"
  using assms
  by (auto simp: worker_Start_def new_worker_def Let_def split: option.splits prod.splits completion.splits)

section \<open>The worker command (cmd/worker)\<close>

text \<open>The message it dies with, or None when it returns.\<close>

definition worker_command ::
    "launch \<Rightarrow> ('h, 'd) installation \<Rightarrow> string \<Rightarrow> string \<Rightarrow> string \<Rightarrow> (worker_process \<Rightarrow> worker_process) \<Rightarrow> string option" where
  "worker_command la i serverPort coordinator health drained =
     (case worker_main i of
        Inl e \<Rightarrow> Some (Error e)
      | Inr agentExecutor \<Rightarrow>
          (case fst (worker_Start la coordinator drained (new_worker serverPort health)) of
             Done \<Rightarrow> None
           | Fails e \<Rightarrow> Some (''Worker stopped: '' @ Error e)
           | Panics \<Rightarrow> Some ''panic''))"

text \<open>A worker that started and is shut down in good order returns, unlike a coordinator.\<close>

lemma clean_worker_shutdown:
  assumes "worker_main i = Inr ex" and "la_dial la coordinator = None" and "\<not> is_err (la_listen la serverPort)" and "serverPort \<noteq> []"
    and "health \<noteq> [] \<longrightarrow> \<not> is_err (la_listen la health)"
  shows "worker_command la i serverPort coordinator health drained = None"
  using assms
  by (auto simp: worker_command_def worker_Start_def worker_serve_def worker_startGRPCServer_def new_worker_def health_Serve_def is_err_iff
      Let_def split: sum.splits)

section \<open>The scheduler (scheduler.go, cmd/scheduler)\<close>

record scheduler_process =
  sp_pool :: db_pool
  sp_http :: bool
  sp_listening :: bool

text \<open>\<open>Stop\<close> closes the pool first; requests under way and new ones still find the HTTP server.\<close>

definition scheduler_Stop_begin :: "scheduler_process \<Rightarrow> scheduler_process" where
  "scheduler_Stop_begin p = p\<lparr>sp_pool := ClosedPool\<rparr>"

text \<open>\<open>shutdown\<close> is what \<open>Shutdown\<close> reports: None when the requests under way ended in ten seconds.\<close>

definition scheduler_Stop :: "go_error option \<Rightarrow> scheduler_process \<Rightarrow> go_error option \<times> scheduler_process" where
  "scheduler_Stop shutdown p =
     (let p1 = scheduler_Stop_begin p in
      if sp_http p1 then (shutdown, p1\<lparr>sp_listening := False\<rparr>) else (None, p1))"

text \<open>The flag keeps its default: the command does not parse its arguments.\<close>

definition schedulerPort :: string where "schedulerPort = '':8081''"

definition scheduler_main ::
    "launch \<Rightarrow> ('h, 'd) installation \<Rightarrow> go_error option \<Rightarrow> string \<Rightarrow> 'd migration_state \<Rightarrow> server
      \<Rightarrow> string option \<times> 'd migration_state \<times> server" where
  "scheduler_main la i shutdown rng m s =
     (case GetDBConnectionString (in_getenv i) of
        Inl e \<Rightarrow> (Some (Error e), m, s)
      | Inr _ \<Rightarrow>
          (case scheduler_Start i rng m s of
             (Inl e, rng1, m1, s1) \<Rightarrow> (Some (''Error while starting server: '' @ Error e), m1, s1)
           | (Inr srv, rng1, m1, s1) \<Rightarrow>
               (case la_listen la schedulerPort of
                  Inl e \<Rightarrow> (Some (''Server error: '' @ Error e), m1, s1)
                | Inr a \<Rightarrow>
                    (case scheduler_Stop shutdown \<lparr>sp_pool = OpenPool, sp_http = True, sp_listening = True\<rparr> of
                       (Some e, p) \<Rightarrow> (Some (''Error while starting server: '' @ Error e), m1, s1)
                     | (None, p) \<Rightarrow> (None, m1, s1)))))"

text \<open>How calls on a pool end: a closed one refuses every call, here the next \<open>n\<close> of them.\<close>

fun pool_outcomes :: "nat \<Rightarrow> db_pool \<Rightarrow> outcome list" where
  "pool_outcomes n ClosedPool = replicate n (Refused (Errorf ''closed pool''))"
| "pool_outcomes n _ = []"

definition with_pool :: "nat \<Rightarrow> scheduler_process \<Rightarrow> 'h api \<Rightarrow> 'h api" where
  "with_pool n p st =
     st\<lparr>api_world := (api_world st)\<lparr>w_server := (api_server st)\<lparr>outcomes := pool_outcomes n (sp_pool p)\<rparr>\<rparr>\<rparr>"

text \<open>
  A scheduler that is shutting down tells signed-in clients that they are not. Once \<open>Stop\<close> has
  closed the pool, a request to the API that is still served is answered 401 whatever its
  session, because a lookup that fails counts as no session; \<open>/api/session\<close> answers the same in
  its own way. Nothing is written.
\<close>

theorem stopping_scheduler_signs_out:
  assumes "PathUnescape (rq_escaped rq) = Some path" and "\<not> isPublicPath path"
  shows "fst (serve srv rq (with_pool (Suc n) (scheduler_Stop_begin p) st)) = notSignedIn \<and>
    api_tables (snd (serve srv rq (with_pool (Suc n) (scheduler_Stop_begin p) st))) = api_tables st \<and>
    fst (handleSession rq (with_pool (Suc n) (scheduler_Stop_begin p) st)) = writeJSON StatusOK (SignedIn False)"
  using assms
  by (auto simp: serve_def requireSession_def handleSession_def with_pool_def scheduler_Stop_begin_def clock_Now_def Now_def on_store_def
      on_server_def UserForSession_def pool_call_def next_outcome.simps translate_res_def api_tables_def api_server_def
      split: option.split)

theorem stopping_scheduler_signs_out_witness:
  "fst (serve demo_srv (demo_request ''GET'' ''/api/agents'' (Some ''tok'') [])
      (with_pool 1 (scheduler_Stop_begin \<lparr>sp_pool = OpenPool, sp_http = True, sp_listening = True\<rparr>) demo_api)) = notSignedIn \<and>
   reply_status (fst (serve demo_srv (demo_request ''GET'' ''/api/agents'' (Some ''tok'') []) demo_api)) = 200"
proof -
  let ?rq = "demo_request ''GET'' ''/api/agents'' (Some ''tok'') []"
  have "PathUnescape (rq_escaped ?rq) = Some ''/api/agents''" "\<not> isPublicPath ''/api/agents''" by code_simp+
  moreover have "reply_status (fst (serve demo_srv ?rq demo_api)) = 200" by code_simp
  ultimately show ?thesis
    using stopping_scheduler_signs_out [of ?rq "''/api/agents''" demo_srv 0] by simp
qed

text \<open>
  Signing out while the database refuses the call: the answer says signed out and clears the
  cookie, and the session lives on.
\<close>

lemma logout_may_leave_session:
  assumes "rq_cookie rq = Some token"
  shows "reply_body (fst (handleLogout rq (with_pool (Suc n) (scheduler_Stop_begin p) st))) = SignedIn False \<and>
    sessions (api_tables (snd (handleLogout rq (with_pool (Suc n) (scheduler_Stop_begin p) st)))) = sessions (api_tables st)"
  using assms
  by (auto simp: handleLogout_def with_pool_def scheduler_Stop_begin_def on_store_def on_server_def DeleteSession_def pool_call_def
      next_outcome.simps api_tables_def api_server_def writeJSON_def)

end
