(* ===== verification/Database_Invariants.thy ===== *)
theory Database_Invariants
  imports Services
begin

text \<open>
  Invariants of the database under everything the services do to it: what has to be shown of each
  statement they send for an invariant to hold after every operation of the coordinator, of a
  worker and of the API.
\<close>

section \<open>The statements of all services\<close>

text \<open>The notifier keeps what its one write keeps.\<close>

context server_invariant
begin

lemma report_loop_keeps:
  assumes "\<And>i. keeps I (notified_stmt i now)" and "I s"
    and "report_loop do_request baseURL sealer now failing n s h = (n', e, s', h')"
  shows "I s'"
  using assms(2,3)
proof (induction failing arbitrary: n s h)
  case (Cons a failing)
  have sent: "I s1" if "send do_request baseURL sealer (failing_userID a) (alert_message a) s h = (r, s1, h1)" for r s1 h1
  proof -
    obtain d s0 where d: "TelegramDelivery sealer (failing_userID a) s = (d, s0)"
      by (cases "TelegramDelivery sealer (failing_userID a) s")
    have "I s0" by (rule keeps_step [OF keeps_reads [OF reads_TelegramDelivery] Cons.prems(1) d])
    then show ?thesis
      using that by (auto simp: send_def d split: prod.splits option.splits sum.splits if_splits)
  qed
  have marked: "I s2" if "I s1" "pool_call (notified_stmt (failing_id a) now) s1 = (r, s2)" for s1 r s2
    using keeps_step [OF keeps_pool [OF assms(1)]] that by blast
  show ?case
    using Cons.prems(2) Cons.IH sent marked by (fastforce split: prod.splits option.splits sum.splits)
qed simp

lemma notifier_keeps:
  assumes "\<And>i. keeps I (notified_stmt i now)" and "I s"
    and "Notifier_RunOnce do_request baseURL sealer now s h = (n, e, s', h')"
  shows "I s'"
proof -
  obtain r s1 where q: "pool_call (query failing_rows) s = (r, s1)" by (cases "pool_call (query failing_rows) s")
  have "I s1" by (rule keeps_step [OF keeps_reads [OF reads_query] assms(2) q])
  then show ?thesis
    using assms(3) report_loop_keeps [OF assms(1)] by (auto simp: Notifier_RunOnce_def q split: sum.splits)
qed

end

locale all_statements_keep = statements_keep +
  assumes later: "I s \<Longrightarrow> tables s' = tables s \<Longrightarrow> serial s \<le> serial s' \<Longrightarrow> I s'"
    and schedule_run: "status \<in> {RunPending, RunMissed} \<Longrightarrow>
      keeps I (insert_run pg userID agentID (Some scheduleID) TriggerSchedule status t)"
    and advance: "keeps I (advance_schedule i fireAt nextFireAt wall)"
    and pick: "keeps I (pick_stmt u t)"
    and start: "keeps I (exec (\<lambda>d. d\<lparr>runs := update_where (\<lambda>r. r_id r = u) (start_row t) (runs d)\<rparr>))"
    and finish: "status \<in> {RunSucceeded, RunFailed, RunBudgetExceeded} \<Longrightarrow>
      keeps I (exec (\<lambda>d. d\<lparr>runs := update_where (\<lambda>r. r_id r = u) (finish_row status t req) (runs d)\<rparr>))"
    and outcomes_kept: "keeps I (exec (\<lambda>d. d\<lparr>agents := update_where (owns_run d u) clear_failures (agents d)\<rparr>))"
      "keeps I (exec (\<lambda>d. d\<lparr>agents := update_where (owns_run d u) count_failure (agents d)\<rparr>))"
    and renew: "keeps I (renew_stmt u t)"
    and reap: "keeps I (reap_stmt t)"
    and notified: "keeps I (notified_stmt u t)"
    and prompt: "keeps I (exec (\<lambda>d. d\<lparr>runs := update_where (\<lambda>r. r_id r = u) (\<lambda>r. r\<lparr>r_rendered_prompt := prompt\<rparr>) (runs d)\<rparr>))"
    and record_step: "keeps I (insert_step pg runID k step)"
    and insert_memory: "keeps I (insert_memory pg userID agentID ns key content)"
    and prune: "keeps I (exec (prune_namespace userID ns))"
    and password: "I s \<Longrightarrow> I (s\<lparr>tables := set_hash userID hash (tables s)\<rparr>)"

section \<open>Transactions\<close>

text \<open>
  Inside a transaction both ends are sound: the tables as they stand, which a commit keeps, and
  the tables as they were, which a rollback brings back under the identifiers used since.
\<close>

definition tx_holds :: "(server \<Rightarrow> bool) \<Rightarrow> tx \<Rightarrow> server \<Rightarrow> bool" where
  "tx_holds I t s \<longleftrightarrow> I s \<and> I (Rollback t s)"

context all_statements_keep
begin

lemma Rollback_later:
  assumes "I (Rollback t s)" and "serial s \<le> serial s'" and "tx_saved t' = tx_saved t"
  shows "I (Rollback t' s')"
  using assms(2,3) by (intro later [OF assms(1)]) (simp_all add: Rollback_def)

lemma Begin_holds:
  assumes "I s" and "Begin s = (r, s')"
  shows "I s' \<and> (\<forall>t. r = Inr t \<longrightarrow> tx_holds I t s')"
  using assms
  by (auto simp: Begin_def pool_call_def tx_holds_def Rollback_def dest!: next_outcome_D split: prod.splits outcome.splits
      elim!: later)

lemma tx_call_holds:
  assumes "tx_holds I t s" and "tx_call q t s = (r, t', s')"
    and "keeps I q" and "\<And>s. serial s \<le> serial (snd (q s))"
  shows "tx_holds I t' s'"
proof -
  obtain out s1 where out: "next_outcome s = (out, s1)" by (cases "next_outcome s")
  note same = next_outcome_D [OF out]
  have s1: "I s1" using assms(1) same later by (auto simp: tx_holds_def)
  have "s' \<in> {s, s1, snd (q s1)}"
    using assms(2) by (auto simp: tx_call_def out split: if_splits outcome.splits prod.splits sum.splits)
  with assms(1,3) s1 have "I s'" by (auto simp: tx_holds_def keeps_def)
  moreover have "serial s \<le> serial s'"
    using \<open>s' \<in> _\<close> assms(4) [of s1] same by auto
  then have "I (Rollback t' s')"
    using assms(1) tx_call_saved_D [OF assms(2)] by (auto simp: tx_holds_def intro: Rollback_later)
  ultimately show ?thesis by (simp add: tx_holds_def)
qed

lemma Commit_holds:
  assumes "tx_holds I t s" and "Commit t s = (r, s')"
  shows "I s'"
proof -
  obtain out s1 where out: "next_outcome s = (out, s1)" by (cases "next_outcome s")
  have "I s1 \<and> I (Rollback t s1)"
    using assms(1) next_outcome_D [OF out] later Rollback_later [of t s s1 t] by (auto simp: tx_holds_def)
  with assms show ?thesis by (auto simp: tx_holds_def Commit_def out split: if_splits outcome.splits)
qed

lemma tx_query_holds:
  assumes "tx_holds I t s" and "tx_call (query f) t s = (r, t', s')" shows "tx_holds I t' s'"
  by (rule tx_call_holds [OF assms]) (simp_all add: query_def keeps_def)



lemma materialize_loop_holds:
  assumes "tx_holds I t s" and "materialize_loop pg env now items n t s = (r, t', s')"
  shows "tx_holds I t' s'"
  using assms
proof (induction items arbitrary: n t s)
  case (Cons item items)
  show ?case
  proof (cases "Parse env (due_expression item) (due_timezone item)")
    case (Inl e)
    with Cons show ?thesis by simp
  next
    case (Inr spec)
    obtain f x m where res: "resolveFireTimes spec item now = (f, x, m)" by (rule prod_cases3)
    let ?ins = "insert_run pg (due_userID item) (due_agentID item) (Some (due_id item)) TriggerSchedule
        (if m then RunMissed else RunPending) f"
    let ?adv = "advance_schedule (due_id item) f x (WallClock spec f)"
    obtain r1 t1 s1 where ins: "tx_call ?ins t s = (r1, t1, s1)" by (rule prod_cases3)
    obtain r2 t2 s2 where adv: "tx_call ?adv t1 s1 = (r2, t2, s2)" by (rule prod_cases3)
    have "tx_holds I t1 s1"
      by (rule tx_call_holds [OF Cons.prems(1) ins]) (simp_all add: schedule_run, simp_all add: insert_run_def Let_def)
    moreover from this have "tx_holds I t2 s2"
      by (rule tx_call_holds [OF _ adv]) (simp add: advance, simp add: advance_schedule_def exec_def)
    ultimately show ?thesis
      using Cons.prems(2) Cons.IH by (auto simp: Inr res ins adv split: sum.splits)
  qed
qed simp

lemma materializer_keeps: "keeps I (Materializer_RunOnce pg env locked now)"
proof (rule keepsI)
  fix s assume wf: "I s"
  obtain rb s1 where b: "Begin s = (rb, s1)" by (cases "Begin s")
  show "I (snd (Materializer_RunOnce pg env locked now s))"
  proof (cases rb)
    case (Inr t)
    obtain rq t2 s2 where q: "tx_call (query (due_schedules locked now)) t s1 = (rq, t2, s2)" by (rule prod_cases3)
    have t2: "tx_holds I t2 s2" using tx_query_holds [OF _ q] Begin_holds [OF wf b] Inr by simp
    show ?thesis
    proof (cases rq)
      case (Inl e)
      then show ?thesis using t2 b q Inr by (simp add: Materializer_RunOnce_def tx_holds_def)
    next
      case (Inr due)
      obtain rl t3 s3 where l: "materialize_loop pg env now due 0 t2 s2 = (rl, t3, s3)" by (rule prod_cases3)
      obtain rc s4 where c: "Commit t3 s3 = (rc, s4)" by (cases "Commit t3 s3")
      have "tx_holds I t3 s3" by (rule materialize_loop_holds [OF t2 l])
      then have "I s4 \<and> I (Rollback t3 s3)" using Commit_holds [OF _ c] by (simp add: tx_holds_def)
      then show ?thesis
        by (simp add: Materializer_RunOnce_def b \<open>rb = _\<close> q Inr l c split: sum.split)
    qed
  qed (use Begin_holds [OF wf b] b in \<open>simp add: Materializer_RunOnce_def\<close>)
qed

lemma dispatch_loop_holds:
  assumes "tx_holds I t s" and "dispatch_loop submit now pending t s c w = (t', s', c', w')"
  shows "tx_holds I t' s'"
  using assms
proof (induction pending arbitrary: t s c w)
  case (Cons run pending)
  obtain r t1 s1 where p: "tx_call (pick_stmt (RunRequest_RunId run) now) t s = (r, t1, s1)" by (rule prod_cases3)
  have "tx_holds I t1 s1"
    by (rule tx_call_holds [OF Cons.prems(1) p]) (simp add: pick, simp add: pick_stmt_def exec_def)
  then show ?case
    using Cons.prems Cons.IH by (auto simp: p split: prod.splits sum.splits if_splits)
qed simp

lemma dispatch_keeps:
  assumes wf: "I s" and run: "dispatchPendingRuns submit locked now s c w = (s', c', w')"
  shows "I s'"
proof -
  obtain rb s1 where b: "Begin s = (rb, s1)" by (cases "Begin s")
  show ?thesis
  proof (cases rb)
    case (Inr t)
    obtain rq t2 s2 where q: "tx_call (query (pending_rows locked now)) t s1 = (rq, t2, s2)" by (rule prod_cases3)
    have t2: "tx_holds I t2 s2" using tx_query_holds [OF _ q] Begin_holds [OF wf b] Inr by simp
    show ?thesis
    proof (cases rq)
      case (Inl e)
      then show ?thesis using t2 run b q Inr by (simp add: dispatchPendingRuns_def tx_holds_def)
    next
      case (Inr rows)
      obtain t3 s3 c3 w3 where l: "dispatch_loop submit now (map run_request rows) t2 s2 c w = (t3, s3, c3, w3)"
        by (rule prod_cases4)
      obtain rc s4 where c: "Commit t3 s3 = (rc, s4)" by (cases "Commit t3 s3")
      have "I s4" by (rule Commit_holds [OF dispatch_loop_holds [OF t2 l] c])
      then show ?thesis using run by (simp add: dispatchPendingRuns_def b \<open>rb = _\<close> q Inr l c)
    qed
  qed (use run Begin_holds [OF wf b] b in \<open>simp add: dispatchPendingRuns_def\<close>)
qed

lemma reports_keep:
  "keeps I (UpdateRunStatus pg now req)" "keeps I (RenewLease pg now runID)"
  "keeps I (Reaper_RunOnce now)"
proof -
  have "keeps I (recordAgentOutcome pg i b)" for i b
    unfolding recordAgentOutcome_eq
    by (cases b) (simp_all add: keeps_pool keeps_uuid outcomes_kept)
  then have finished: "keeps I (\<lambda>s. case pool_call (finish_stmt pg (reported_status (Update_Status req)) now req) s of
      (Inl e, s1) \<Rightarrow> (Inl e, s1)
    | (Inr _, s1) \<Rightarrow>
        (case recordAgentOutcome pg (Update_RunId req) (reported_status (Update_Status req) = RunSucceeded) s1 of
           (Inl e, s2) \<Rightarrow> (Inl e, s2) | (Inr _, s2) \<Rightarrow> (Inr True, s2)))"
    unfolding finish_stmt_def
    by (intro keeps_bind keeps_pool keeps_uuid finish) (auto simp: reported_status_def keeps_def)
  have started: "keeps I (\<lambda>s. case pool_call (start_stmt pg (Update_RunId req) now) s of
      (Inl e, s1) \<Rightarrow> (Inl e, s1) | (Inr _, s1) \<Rightarrow> (Inr True, s1))"
    unfolding start_stmt_def
    by (intro keeps_bind keeps_pool keeps_uuid start) (simp_all add: keeps_def)
  show "keeps I (UpdateRunStatus pg now req)"
    using started finished unfolding UpdateRunStatus_def Let_def keeps_def by simp
  show "keeps I (RenewLease pg now runID)"
    unfolding RenewLease_def
    by (intro keeps_bind keeps_pool keeps_uuid renew) (simp_all add: keeps_def)
  show "keeps I (Reaper_RunOnce now)"
    unfolding Reaper_RunOnce_def by (intro keeps_pool reap)
qed



lemma executor_writes_keep:
  "keeps I (SetRenderedPrompt pg runID prompt)" "keeps I (StepStore_Record pg runID k step)"
  "keeps I (MemoryStore_Write pg userID agentID ns key content)"
proof -
  show "keeps I (SetRenderedPrompt pg runID prompt)"
    unfolding SetRenderedPrompt_def by (intro keeps_pool keeps_uuid prompt)
  show "keeps I (StepStore_Record pg runID k step)"
    unfolding StepStore_Record_def by (intro keeps_pool keeps_uuid record_step)
  have "keeps I (\<lambda>s. case pool_call (with_uuid pg agentID (\<lambda>u. insert_memory pg userID u ns key content)) s of
      (Inl e, s1) \<Rightarrow> (Inl (translateNoRows e), s1)
    | (Inr row, s1) \<Rightarrow> (case pool_call (exec (prune_namespace userID ns)) s1 of
           (Inl e, s2) \<Rightarrow> (Inl e, s2) | (Inr _, s2) \<Rightarrow> (Inr (scanMemoryRecord row), s2)))"
    by (intro keeps_bind keeps_pool keeps_uuid insert_memory prune) (simp_all add: keeps_def)
  then show "keeps I (MemoryStore_Write pg userID agentID ns key content)"
    by (simp add: MemoryStore_Write_def keeps_def)
qed

lemma EnsurePassword_keeps_inv: "I s \<Longrightarrow> I (snd (snd (EnsurePassword b userID pw rng s)))"
proof -
  assume s: "I s"
  obtain r s1 where sel: "select_hash userID s = (r, s1)" by (cases "select_hash userID s")
  have "keeps I (select_hash userID)"
    unfolding select_hash_def by (intro keeps_reads reads_case reads_query_row) simp
  then have s1: "I s1" using s sel by (rule keeps_step)
  have "I (snd (pool_call (exec (set_hash userID hash)) s1))" for hash
    by (rule keepsD [OF keeps_exec s1]) (rule password)
  with s1 show ?thesis
    by (auto simp: EnsurePassword_def sel case_prod_unfold split: sum.split)
qed

lemmas notifier_keeps_inv = notifier_keeps [OF notified]

end

end
