(* ===== verification/Integrity.thy ===== *)
theory Integrity
  imports Database_Invariants
begin

text \<open>
  The integrity of the database under everything the services do to it: keys, references,
  statuses, the identifiers still to be generated, and the life of a run.
\<close>

section \<open>The invariant\<close>

text \<open>
  The row of a run that is pending or was missed has none of the marks of a run under way or
  ended. (Its prompt and its steps may be there: a worker that accepted it executes it even when
  the dispatch that offered it was rolled back.) A run that ended says when. No part of the program ever
  cancels a run.
\<close>

definition untouched :: "run_row \<Rightarrow> bool" where
  "untouched r \<longleftrightarrow> r_picked_at r = None \<and> r_started_at r = None \<and> r_finished_at r = None \<and>
     r_lease_expires_at r = None \<and> r_output r = [] \<and> r_error r = [] \<and> r_prompt_tokens r = 0 \<and> r_completion_tokens r = 0"

definition run_ok :: "run_row \<Rightarrow> bool" where
  "run_ok r \<longleftrightarrow>
     r_status r \<noteq> RunCancelled \<and>
     (r_status r \<in> {RunPending, RunMissed} \<longrightarrow> untouched r) \<and>
     (r_status r \<in> {RunSucceeded, RunFailed, RunBudgetExceeded} \<longrightarrow> r_finished_at r \<noteq> None)"

definition all_ids :: "database \<Rightarrow> string set" where
  "all_ids d = ag_id ` set (agents d) \<union> sch_id ` set (schedules d) \<union> r_id ` set (runs d) \<union> st_id ` set (run_steps d) \<union>
     mem_id ` set (memory_records d) \<union> sec_id ` set (secrets d)"

definition server_wf :: "postgres \<Rightarrow> server \<Rightarrow> bool" where
  "server_wf pg s \<longleftrightarrow> db_wf (tables s) \<and> (\<forall>r \<in> set (runs (tables s)). run_ok r) \<and>
     inj_on (uuid_v4 pg) {serial s..} \<and> (\<forall>n \<ge> serial s. uuid_v4 pg n \<notin> all_ids (tables s))"

lemma server_wf_blind [simp]: "server_wf pg (s\<lparr>outcomes := os\<rparr>) = server_wf pg s"
  by (simp add: server_wf_def)

interpretation wf: server_invariant "server_wf pg" for pg
  by unfold_locales simp

lemma server_wf_update:
  assumes "server_wf pg s" and "db_wf d" and "\<forall>r \<in> set (runs d). run_ok r" and "all_ids d \<subseteq> all_ids (tables s)"
  shows "server_wf pg (s\<lparr>tables := d\<rparr>)"
  using assms by (auto simp: server_wf_def)

lemma server_wf_insert:
  assumes "server_wf pg s" and "db_wf d" and "\<forall>r \<in> set (runs d). run_ok r"
    and "all_ids d \<subseteq> insert (uuid_v4 pg (serial s)) (all_ids (tables s))"
  shows "server_wf pg (s\<lparr>serial := Suc (serial s), tables := d\<rparr>)"
proof -
  have "uuid_v4 pg n \<noteq> uuid_v4 pg (serial s)" if "Suc (serial s) \<le> n" for n
    using assms(1) that by (auto simp: server_wf_def dest: inj_onD)
  moreover have "inj_on (uuid_v4 pg) {Suc (serial s)..}"
    using assms(1) by (auto simp: server_wf_def elim: inj_on_subset)
  ultimately show ?thesis using assms by (fastforce simp: server_wf_def)
qed

lemma fresh_id:
  assumes "server_wf pg s"
  shows "uuid_v4 pg (serial s) \<notin> ag_id ` set (agents (tables s))" "uuid_v4 pg (serial s) \<notin> sch_id ` set (schedules (tables s))"
    "uuid_v4 pg (serial s) \<notin> r_id ` set (runs (tables s))" "uuid_v4 pg (serial s) \<notin> st_id ` set (run_steps (tables s))"
    "uuid_v4 pg (serial s) \<notin> mem_id ` set (memory_records (tables s))" "uuid_v4 pg (serial s) \<notin> sec_id ` set (secrets (tables s))"
  using assms by (auto simp: server_wf_def all_ids_def)

section \<open>Updates of a table's rows\<close>

lemma runs_update_wf:
  assumes "server_wf pg s"
    and "\<And>r. p r \<Longrightarrow> r_id (f r) = r_id r \<and> r_user_id (f r) = r_user_id r \<and> r_agent_id (f r) = r_agent_id r \<and>
      r_schedule_id (f r) = r_schedule_id r"
    and "\<And>r. p r \<Longrightarrow> run_ok r \<Longrightarrow> r_status r \<in> run_statuses \<Longrightarrow> run_ok (f r) \<and> r_status (f r) \<in> run_statuses"
  shows "server_wf pg (s\<lparr>tables := (tables s)\<lparr>runs := update_where p f (runs (tables s))\<rparr>\<rparr>)"
proof (rule server_wf_update [OF assms(1)])
  let ?rs = "runs (tables s)"
  have maps: "map r_id (update_where p f ?rs) = map r_id ?rs" "map r_user_id (update_where p f ?rs) = map r_user_id ?rs"
    "map r_agent_id (update_where p f ?rs) = map r_agent_id ?rs" "map r_schedule_id (update_where p f ?rs) = map r_schedule_id ?rs"
    using assms(2) by (auto intro!: map_update_where)
  have ok: "run_ok r" "r_status r \<in> run_statuses" if "r \<in> set ?rs" for r
    using assms(1) that by (auto simp: server_wf_def db_wf_def)
  then have "set (map r_status (update_where p f ?rs)) \<subseteq> run_statuses"
    using assms(3) by (auto simp: set_update_where)
  with assms(1) maps show "db_wf ((tables s)\<lparr>runs := update_where p f ?rs\<rparr>)"
    by (simp add: server_wf_def db_wf_defs del: set_map)
  show "\<forall>r \<in> set (runs ((tables s)\<lparr>runs := update_where p f ?rs\<rparr>)). run_ok r"
    using ok assms(3) by (auto simp: set_update_where)
  show "all_ids ((tables s)\<lparr>runs := update_where p f ?rs\<rparr>) \<subseteq> all_ids (tables s)"
    using arg_cong [OF maps(1), of set] by (auto simp: all_ids_def)
qed

text \<open>An update of another table that leaves the keys and references of its rows alone.\<close>

lemma server_wf_keeping:
  assumes "server_wf pg s" and "db_wf (tables s) \<Longrightarrow> db_wf d" and "runs d = runs (tables s)"
    and "all_ids d = all_ids (tables s)"
  shows "server_wf pg (s\<lparr>tables := d\<rparr>)"
  using assms by (auto simp: server_wf_def)

lemma agents_update_wf:
  assumes "server_wf pg s" and "\<And>a. p a \<Longrightarrow> ag_id (f a) = ag_id a \<and> ag_user_id (f a) = ag_user_id a"
  shows "server_wf pg (s\<lparr>tables := (tables s)\<lparr>agents := update_where p f (agents (tables s))\<rparr>\<rparr>)"
proof (rule server_wf_keeping [OF assms(1)])
  have maps: "map ag_id (update_where p f as) = map ag_id as" "map ag_user_id (update_where p f as) = map ag_user_id as" for as
    using assms(2) by (auto intro!: map_update_where)
  then show "db_wf (tables s) \<Longrightarrow> db_wf ((tables s)\<lparr>agents := update_where p f (agents (tables s))\<rparr>)"
    by (simp add: db_wf_defs del: set_map)
  show "all_ids ((tables s)\<lparr>agents := update_where p f (agents (tables s))\<rparr>) = all_ids (tables s)"
    using arg_cong [OF maps(1), of set] by (simp add: all_ids_def)
qed simp

lemma schedules_update_wf:
  assumes "server_wf pg s"
    and "\<And>x. p x \<Longrightarrow> sch_id (f x) = sch_id x \<and> sch_user_id (f x) = sch_user_id x \<and> sch_agent_id (f x) = sch_agent_id x"
  shows "server_wf pg (s\<lparr>tables := (tables s)\<lparr>schedules := update_where p f (schedules (tables s))\<rparr>\<rparr>)"
proof (rule server_wf_keeping [OF assms(1)])
  have maps: "map sch_id (update_where p f xs) = map sch_id xs" "map sch_user_id (update_where p f xs) = map sch_user_id xs"
    "map sch_agent_id (update_where p f xs) = map sch_agent_id xs"
    "map (\<lambda>x. Some (sch_id x)) (update_where p f xs) = map (\<lambda>x. Some (sch_id x)) xs" for xs
    using assms(2) by (auto intro!: map_update_where)
  then show "db_wf (tables s) \<Longrightarrow> db_wf ((tables s)\<lparr>schedules := update_where p f (schedules (tables s))\<rparr>)"
    by (simp add: db_wf_defs del: set_map)
  show "all_ids ((tables s)\<lparr>schedules := update_where p f (schedules (tables s))\<rparr>) = all_ids (tables s)"
    using arg_cong [OF maps(1), of set] by (simp add: all_ids_def)
qed simp

lemma users_update_wf:
  assumes "server_wf pg s" and "\<And>u. p u \<Longrightarrow> usr_id (f u) = usr_id u"
  shows "server_wf pg (s\<lparr>tables := (tables s)\<lparr>users := update_where p f (users (tables s))\<rparr>\<rparr>)"
proof (rule server_wf_keeping [OF assms(1)])
  have "map usr_id (update_where p f (users (tables s))) = map usr_id (users (tables s))"
    using assms(2) by (auto intro!: map_update_where)
  then show "db_wf (tables s) \<Longrightarrow> db_wf ((tables s)\<lparr>users := update_where p f (users (tables s))\<rparr>)"
    by (simp add: db_wf_defs del: set_map)
qed (simp_all add: all_ids_def)

lemma secrets_update_wf:
  assumes "server_wf pg s" and "\<And>c. p c \<Longrightarrow> sec_id (f c) = sec_id c \<and> sec_user_id (f c) = sec_user_id c \<and> sec_name (f c) = sec_name c"
  shows "server_wf pg (s\<lparr>tables := (tables s)\<lparr>secrets := update_where p f (secrets (tables s))\<rparr>\<rparr>)"
proof (rule server_wf_keeping [OF assms(1)])
  have maps: "map sec_id (update_where p f cs) = map sec_id cs" "map sec_user_id (update_where p f cs) = map sec_user_id cs"
    "map (\<lambda>c. (sec_user_id c, sec_name c)) (update_where p f cs) = map (\<lambda>c. (sec_user_id c, sec_name c)) cs" for cs
    using assms(2) by (auto intro!: map_update_where)
  then show "db_wf (tables s) \<Longrightarrow> db_wf ((tables s)\<lparr>secrets := update_where p f (secrets (tables s))\<rparr>)"
    by (simp add: db_wf_defs del: set_map)
  show "all_ids ((tables s)\<lparr>secrets := update_where p f (secrets (tables s))\<rparr>) = all_ids (tables s)"
    using arg_cong [OF maps(1), of set] by (simp add: all_ids_def)
qed simp

text \<open>Deleting rows nothing refers to.\<close>

lemma leaf_delete_wf:
  assumes "server_wf pg s"
  shows "server_wf pg (s\<lparr>tables := (tables s)\<lparr>memory_records := delete_where p (memory_records (tables s))\<rparr>\<rparr>)"
    "server_wf pg (s\<lparr>tables := (tables s)\<lparr>secrets := delete_where q (secrets (tables s))\<rparr>\<rparr>)"
    "server_wf pg (s\<lparr>tables := (tables s)\<lparr>sessions := delete_where w (sessions (tables s))\<rparr>\<rparr>)"
  using assms
  by (auto intro!: server_wf_update simp: server_wf_def db_wf_defs all_ids_def distinct_map_delete_where)

lemma run_ok_forget [simp]: "run_ok (r\<lparr>r_schedule_id := i\<rparr>) = run_ok r"
  by (simp add: run_ok_def untouched_def)

lemma forget_schedules_server:
  assumes "server_wf pg s"
  shows "server_wf pg (s\<lparr>tables := forget_schedules p (tables s)\<rparr>)"
proof (rule server_wf_update [OF assms])
  show "db_wf (forget_schedules p (tables s))"
    using assms by (intro forget_schedules_wf) (simp add: server_wf_def)
  show "\<forall>r \<in> set (runs (forget_schedules p (tables s))). run_ok r"
    using assms by (simp add: server_wf_def forget_schedules_def ball_update_where)
  have "map r_id (runs (forget_schedules p (tables s))) = map r_id (runs (tables s))"
    by (simp add: forget_schedules_def map_update_where)
  from arg_cong [OF this, of set] show "all_ids (forget_schedules p (tables s)) \<subseteq> all_ids (tables s)"
    by (simp add: all_ids_def) (auto simp: forget_schedules_def)
qed

lemma cascade_agents_server:
  assumes "server_wf pg s"
  shows "server_wf pg (s\<lparr>tables := cascade_agents p (tables s)\<rparr>)"
proof (rule server_wf_update [OF assms])
  show "db_wf (cascade_agents p (tables s))"
    using assms by (intro cascade_agents_wf) (simp add: server_wf_def)
  show "\<forall>r \<in> set (runs (cascade_agents p (tables s))). run_ok r"
    using assms by (simp add: server_wf_def cascade_agents_def forget_schedules_def cascade_runs_def Let_def ball_update_where)
  have "r_id ` set (runs (cascade_agents p (tables s))) \<subseteq> r_id ` set (runs (tables s))"
    using arg_cong [OF cascade_agents_fields(5), of set p "tables s"] by auto
  then show "all_ids (cascade_agents p (tables s)) \<subseteq> all_ids (tables s)"
    by (simp add: all_ids_def cascade_agents_fields) blast
qed

section \<open>Rows added under a generated identifier\<close>

lemma db_wf_add:
  assumes "db_wf d"
  shows "ag_id a \<notin> ag_id ` set (agents d) \<Longrightarrow> ag_user_id a \<in> usr_id ` set (users d) \<Longrightarrow>
      db_wf (d\<lparr>agents := agents d @ [a]\<rparr>)"
    "sch_id x \<notin> sch_id ` set (schedules d) \<Longrightarrow> sch_user_id x \<in> usr_id ` set (users d) \<Longrightarrow>
      sch_agent_id x \<in> ag_id ` set (agents d) \<Longrightarrow> sch_agent_id x \<notin> sch_agent_id ` set (schedules d) \<Longrightarrow>
      db_wf (d\<lparr>schedules := schedules d @ [x]\<rparr>)"
    "r_id r \<notin> r_id ` set (runs d) \<Longrightarrow> r_user_id r \<in> usr_id ` set (users d) \<Longrightarrow> r_agent_id r \<in> ag_id ` set (agents d) \<Longrightarrow>
      r_schedule_id r \<in> insert None ((\<lambda>x. Some (sch_id x)) ` set (schedules d)) \<Longrightarrow> r_status r \<in> run_statuses \<Longrightarrow>
      db_wf (d\<lparr>runs := runs d @ [r]\<rparr>)"
    "st_id t \<notin> st_id ` set (run_steps d) \<Longrightarrow> st_run_id t \<in> r_id ` set (runs d) \<Longrightarrow>
      (st_run_id t, st_step_index t) \<notin> (\<lambda>t. (st_run_id t, st_step_index t)) ` set (run_steps d) \<Longrightarrow>
      db_wf (d\<lparr>run_steps := run_steps d @ [t]\<rparr>)"
    "mem_id m \<notin> mem_id ` set (memory_records d) \<Longrightarrow> mem_user_id m \<in> usr_id ` set (users d) \<Longrightarrow>
      mem_agent_id m \<in> ag_id ` set (agents d) \<Longrightarrow> db_wf (d\<lparr>memory_records := memory_records d @ [m]\<rparr>)"
    "sec_id c \<notin> sec_id ` set (secrets d) \<Longrightarrow> sec_user_id c \<in> usr_id ` set (users d) \<Longrightarrow>
      (sec_user_id c, sec_name c) \<notin> (\<lambda>c. (sec_user_id c, sec_name c)) ` set (secrets d) \<Longrightarrow>
      db_wf (d\<lparr>secrets := secrets d @ [c]\<rparr>)"
    "ses_id y \<notin> ses_id ` set (sessions d) \<Longrightarrow> ses_user_id y \<in> usr_id ` set (users d) \<Longrightarrow>
      db_wf (d\<lparr>sessions := sessions d @ [y]\<rparr>)"
  using assms by (simp_all add: db_wf_defs subset_insertI2 insert_commute [of None])

lemma db_wf_of: "server_wf pg s \<Longrightarrow> db_wf (tables s)"
  by (simp add: server_wf_def)

lemma runs_ok_of: "server_wf pg s \<Longrightarrow> \<forall>r \<in> set (runs (tables s)). run_ok r"
  by (simp add: server_wf_def)

lemma agent_stmts_wf:
  "keeps (server_wf pg) (insert_agent pg userID agent)" "keeps (server_wf pg) (update_agent_stmt userID u agent)"
  "keeps (server_wf pg) (delete_agent_stmt userID u)"
  unfolding keeps_def
proof safe
  fix s assume wf: "server_wf pg s"
  show "server_wf pg (snd (insert_agent pg userID agent s))"
    using wf runs_ok_of [OF wf] fresh_id(1) [OF wf]
    by (auto simp: insert_agent_def Let_def set_agent_columns_def blank_agent_row_def all_ids_def
        intro!: server_wf_insert db_wf_add(1) db_wf_of)
  show "server_wf pg (snd (update_agent_stmt userID u agent s))"
    using wf by (auto simp: update_agent_stmt_def update_agent_row_def set_agent_columns_def intro!: agents_update_wf)
  show "server_wf pg (snd (delete_agent_stmt userID u s))"
    using wf by (simp add: delete_agent_stmt_def cascade_agents_server)
qed

lemma schedule_stmts_wf:
  "keeps (server_wf pg) (upsert_schedule pg userID u schedule t w)" "keeps (server_wf pg) (delete_schedule_stmt userID u)"
  "keeps (server_wf pg) (advance_schedule i fireAt nextFireAt wall)"
  unfolding keeps_def
proof safe
  fix s assume wf: "server_wf pg s"
  have none: "filter (\<lambda>x. sch_agent_id x = u) (schedules (tables s)) = [] \<Longrightarrow> u \<notin> sch_agent_id ` set (schedules (tables s))"
    by (auto simp: filter_empty_conv)
  show "server_wf pg (snd (upsert_schedule pg userID u schedule t w s))"
    using wf runs_ok_of [OF wf] fresh_id(2) [OF wf] none
    by (auto simp: upsert_schedule_def Let_def set_schedule_columns_def all_ids_def split: list.split
        intro!: server_wf_insert db_wf_add(2) db_wf_of schedules_update_wf)
  show "server_wf pg (snd (delete_schedule_stmt userID u s))"
    using wf by (simp add: delete_schedule_stmt_def forget_schedules_server)
  show "server_wf pg (snd (advance_schedule i fireAt nextFireAt wall s))"
    using wf by (auto simp: advance_schedule_def exec_def advance_row_def intro!: schedules_update_wf)
qed

lemma insert_run_wf:
  assumes "status \<in> {RunPending, RunMissed}"
  shows "keeps (server_wf pg) (insert_run pg userID agentID scheduleID trigger status scheduledFor)"
proof (rule keepsI)
  fix s assume wf: "server_wf pg s"
  have ref: "set_option scheduleID \<subseteq> sch_id ` set (schedules (tables s)) \<Longrightarrow>
      scheduleID \<in> insert None ((\<lambda>x. Some (sch_id x)) ` set (schedules (tables s)))"
    by (cases scheduleID) auto
  have ok: "run_ok (new_run_row i userID agentID scheduleID trigger status scheduledFor created)" for i created
    using assms by (auto simp: run_ok_def untouched_def new_run_row_def status_defs)
  show "server_wf pg (snd (insert_run pg userID agentID scheduleID trigger status scheduledFor s))"
    using wf runs_ok_of [OF wf] fresh_id(3) [OF wf] assms ok ref
    by (auto simp: insert_run_def Let_def all_ids_def run_statuses_def new_run_row_def
        intro!: server_wf_insert db_wf_add(3) db_wf_of)
qed


lemma update_runs_wf:
  "keeps (server_wf pg) (mark_read_stmt userID u t)" "keeps (server_wf pg) (renew_stmt u t)"
  "keeps (server_wf pg) (exec (\<lambda>d. d\<lparr>runs := update_where (\<lambda>r. r_id r = u) (\<lambda>r. r\<lparr>r_rendered_prompt := prompt\<rparr>) (runs d)\<rparr>))"
  "keeps (server_wf pg) (pick_stmt u t)" 
  "keeps (server_wf pg) (exec (\<lambda>d. d\<lparr>runs := update_where (\<lambda>r. r_id r = u) (start_row t) (runs d)\<rparr>))"
  "status \<in> {RunSucceeded, RunFailed, RunBudgetExceeded} \<Longrightarrow>
     keeps (server_wf pg) (exec (\<lambda>d. d\<lparr>runs := update_where (\<lambda>r. r_id r = u) (finish_row status t req) (runs d)\<rparr>))"
  unfolding keeps_def mark_read_stmt_def renew_stmt_def pick_stmt_def exec_def Let_def
  by (auto intro!: runs_update_wf simp: run_ok_def untouched_def run_statuses_def start_row_def finish_row_def renew_row_def
      pick_row_def status_defs)

lemma update_agents_wf:
  "keeps (server_wf pg) (exec (\<lambda>d. d\<lparr>agents := update_where (p d) clear_failures (agents d)\<rparr>))"
  "keeps (server_wf pg) (exec (\<lambda>d. d\<lparr>agents := update_where (p d) count_failure (agents d)\<rparr>))"
  "keeps (server_wf pg) (notified_stmt i t)"
  unfolding keeps_def notified_stmt_def exec_def
  by (auto intro!: agents_update_wf simp: clear_failures_def count_failure_def notified_row_def)

lemma reap_wf: "keeps (server_wf pg) (reap_stmt t)"
proof (rule keepsI)
  fix s assume wf: "server_wf pg s"
  let ?s = "s\<lparr>tables := (tables s)\<lparr>runs := update_where (lease_expired t) (reap_row t) (runs (tables s))\<rparr>\<rparr>"
  have "server_wf pg ?s"
    using wf by (auto intro!: runs_update_wf simp: run_ok_def reap_row_def run_statuses_def status_defs)
  from agents_update_wf [OF this, of "\<lambda>a. ag_id a \<in> r_agent_id ` set (filter (lease_expired t) (runs (tables s)))" count_failure]
  show "server_wf pg (snd (reap_stmt t s))" by (simp add: reap_stmt_def Let_def count_failure_def)
qed

lemma other_stmts_wf:
  "keeps (server_wf pg) (insert_step pg runID k step)" "keeps (server_wf pg) (insert_memory pg userID agentID ns key content)"
  "keeps (server_wf pg) (exec (prune_namespace userID ns))" "keeps (server_wf pg) (delete_memory_stmt userID u)"
  "keeps (server_wf pg) (upsert_secret pg userID name v k' m)" "keeps (server_wf pg) (delete_secret_stmt userID name)"
  "keeps (server_wf pg) (insert_session token userID t)"
  unfolding keeps_def
proof safe
  fix s assume wf: "server_wf pg s"
  note wfs = wf db_wf_of [OF wf] runs_ok_of [OF wf]
  show "server_wf pg (snd (insert_step pg runID k step s))"
    using wfs fresh_id(4) [OF wf]
    by (auto simp: insert_step_def new_step_row_def all_ids_def intro!: server_wf_insert db_wf_add(4))
  show "server_wf pg (snd (insert_memory pg userID agentID ns key content s))"
    using wfs fresh_id(5) [OF wf]
    by (auto simp: insert_memory_def Let_def all_ids_def split: option.split intro!: server_wf_insert db_wf_add(5))
  show "server_wf pg (snd (exec (prune_namespace userID ns) s))" "server_wf pg (snd (delete_memory_stmt userID u s))"
    "server_wf pg (snd (delete_secret_stmt userID name s))"
    using wf by (simp_all add: exec_def prune_namespace_def delete_memory_stmt_def delete_secret_stmt_def Let_def leaf_delete_wf)
  have "filter (names_secret userID name) (secrets (tables s)) = [] \<Longrightarrow>
      (userID, name) \<notin> (\<lambda>c. (sec_user_id c, sec_name c)) ` set (secrets (tables s))"
    by (auto simp: filter_empty_conv names_secret_def)
  then show "server_wf pg (snd (upsert_secret pg userID name v k' m s))"
    using wfs fresh_id(6) [OF wf]
    by (auto simp: upsert_secret_def Let_def all_ids_def split: list.split
        intro!: server_wf_insert db_wf_add(6) secrets_update_wf)
  show "server_wf pg (snd (insert_session token userID t s))"
    using wfs by (auto simp: insert_session_def all_ids_def intro!: server_wf_update db_wf_add(7))
qed


lemma server_wf_later:
  assumes "server_wf pg s" and "tables s' = tables s" and "serial s \<le> serial s'"
  shows "server_wf pg s'"
  using assms by (auto simp: server_wf_def intro: inj_on_subset)

section \<open>The invariant holds throughout\<close>

interpretation db_inv: all_statements_keep "server_wf pg" pg for pg
proof unfold_locales
  show "keeps (server_wf pg) (insert_run pg OwnerUserID u None TriggerManual RunPending t)" for u t
    by (rule insert_run_wf) simp
  show "keeps (server_wf pg) (mark_read_stmt OwnerUserID u t)" for u t by (rule update_runs_wf)
  show "server_wf pg s \<Longrightarrow> server_wf pg (s\<lparr>tables := (tables s)\<lparr>users :=
      update_where (\<lambda>x. usr_id x = OwnerUserID) (settings_row settings) (users (tables s))\<rparr>\<rparr>)" for s settings
    by (rule users_update_wf) (simp_all add: settings_row_def)
  show "server_wf pg s \<Longrightarrow> server_wf pg (s\<lparr>tables := set_hash userID hash (tables s)\<rparr>)" for s userID hash
    by (auto simp: set_hash_def intro: users_update_wf)
qed (simp_all add: agent_stmts_wf schedule_stmts_wf other_stmts_wf leaf_delete_wf insert_run_wf update_runs_wf update_agents_wf reap_wf
      server_wf_later)

end
