(* ===== verification/System.thy ===== *)
theory System
  imports Integrity
begin

text \<open>
  The services together: everything that writes to the database as steps of one system, what holds
  in every database it can reach, and that a coordinator's tick and a whole run of an agent are
  sequences of those steps.
\<close>

section \<open>The system\<close>

text \<open>
  The database after the migrations: the owner's row, made at the instant they ran, and nothing else.
\<close>

definition migrated_database :: "time \<Rightarrow> database" where
  "migrated_database created =
     \<lparr>users = [\<lparr>usr_id = OwnerUserID, usr_email = ''owner@localhost'', usr_password_hash = [],
        usr_created_at = created, usr_telegram_chat_id = [],
        usr_failure_alerts_enabled = True, usr_custom_providers = []\<rparr>],
      agents = [], schedules = [], runs = [], run_steps = [], memory_records = [], secrets = [], sessions = []\<rparr>"

text \<open>
  A step is a request the API answers, a part of a coordinator's tick, a worker's report or lease
  renewal, a write of an executor, the password set at start, or time passing (the database's
  clock moves, and how its next calls will end is settled anew). \<open>srv\<close> carries the parameters of
  the installation, \<open>submit\<close> is how the workers answer.
\<close>

inductive system_step :: "'h SchedulerServer \<Rightarrow> 'w submit \<Rightarrow> server \<Rightarrow> server \<Rightarrow> bool"
  for srv :: "'h SchedulerServer" and submit :: "'w submit" where
  request: "serve srv rq st = (reply, st') \<Longrightarrow> system_step srv submit (api_server st) (api_server st')"
| materialize: "system_step srv submit s (snd (Materializer_RunOnce (srv_pg srv) (srv_time srv) locked now s))"
| dispatch: "dispatchPendingRuns submit locked now s c w = (s', c', w') \<Longrightarrow> system_step srv submit s s'"
| reap: "system_step srv submit s (snd (Reaper_RunOnce now s))"
| alert: "Notifier_RunOnce (srv_http srv) baseURL (Some (srv_sealer srv)) now s h = (n, e, s', h') \<Longrightarrow> system_step srv submit s s'"
| report: "system_step srv submit s (snd (UpdateRunStatus (srv_pg srv) now req s))"
| renew: "system_step srv submit s (snd (RenewLease (srv_pg srv) now runID s))"
| prompt: "system_step srv submit s (snd (SetRenderedPrompt (srv_pg srv) runID prompt s))"
| record_step: "system_step srv submit s (snd (StepStore_Record (srv_pg srv) runID k step s))"
| remember: "system_step srv submit s (snd (MemoryStore_Write (srv_pg srv) userID agentID ns key content s))"
| password: "system_step srv submit s (snd (snd (EnsurePassword (srv_bcrypt srv) userID pw rng s)))"
| elapse: "system_step srv submit s (s\<lparr>outcomes := os, pg_now := t\<rparr>)"

inductive_cases system_stepE: "system_step srv submit s s'"

section \<open>The invariant\<close>

text \<open>What all statements keep, all steps keep.\<close>

context all_statements_keep
begin

lemma system_step_keeps:
  assumes "system_step srv submit s s'" and "installed srv" and "srv_pg srv = pg" and "I s"
  shows "I s'"
  using assms(1)
proof cases
  case (request rq st reply st')
  then show ?thesis using serve_keeps [OF assms(2,3) _ request(3)] assms(4) by simp
next
  case (elapse os t)
  then show ?thesis using assms(4) by (auto elim!: later)
qed (use assms(3,4) dispatch_keeps notifier_keeps_inv EnsurePassword_keeps_inv in
    \<open>auto simp: keepsD [OF materializer_keeps] reports_keep [THEN keepsD] executor_writes_keep [THEN keepsD]\<close>)

end

lemma system_step_wf:
  "system_step srv submit s s' \<Longrightarrow> installed srv \<Longrightarrow> server_wf (srv_pg srv) s \<Longrightarrow> server_wf (srv_pg srv) s'"
  by (rule db_inv.system_step_keeps [OF _ _ refl])

lemma migrated_wf: "inj (uuid_v4 pg) \<Longrightarrow> tables s = migrated_database created \<Longrightarrow> server_wf pg s"
  by (auto simp: server_wf_def migrated_database_def db_wf_defs all_ids_def elim: inj_on_subset)

definition sound :: "'h SchedulerServer \<Rightarrow> server \<Rightarrow> bool" where
  "sound srv s \<longleftrightarrow> (installed srv \<longrightarrow> server_wf (srv_pg srv) s)"

interpretation system: step_invariant
  "\<lambda>s. inj (uuid_v4 (srv_pg srv)) \<and> tables s = migrated_database created" "system_step srv submit" "sound srv" for srv submit created
  by unfold_locales (auto simp: sound_def intro: migrated_wf system_step_wf)

text \<open>
  C5: in whichever order the services act on a freshly migrated database, and however their calls
  on it end, the database stays sound: keys are unique, every reference has its row, every
  run's status is one of the catalogue and never \<open>cancelled\<close>; a run that is pending or was
  missed was never picked, started or finished, holds no lease, and has no output, no error and
  no tokens counted; and a run that ended says when.
\<close>

theorem reachable_database_sound:
  assumes "inj (uuid_v4 (srv_pg srv))" and "installed srv" and "tables s0 = migrated_database created"
    and "(system_step srv submit)\<^sup>*\<^sup>* s0 s"
  shows "db_wf (tables s) \<and> (\<forall>r \<in> set (runs (tables s)). run_ok r)"
  using system.reachable_inv [of srv s0 created submit s] assms by (simp add: sound_def server_wf_def)

section \<open>What the executor does, as steps\<close>

text \<open>
  The contract: \<open>R\<close> relates a server to itself, composes, and covers every read and the three
  writes an executor sends. Then it covers a whole run of an agent with the tools of an installation.
\<close>

locale executor_frame =
  fixes R :: "server \<Rightarrow> server \<Rightarrow> bool" and pg :: postgres
  assumes R_refl: "R s s" and R_trans: "R s s1 \<Longrightarrow> R s1 s2 \<Longrightarrow> R s s2"
    and R_heard: "R s (s\<lparr>outcomes := drop n (outcomes s)\<rparr>)"
    and R_prompt: "R s (snd (SetRenderedPrompt pg runID prompt s))"
    and R_record: "R s (snd (StepStore_Record pg runID k step s))"
    and R_remember: "R s (snd (MemoryStore_Write pg userID agentID ns key content s))"
begin

lemma R_reads: "reads f \<Longrightarrow> R s (snd (f s))"
  using R_heard by (metis reads_def)

lemma server_R: "(\<And>s. R s (snd (f s))) \<Longrightarrow> on_server f w = (r, w') \<Longrightarrow> R (w_server w) (w_server w')"
  by (auto simp: on_server_def split: prod.splits) (metis snd_conv)

lemma read_R: "reads f \<Longrightarrow> on_server f w = (r, w') \<Longrightarrow> R (w_server w) (w_server w')"
  by (rule server_R [of f]) (rule R_reads)

lemma net_R: "on_net f w = (r, w') \<Longrightarrow> R (w_server w) (w_server w')"
  by (auto simp: on_net_def R_refl split: prod.splits)

lemma Now_R: "Now w = (t, w') \<Longrightarrow> R (w_server w) (w_server w')"
  by (auto simp: Now_def R_refl)

definition tame :: "'h world Tool \<Rightarrow> bool" where
  "tame tool \<longleftrightarrow> (\<forall>arguments env w r w'. Tool_Execute tool arguments env w = (r, w') \<longrightarrow> R (w_server w) (w_server w'))"

lemma tame_net: "(\<And>arguments env. Tool_Execute tool arguments env = on_net (f arguments env)) \<Longrightarrow> tame tool"
  using net_R by (auto simp: tame_def)

lemma tame_server:
  assumes "\<And>arguments env. Tool_Execute tool arguments env = on_server (f arguments env)"
    and "\<And>arguments env s. R s (snd (f arguments env s))"
  shows "tame tool"
  using server_R [of "f _ _"] assms(2) unfolding tame_def assms(1) by blast

lemma memory_R:
  "R s (snd (MemoryRead_Execute dec arguments env s))" "R s (snd (MemoryWrite_Execute pg dec' arguments env s))"
proof -
  have "reads (MemoryStore_Read userID ns key limit)" for userID ns key limit
    unfolding MemoryStore_Read_def Let_def by (intro reads_bind reads_query reads_pure) simp_all
  from R_reads [OF this] show "R s (snd (MemoryRead_Execute dec arguments env s))"
    by (simp add: MemoryRead_Execute_def Let_def case_prod_unfold R_refl split: sum.split)
  show "R s (snd (MemoryWrite_Execute pg dec' arguments env s))"
    by (simp add: MemoryWrite_Execute_def case_prod_unfold R_refl R_remember split: sum.split)
qed

lemma telegram_R: "R s (fst (snd (SendTelegram_Execute dec do_request baseURL sealer arguments env s h)))"
proof -
  obtain c s1 where d: "TelegramDelivery sealer (Env_UserID env) s = (c, s1)"
    by (cases "TelegramDelivery sealer (Env_UserID env) s")
  have "R s s1" using R_reads [OF reads_TelegramDelivery, of s sealer "Env_UserID env"] by (simp add: d)
  then show ?thesis
    using R_refl by (auto simp: SendTelegram_Execute_def Let_def d case_prod_unfold split: sum.split option.split)
qed

lemma tame_tools:
  "tame (HTTPFetch_tool dec nw allow)" "tame (SendWebhook_tool dec nw allow)" "tame (WebSearch_tool dec nw ws)"
  "tame (MemoryRead_tool dec)" "tame (MemoryWrite_tool dec pg)" "tame (SendTelegram_tool dec nw baseURL sealer)"
proof -
  show "tame (HTTPFetch_tool dec nw allow)" by (rule tame_net) (simp add: HTTPFetch_tool_def)
  show "tame (SendWebhook_tool dec nw allow)" by (rule tame_net) (simp add: SendWebhook_tool_def)
  show "tame (WebSearch_tool dec nw ws)" by (rule tame_net) (simp add: WebSearch_tool_def)
  show "tame (MemoryRead_tool dec)" by (rule tame_server [OF _ memory_R(1)]) (simp add: MemoryRead_tool_def)
  show "tame (MemoryWrite_tool dec pg)" by (rule tame_server [OF _ memory_R(2)]) (simp add: MemoryWrite_tool_def)
  show "tame (SendTelegram_tool dec nw baseURL sealer)"
    unfolding tame_def
  proof (intro allI impI)
    fix arguments env w r w'
    assume run: "Tool_Execute (SendTelegram_tool dec nw baseURL sealer) arguments env w = (r, w')"
    let ?x = "SendTelegram_Execute (decode_telegram dec) (net_exchange nw) (NewSendTelegram baseURL) sealer
        arguments env (w_server w) (w_net w)"
    from run have "w_server w' = fst (snd ?x)" by (auto simp: SendTelegram_tool_def split: prod.splits)
    then show "R (w_server w) (w_server w')" by (simp add: telegram_R)
  qed
qed

lemma registry_tame:
  assumes "set_option pool \<subseteq> {pg}" and "Registry_Get (BuildRegistry dec nw pool settings config) name = Some tool"
  shows "tame tool"
  using assms tame_tools
  by (auto simp: BuildRegistry_def Let_def Register_Get split: option.splits if_splits)

lemma runTool_R:
  assumes "ex_registry e = BuildRegistry dec nw pool settings config" and "set_option pool \<subseteq> {pg}"
    and "runTool e agent call env w = (r, w')"
  shows "R (w_server w) (w_server w')"
proof (cases "Registry_Get (ex_registry e) (Function_Name (Call_Function call))")
  case (Some tool)
  then have "tame tool" using registry_tame [OF assms(2)] assms(1) by simp
  then show ?thesis
    using assms(3) Some R_refl unfolding runTool_def Let_def tame_def by (auto split: if_splits)
qed (use assms(3) R_refl in \<open>auto simp: runTool_def Let_def split: if_splits\<close>)

lemma tool_loop_R:
  assumes "ex_pg e = pg" and "ex_registry e = BuildRegistry dec nw pool settings config" and "set_option pool \<subseteq> {pg}"
    and "tool_loop e agent env calls messages k w = (r, w')"
  shows "R (w_server w) (w_server w')"
  using assms(4)
proof (induction calls arbitrary: messages k w)
  case Nil
  then show ?case by (simp add: R_refl)
next
  case (Cons call calls)
  obtain r1 w1 where tool: "runTool e agent call env w = (r1, w1)" by (cases "runTool e agent call env w")
  obtain r2 w2 where rec: "on_server (StepStore_Record (ex_pg e) (Env_RunID env) k (tool_step call r1)) w1 = (r2, w2)"
    by (cases "on_server (StepStore_Record (ex_pg e) (Env_RunID env) k (tool_step call r1)) w1")
  have "R (w_server w1) (w_server w2)" by (rule server_R [OF _ rec]) (simp add: assms(1) R_record)
  with runTool_R [OF assms(2,3) tool] have "R (w_server w) (w_server w2)" by (rule R_trans)
  then show ?case
    using Cons.prems Cons.IH R_trans by (auto simp: tool rec split: sum.splits)
qed

lemma step_loop_R:
  assumes "ex_pg e = pg" and "ex_registry e = BuildRegistry dec nw pool settings config" and "set_option pool \<subseteq> {pg}"
    and "step_loop e agent env client defs deadline n messages result k w = (r, w')"
  shows "R (w_server w) (w_server w')"
  using assms(4)
proof (induction n arbitrary: messages result k w)
  case 0
  then show ?case by (simp add: R_refl)
next
  case (Suc n)
  from Suc.prems show ?case
  proof (cases rule: step_loop_round)
    case (budget now reason)
    then show ?thesis by (intro Now_R)
  next
    case (call now w1 request err)
    show ?thesis by (rule R_trans [OF Now_R [OF call(1)] net_R [OF call(2)]])
  next
    case (recorded now w1 request response w2 r3 w3)
    have "R (w_server w2) (w_server w3)" by (rule server_R [OF _ recorded(4)]) (simp add: assms(1) R_record)
    then have w3: "R (w_server w) (w_server w3)"
      by (rule R_trans [OF R_trans [OF Now_R [OF recorded(1)] net_R [OF recorded(3)]]])
    let ?m = "Choice_Message (hd (Response_Choices response))"
    obtain r4 w4 where tl: "tool_loop e agent env (Message_ToolCalls ?m) (messages @ [?m]) (k + 1) w3 = (r4, w4)"
      by (cases "tool_loop e agent env (Message_ToolCalls ?m) (messages @ [?m]) (k + 1) w3")
    have w4: "R (w_server w) (w_server w4)" by (rule R_trans [OF w3 tool_loop_R [OF assms(1-3) tl]])
    then have "R (w_server w) (w_server w')"
      if "step_loop e agent env client defs deadline n messages1 result1 k1 w4 = (r, w')" for messages1 result1 k1
      using Suc.IH [OF that] by (rule R_trans)
    then show ?thesis
      using recorded(5) w3 w4 by (cases r3; cases r4) (auto simp: Let_def tl split: if_splits)
  qed
qed

lemma buildInitialMessages_R:
  assumes "buildInitialMessages e agent w = (r, w')"
  shows "R (w_server w) (w_server w')"
proof (cases "Agent_ContextMode agent = ContextLastN \<and> Agent_ContextRuns agent > 0")
  case True
  let ?f = "RecentOutputs (ex_pg e) OwnerUserID (Agent_ID agent) (Agent_ContextRuns agent)"
  obtain r0 w0 where f: "on_server ?f w = (r0, w0)" by (cases "on_server ?f w")
  have "reads ?f" by (simp add: RecentOutputs_def [abs_def])
  then have "R (w_server w) (w_server w0)" using f by (rule read_R)
  moreover have "w' = w0" using assms True by (cases r0) (simp_all add: buildInitialMessages_def f Let_def)
  ultimately show ?thesis by simp
next
  case False
  then show ?thesis using assms R_refl by (auto simp: buildInitialMessages_def Let_def)
qed

lemma credentialFor_R:
  assumes "credentialFor e agent w = (r, w')"
  shows "R (w_server w) (w_server w')"
proof (cases "ex_secrets e")
  case (Some sealer)
  let ?f = "Reveal sealer OwnerUserID (Agent_SecretName agent)"
  obtain r0 w0 where f: "on_server ?f w = (r0, w0)" by (cases "on_server ?f w")
  have "R (w_server w) (w_server w0)" by (rule read_R [OF reads_Reveal f])
  moreover have "w' = w0" using assms Some by (cases r0) (auto simp: credentialFor_def f split: if_splits)
  ultimately show ?thesis by simp
qed (use assms R_refl in \<open>simp add: credentialFor_def\<close>)

lemma Execute_R:
  assumes "ex_pg e = pg" and "ex_registry e = BuildRegistry dec nw pool settings config" and "set_option pool \<subseteq> {pg}"
    and "Execute e runID agentID w = (r, w')"
  shows "R (w_server w) (w_server w')"
proof -
  obtain r1 w1 where g: "on_server (AgentStore_Get (ex_pg e) OwnerUserID agentID) w = (r1, w1)"
    by (cases "on_server (AgentStore_Get (ex_pg e) OwnerUserID agentID) w")
  have R1: "R (w_server w) (w_server w1)" by (rule read_R [OF reads_others(1) g])
  show ?thesis
  proof (cases r1)
    case (Inl err)
    then show ?thesis using assms(4) R1 by (simp add: Execute_def g)
  next
    case (Inr agent)
    obtain r2 w2 where b: "buildInitialMessages e agent w1 = (r2, w2)" by (cases "buildInitialMessages e agent w1")
    have R2: "R (w_server w) (w_server w2)" using R1 buildInitialMessages_R [OF b] R_trans by blast
    show ?thesis
    proof (cases r2)
      case (Inl err)
      then show ?thesis using assms(4) R2 by (simp add: Execute_def g \<open>r1 = _\<close> b)
    next
      case (Inr messages)
      obtain r3 w3 where p: "on_server (SetRenderedPrompt (ex_pg e) runID (renderPrompt messages)) w2 = (r3, w3)"
        by (cases "on_server (SetRenderedPrompt (ex_pg e) runID (renderPrompt messages)) w2")
      obtain r4 w4 where c: "credentialFor e agent w3 = (r4, w4)" by (cases "credentialFor e agent w3")
      obtain now w5 where n: "Now w4 = (now, w5)" by (cases "Now w4")
      have R3: "R (w_server w) (w_server w3)"
        by (rule R_trans [OF R2], rule server_R [OF _ p]) (simp add: assms(1) R_prompt)
      have "R (w_server w3) (w_server w4)"
        by (rule credentialFor_R [OF c])
      then have "R (w_server w) (w_server w4)" "R (w_server w) (w_server w5)"
        using R3 Now_R [OF n] R_trans by blast+
      then show ?thesis
        using assms(4) R3 step_loop_R [OF assms(1-3)] R_trans
        by (auto simp: Execute_def g \<open>r1 = _\<close> b Inr p c n split: sum.splits)
    qed
  qed
qed

end

section \<open>Ticks and runs are sequences of steps\<close>

interpretation steps: executor_frame "(system_step srv submit)\<^sup>*\<^sup>*" "srv_pg srv" for srv submit
proof unfold_locales
  fix s n
  have "system_step srv submit s (s\<lparr>outcomes := drop n (outcomes s), pg_now := pg_now s\<rparr>)" by (rule elapse)
  then show "(system_step srv submit)\<^sup>*\<^sup>* s (s\<lparr>outcomes := drop n (outcomes s)\<rparr>)" by simp
qed (auto intro: system_step.prompt system_step.record_step system_step.remember)

lemma materialize_step:
  "system_step srv submit (w_server w) (w_server (materializeSchedules (srv_pg srv) (srv_time srv) locked w))"
  by (simp add: materializeSchedules_def Now_def on_server_def case_prod_unfold materialize)

lemma dispatch_step: "dispatch_part submit locked w c ws = (w1, c1, ws1) \<Longrightarrow> system_step srv submit (w_server w) (w_server w1)"
  by (auto simp: dispatch_part_def Now_def split: prod.splits intro: dispatch)

lemma reap_step: "system_step srv submit (w_server w) (w_server (reapExpiredRuns w))"
  by (simp add: reapExpiredRuns_def Now_def on_server_def case_prod_unfold reap)

lemma alert_step: "system_step srv submit (w_server w) (w_server (reportFailingAgents (srv_http srv) baseURL (Some (srv_sealer srv)) w))"
  by (auto simp: reportFailingAgents_def Now_def split: prod.split intro: alert)

lemmas tick_part_steps = materialize_step dispatch_step reap_step alert_step

text \<open>
  A run of an agent and a tick of the coordinator do to the database what a sequence of
  system steps does, so the invariant of the system covers them.
\<close>

theorem runs_and_ticks_are_system_steps:
  assumes "ex_pg e = srv_pg srv" and "ex_registry e = BuildRegistry dec nw (Some (srv_pg srv)) settings config"
  shows "(system_step srv submit)\<^sup>*\<^sup>* (w_server w) (w_server (snd (Execute e runID agentID w))) \<and>
    (system_step srv submit)\<^sup>*\<^sup>* (w_server w)
      (w_server (fst (tick (srv_pg srv) (srv_time srv) submit (srv_http srv) baseURL (Some (srv_sealer srv)) locked locked' w c ws)))"
proof
  show "(system_step srv submit)\<^sup>*\<^sup>* (w_server w) (w_server (snd (Execute e runID agentID w)))"
    by (rule steps.Execute_R [OF assms _ prod.collapse [symmetric]]) simp
  let ?m = "materializeSchedules (srv_pg srv) (srv_time srv) locked w"
  obtain w1 c1 ws1 where d: "dispatch_part submit locked' ?m c ws = (w1, c1, ws1)" by (rule prod_cases3)
  note materialize_step [of srv submit w locked] dispatch_step [OF d, of srv] reap_step [of srv submit w1]
    alert_step [of srv submit "reapExpiredRuns w1" baseURL]
  then show "(system_step srv submit)\<^sup>*\<^sup>* (w_server w)
      (w_server (fst (tick (srv_pg srv) (srv_time srv) submit (srv_http srv) baseURL (Some (srv_sealer srv)) locked locked' w c ws)))"
    unfolding tick_def d by (auto intro: converse_rtranclp_into_rtranclp)
qed

section \<open>The system on a concrete installation\<close>

lemma digits_value: "foldl (\<lambda>a c. 10 * a + (of_char c - 48)) 0 (digits_of n) = n"
proof (induction n rule: digits_of.induct)
  case (1 n)
  then show ?case by (subst digits_of.simps) (auto simp: of_char_of)
qed

lemma demo_ids: "inj (uuid_v4 demo_pg)"
proof (rule injI)
  fix m n
  assume "uuid_v4 demo_pg m = uuid_v4 demo_pg n"
  then have "digits_of m = digits_of n" by (simp add: demo_pg_def Itoa_def)
  then show "m = n" by (metis digits_value)
qed

text \<open>
  The first minutes of an installation: the password is set, the owner signs in, saves an agent
  and asks for a run of it.
\<close>

definition first_boot :: "nat api" where
  "first_boot =
     (let s = demo_server\<lparr>tables := migrated_database 0\<rparr> in
      \<lparr>api_world = demo_world\<lparr>w_server := snd (snd (EnsurePassword demo_bcrypt OwnerUserID ''pw'' [] s))\<rparr>,
       api_rng = replicate 40 CHR ''r''\<rparr>)"

definition first_token :: string where
  "first_token = RawURLEncoding_EncodeToString (replicate 32 CHR ''r'')"

definition signed_in :: "nat api" where
  "signed_in = snd (serve demo_srv (demo_request ''POST'' ''/api/login'' None ''pw'') first_boot)"

definition with_agent :: "nat api" where
  "with_agent = snd (serve demo_srv (demo_request ''POST'' ''/api/agents'' (Some first_token) ''Weekly'') signed_in)"

definition with_run :: "nat api" where
  "with_run = snd (serve demo_srv (demo_request ''POST'' ''/api/agents/id-0/runs'' (Some first_token) []) with_agent)"

lemma first_minutes:
  "(system_step demo_srv submit)\<^sup>*\<^sup>* (demo_server\<lparr>tables := migrated_database 0\<rparr>) (api_server with_run)"
proof -
  let ?step = "system_step demo_srv submit"
  have "?step (demo_server\<lparr>tables := migrated_database 0\<rparr>) (api_server first_boot)"
    using system_step.password [of demo_srv submit _ OwnerUserID "''pw''" "[]"]
    by (simp add: first_boot_def api_server_def Let_def demo_srv_def)
  moreover have "?step (api_server first_boot) (api_server signed_in)" "?step (api_server signed_in) (api_server with_agent)"
    "?step (api_server with_agent) (api_server with_run)"
    unfolding signed_in_def with_agent_def with_run_def by (rule request [OF pair_fst_snd])+
  ultimately show ?thesis by (meson converse_rtranclp_into_rtranclp r_into_rtranclp)
qed

theorem reachable_database_sound_witness:
  "map r_status (runs (tables (api_server with_run))) = [RunPending] \<and> db_wf (tables (api_server with_run))"
proof
  show "map r_status (runs (tables (api_server with_run))) = [RunPending]" by code_simp
  have "inj (uuid_v4 (srv_pg demo_srv))" by (simp add: demo_ids demo_srv_def)
  from reachable_database_sound [OF this demo_installed _ first_minutes [of cluster_submit]] show "db_wf (tables (api_server with_run))" by simp
qed

text \<open>The executor of an installation, on the same world.\<close>

theorem runs_and_ticks_are_system_steps_witness:
  "(system_step demo_srv cluster_submit)\<^sup>*\<^sup>* demo_server (w_server (snd (Execute
     \<lparr>ex_pg = demo_pg, ex_secrets = Some demo_sealer,
      ex_registry = BuildRegistry demo_decoders quiet_net (Some demo_pg) (Some (Some demo_sealer)) demo_config,
      ex_fallbackAPIKey = ''key'', ex_wire = demo_wire, ex_http = demo_http\<rparr> ''r1'' ''a1'' demo_world)))"
proof -
  let ?e = "\<lparr>ex_pg = demo_pg, ex_secrets = Some demo_sealer,
      ex_registry = BuildRegistry demo_decoders quiet_net (Some demo_pg) (Some (Some demo_sealer)) demo_config,
      ex_fallbackAPIKey = ''key'', ex_wire = demo_wire, ex_http = demo_http\<rparr>"
  have "ex_pg ?e = srv_pg demo_srv"
    "ex_registry ?e = BuildRegistry demo_decoders quiet_net (Some (srv_pg demo_srv)) (Some (Some demo_sealer)) demo_config"
    by (simp_all add: demo_srv_def)
  from runs_and_ticks_are_system_steps [OF this, where submit = cluster_submit and w = demo_world and runID = "''r1''" and agentID = "''a1''"]
  show ?thesis by (simp add: demo_world_def)
qed

end
