(* ===== verification/Scanner.thy ===== *)
theory Scanner
  imports System
begin

text \<open>
  The coordinator while it runs: the scanner (\<open>scanDatabase\<close>), the sweeper (\<open>manageWorkerPool\<close>) and
  the gRPC handlers of \<open>pkg/coordinator\<close> as goroutines that interleave. Every scan starts a tick of
  its own and does not wait for the one before it, so ticks overlap.
\<close>

section \<open>Goroutines\<close>

text \<open>The four calls of \<open>tick\<close>, in its order.\<close>

datatype tick_part = MaterializeSchedules | DispatchPendingRuns | ReapExpiredRuns | ReportFailingAgents

definition tick_parts :: "tick_part list" where
  "tick_parts = [MaterializeSchedules, DispatchPendingRuns, ReapExpiredRuns, ReportFailingAgents]"

text \<open>
  The coordinator: the world with the database, the pool of workers, the workers themselves, what
  the ticks under way have still to do, and whether its context is cancelled.
\<close>

record ('h, 'w) coordinator =
  co_world :: "'h world"
  co_pool :: CoordinatorServer
  co_workers :: 'w
  co_ticks :: "tick_part list list"
  co_cancelled :: bool

fun run_part ::
    "'h SchedulerServer \<Rightarrow> 'w submit \<Rightarrow> string \<Rightarrow> (string \<Rightarrow> bool) \<Rightarrow> tick_part \<Rightarrow> ('h, 'w) coordinator \<Rightarrow> ('h, 'w) coordinator" where
  "run_part srv submit baseURL locked MaterializeSchedules x =
     x\<lparr>co_world := materializeSchedules (srv_pg srv) (srv_time srv) locked (co_world x)\<rparr>"
| "run_part srv submit baseURL locked DispatchPendingRuns x =
     (case dispatch_part submit locked (co_world x) (co_pool x) (co_workers x) of
        (w, c, ws) \<Rightarrow> x\<lparr>co_world := w, co_pool := c, co_workers := ws\<rparr>)"
| "run_part srv submit baseURL locked ReapExpiredRuns x = x\<lparr>co_world := reapExpiredRuns (co_world x)\<rparr>"
| "run_part srv submit baseURL locked ReportFailingAgents x =
     x\<lparr>co_world := reportFailingAgents (srv_http srv) baseURL (Some (srv_sealer srv)) (co_world x)\<rparr>"

definition on_database :: "(server \<Rightarrow> 'a \<times> server) \<Rightarrow> ('h, 'w) coordinator \<Rightarrow> ('h, 'w) coordinator" where
  "on_database f x = x\<lparr>co_world := (co_world x)\<lparr>w_server := snd (f (w_server (co_world x)))\<rparr>\<rparr>"

text \<open>
  What the two loops do when their ticker fires: start a tick, sweep the pool. With the context
  cancelled they have returned.
\<close>

definition scanDatabase :: "('h, 'w) coordinator \<Rightarrow> ('h, 'w) coordinator" where
  "scanDatabase x = (if co_cancelled x then x else x\<lparr>co_ticks := co_ticks x @ [tick_parts]\<rparr>)"

definition manageWorkerPool :: "range_order \<Rightarrow> ('h, 'w) coordinator \<Rightarrow> ('h, 'w) coordinator" where
  "manageWorkerPool order x = (if co_cancelled x then x else x\<lparr>co_pool := removeInactiveWorkers order (co_pool x)\<rparr>)"

text \<open>
  Steps: the scanner's ticker starts a tick, a tick carries out its next part, the sweeper's ticker
  fires, a worker's heartbeat, report or renewal is answered, the context is cancelled. After
  that the scanner and the sweeper have returned; ticks under way go on.
\<close>

inductive coordinator_step :: "'h SchedulerServer \<Rightarrow> 'w submit \<Rightarrow> string \<Rightarrow> ('h, 'w) coordinator \<Rightarrow> ('h, 'w) coordinator \<Rightarrow> bool"
  for srv :: "'h SchedulerServer" and submit :: "'w submit" and baseURL :: string where
  scan: "coordinator_step srv submit baseURL x (scanDatabase x)"
| part: "i < length (co_ticks x) \<Longrightarrow> co_ticks x ! i = p # ps \<Longrightarrow>
    coordinator_step srv submit baseURL x (run_part srv submit baseURL locked p (x\<lparr>co_ticks := (co_ticks x)[i := ps]\<rparr>))"
| sweep: "range_perm order \<Longrightarrow> coordinator_step srv submit baseURL x (manageWorkerPool order x)"
| beat: "range_perm order \<Longrightarrow>
    coordinator_step srv submit baseURL x (x\<lparr>co_pool := snd (SendHeartbeat order dial req (co_pool x))\<rparr>)"
| update: "coordinator_step srv submit baseURL x (on_database (UpdateRunStatus (srv_pg srv) now report) x)"
| extend: "coordinator_step srv submit baseURL x (on_database (RenewLease (srv_pg srv) now runID) x)"
| cancel: "coordinator_step srv submit baseURL x (x\<lparr>co_cancelled := True\<rparr>)"

inductive_cases coordinator_stepE: "coordinator_step srv submit baseURL x y"

section \<open>Lemmas\<close>

lemma run_part_ticks [simp]: "co_ticks (run_part srv submit baseURL locked p x) = co_ticks x"
  "co_cancelled (run_part srv submit baseURL locked p x) = co_cancelled x"
  by (cases p; simp split: prod.split)+

lemma on_database_sel [simp]:
  "co_pool (on_database f x) = co_pool x" "co_ticks (on_database f x) = co_ticks x" "co_cancelled (on_database f x) = co_cancelled x"
  "w_server (co_world (on_database f x)) = snd (f (w_server (co_world x)))"
  by (simp_all add: on_database_def)

text \<open>Dispatch changes the pool by choosing workers and in no other way.\<close>

lemma chooses: "pool_step\<^sup>*\<^sup>* c (snd (getNextWorker c))"
  using pool_step.intros [of Choose c] by auto

lemma offer_loop_chooses: "pool_step\<^sup>*\<^sup>* c (fst (snd (offer_loop submit run n c w)))"
proof (induction n arbitrary: c w)
  case (Suc n)
  note rest = rtranclp_trans [OF chooses [of c] Suc]
  show ?case using chooses [of c] rest by (auto split: prod.splits option.splits sum.splits)
qed auto

lemma offer_chooses: "offerRunToWorker submit run c w = (r, c1, w1) \<Longrightarrow> pool_step\<^sup>*\<^sup>* c c1"
  using offer_loop_chooses [of c submit run "length (WorkerPoolKeys c)" w]
  by (auto simp: offerRunToWorker_def Let_def split: if_splits)

lemma dispatch_loop_chooses: "dispatch_loop submit now pending t s c w = (t1, s1, c1, w1) \<Longrightarrow> pool_step\<^sup>*\<^sup>* c c1"
proof (induction pending arbitrary: t s c w)
  case (Cons run pending)
  then show ?case
    by (auto split: prod.splits sum.splits if_splits dest!: offer_chooses) (metis rtranclp_trans)+
qed auto

lemma dispatch_chooses: "dispatchPendingRuns submit locked now s c w = (s1, c1, w1) \<Longrightarrow> pool_step\<^sup>*\<^sup>* c c1"
  by (auto simp: dispatchPendingRuns_def split: prod.splits sum.splits dest!: dispatch_loop_chooses)

lemma run_part_system: "system_step srv submit (w_server (co_world x)) (w_server (co_world (run_part srv submit baseURL locked p x)))"
  by (cases p) (auto simp: tick_part_steps split: prod.splits)

lemma run_part_pool: "pool_step\<^sup>*\<^sup>* (co_pool x) (co_pool (run_part srv submit baseURL locked p x))"
  by (cases p) (auto simp: dispatch_part_def split: prod.splits dest: dispatch_chooses)

section \<open>Properties\<close>

text \<open>A tick that nothing else interrupts is the function \<open>tick\<close>.\<close>

lemma tick_is_its_parts:
  "tick (srv_pg srv) (srv_time srv) submit (srv_http srv) baseURL (Some (srv_sealer srv)) locked locked' (co_world x) (co_pool x) (co_workers x) =
     (let y = fold (\<lambda>(p, l). run_part srv submit baseURL l p) (zip tick_parts [locked, locked', locked, locked]) x
      in (co_world y, co_pool y, co_workers y))"
  by (simp add: tick_def tick_parts_def Let_def split: prod.split)

lemma coordinator_step_refines:
  assumes "coordinator_step srv submit baseURL x y"
  shows "(system_step srv submit)\<^sup>*\<^sup>* (w_server (co_world x)) (w_server (co_world y)) \<and> pool_step\<^sup>*\<^sup>* (co_pool x) (co_pool y)"
  using assms
proof cases
  case (part i p ps locked)
  let ?x = "x\<lparr>co_ticks := (co_ticks x)[i := ps]\<rparr>"
  show ?thesis
    unfolding part(1)
    using run_part_system [of srv submit ?x baseURL locked p] run_part_pool [of ?x srv submit baseURL locked p] by auto
next
  case (sweep order)
  then show ?thesis using pool_step.intros [of "Sweep order" "co_pool x"] by (auto simp: manageWorkerPool_def)
next
  case (beat order dial req)
  then show ?thesis using pool_step.intros [of "Beat order dial req" "co_pool x"] by auto
qed (auto simp: scanDatabase_def intro: system_step.report system_step.renew)

text \<open>
  Ticks may overlap. However the parts of the ticks a coordinator has under way, its sweeps and the calls of
  workers follow one another, what they do to the database is a sequence of system steps and what they
  do to the pool of workers a sequence of heartbeats, sweeps and choices: from the start of
  both, the database stays sound and the rotation stays a list of the pool's workers. (Each part and each sweep
  is one step here; \<open>Pool_Locking\<close> takes the pool's operations apart.)
\<close>

theorem overlapping_ticks_keep_invariants:
  assumes "(coordinator_step srv submit baseURL)\<^sup>*\<^sup>* x y" and "inj (uuid_v4 (srv_pg srv))" and "installed srv"
    and "(system_step srv submit)\<^sup>*\<^sup>* s0 (w_server (co_world x))" and "tables s0 = migrated_database created"
    and "co_pool x = NewServerWithClock"
  shows "db_wf (tables (w_server (co_world y))) \<and> (\<forall>r \<in> set (runs (tables (w_server (co_world y)))). run_ok r) \<and> pool_wf (co_pool y)"
proof -
  have "(system_step srv submit)\<^sup>*\<^sup>* (w_server (co_world x)) (w_server (co_world y)) \<and> pool_step\<^sup>*\<^sup>* (co_pool x) (co_pool y)"
    using assms(1)
  proof induction
    case (step y z)
    from coordinator_step_refines [OF step(2)] step(3) show ?case by (meson rtranclp_trans)
  qed simp
  with assms(2-6) system.reachable_inv [of srv s0 created submit "w_server (co_world y)"] pool_inv.reachable_inv [of "co_pool x" "co_pool y"]
  show ?thesis by (auto simp: sound_def server_wf_def dest: rtranclp_trans)
qed

text \<open>What the ticks under way have still to do.\<close>

definition parts_left :: "('h, 'w) coordinator \<Rightarrow> nat" where
  "parts_left x = sum_list (map length (co_ticks x))"

lemma parts_left_part:
  "i < length ts \<Longrightarrow> ts ! i = p # ps \<Longrightarrow> Suc (sum_list (map length (ts[i := ps]))) = sum_list (map length ts)"
  by (induction ts arbitrary: i) (auto split: nat.split simp: nth_Cons)

lemma cancelled_step:
  assumes "coordinator_step srv submit baseURL x y" and "co_cancelled x"
  shows "co_cancelled y \<and> parts_left y \<le> parts_left x \<and> length (co_ticks y) = length (co_ticks x)"
  using assms(1)
proof cases
  case (part i p ps locked)
  then show ?thesis using assms(2) parts_left_part [of i "co_ticks x" p ps] by (simp add: parts_left_def)
qed (use assms(2) in \<open>auto simp: parts_left_def scanDatabase_def manageWorkerPool_def\<close>)

lemma part_step_left:
  assumes "i < length (co_ticks x)" and "co_ticks x ! i = p # ps"
  shows "Suc (parts_left (run_part srv submit baseURL locked p (x\<lparr>co_ticks := (co_ticks x)[i := ps]\<rparr>))) = parts_left x"
  using parts_left_part [OF assms] by (simp add: parts_left_def)

text \<open>
  After the context is cancelled no tick starts, and those under way have only their remaining
  parts to carry out.
\<close>

lemma cancelled_coordinator_winds_down:
  assumes "(coordinator_step srv submit baseURL)\<^sup>*\<^sup>* x y" and "co_cancelled x"
  shows "co_cancelled y \<and> parts_left y \<le> parts_left x \<and> length (co_ticks y) = length (co_ticks x)"
  using assms
proof (induction rule: rtranclp_induct)
  case (step y z)
  then show ?case using cancelled_step [OF step(2)] by auto
qed simp

section \<open>Two ticks at once\<close>

text \<open>
  The owner has asked for a run; a worker registers, two scans come close together, and the
  second tick overtakes the first.
\<close>

definition part_of :: "nat \<Rightarrow> (nat, (string \<times> WorkerServer) list) coordinator \<Rightarrow> (nat, (string \<times> WorkerServer) list) coordinator" where
  "part_of i x =
     run_part demo_srv cluster_submit [] (\<lambda>_. False) (hd (co_ticks x ! i)) (x\<lparr>co_ticks := (co_ticks x)[i := tl (co_ticks x ! i)]\<rparr>)"

lemma part_of_ticks: "co_ticks (part_of i x) = (co_ticks x)[i := tl (co_ticks x ! i)]"
  by (simp add: part_of_def)

lemma part_of_step:
  "i < length (co_ticks x) \<Longrightarrow> co_ticks x ! i \<noteq> [] \<Longrightarrow> coordinator_step demo_srv cluster_submit [] x (part_of i x)"
  unfolding part_of_def by (rule part) auto

lemma parts_of_steps:
  "i < length (co_ticks x) \<Longrightarrow> n \<le> length (co_ticks x ! i) \<Longrightarrow> (coordinator_step demo_srv cluster_submit [])\<^sup>*\<^sup>* x ((part_of i ^^ n) x) \<and>
     co_ticks ((part_of i ^^ n) x) = (co_ticks x)[i := drop n (co_ticks x ! i)]"
proof (induction n)
  case (Suc n)
  then have IH: "(coordinator_step demo_srv cluster_submit [])\<^sup>*\<^sup>* x ((part_of i ^^ n) x)"
    "co_ticks ((part_of i ^^ n) x) = (co_ticks x)[i := drop n (co_ticks x ! i)]" by auto
  have "coordinator_step demo_srv cluster_submit [] ((part_of i ^^ n) x) (part_of i ((part_of i ^^ n) x))"
    using Suc.prems by (intro part_of_step) (auto simp: IH(2))
  with IH show ?case using Suc.prems by (auto simp: part_of_ticks drop_Suc tl_drop)
qed auto

definition asked :: "(nat, (string \<times> WorkerServer) list) coordinator" where
  "asked = \<lparr>co_world = api_world with_run, co_pool = NewServerWithClock, co_workers = [(''w'', NewServerWithExecutor)], co_ticks = [], co_cancelled = False\<rparr>"

definition two_ticks :: "(nat, (string \<times> WorkerServer) list) coordinator" where
  "two_ticks = asked\<lparr>co_pool := snd (SendHeartbeat (\<lambda>ks. ks) (\<lambda>_. None) \<lparr>Heartbeat_WorkerId = 7, Heartbeat_Address = ''w''\<rparr> NewServerWithClock),
     co_ticks := [tick_parts, tick_parts]\<rparr>"

definition overtaken :: "(nat, (string \<times> WorkerServer) list) coordinator" where
  "overtaken = (part_of 0 ^^ 4) ((part_of (Suc 0) ^^ 4) two_ticks)"

lemma reaches_two_ticks: "(coordinator_step demo_srv cluster_submit [])\<^sup>*\<^sup>* asked two_ticks"
proof -
  let ?step = "coordinator_step demo_srv cluster_submit []" and ?req = "\<lparr>Heartbeat_WorkerId = 7, Heartbeat_Address = ''w''\<rparr>"
  let ?a = "asked\<lparr>co_pool := snd (SendHeartbeat (\<lambda>ks. ks) (\<lambda>_. None) ?req NewServerWithClock)\<rparr>"
  have "?step asked ?a" using beat [of "\<lambda>ks. ks" demo_srv cluster_submit "[]" asked "\<lambda>_. None" ?req] by (simp add: asked_def range_perm_def)
  moreover have "?step ?a (?a\<lparr>co_ticks := [tick_parts]\<rparr>)" using scan [of demo_srv cluster_submit "[]" ?a] by (simp add: asked_def scanDatabase_def)
  moreover have "?step (?a\<lparr>co_ticks := [tick_parts]\<rparr>) two_ticks"
    using scan [of demo_srv cluster_submit "[]" "?a\<lparr>co_ticks := [tick_parts]\<rparr>"] by (simp add: asked_def two_ticks_def scanDatabase_def)
  ultimately show ?thesis by (meson converse_rtranclp_into_rtranclp r_into_rtranclp)
qed

lemma reaches_overtaken:
  "(coordinator_step demo_srv cluster_submit [])\<^sup>*\<^sup>* asked overtaken" "co_ticks overtaken = [[], []]"
proof -
  have ticks: "co_ticks two_ticks = [tick_parts, tick_parts]" by (simp add: two_ticks_def)
  note second = parts_of_steps [of "Suc 0" two_ticks 4]
  note first = parts_of_steps [of 0 "(part_of (Suc 0) ^^ 4) two_ticks" 4]
  show "(coordinator_step demo_srv cluster_submit [])\<^sup>*\<^sup>* asked overtaken" "co_ticks overtaken = [[], []]"
    unfolding overtaken_def using reaches_two_ticks first second by (auto simp: ticks tick_parts_def)
qed

theorem overlapping_ticks_keep_invariants_witness:
  "co_ticks overtaken = [[], []] \<and> db_wf (tables (w_server (co_world overtaken))) \<and> pool_wf (co_pool overtaken)"
proof -
  have "inj (uuid_v4 (srv_pg demo_srv))" by (simp add: demo_ids demo_srv_def)
  from overlapping_ticks_keep_invariants [OF reaches_overtaken(1) this demo_installed] first_minutes [of cluster_submit]
  show ?thesis by (simp add: asked_def api_server_def reaches_overtaken(2))
qed

end
