(* ===== verification/Progress.thy ===== *)
theory Progress
  imports Integrity Worker
begin

text \<open>
  What the services get done when nothing fails: a due schedule becomes a run that a worker holds
  within the tick that found it due.
\<close>

section \<open>A pass of the materializer that is answered succeeds\<close>

text \<open>The rows a due schedule's run refers to.\<close>

definition grounded :: "database \<Rightarrow> dueSchedule \<Rightarrow> bool" where
  "grounded d item \<longleftrightarrow> due_agentID item \<in> ag_id ` set (agents d) \<and> due_userID item \<in> usr_id ` set (users d) \<and>
     due_id item \<in> sch_id ` set (schedules d)"

lemma due_schedules_grounded: "db_wf d \<Longrightarrow> item \<in> set (due_schedules locked now d) \<Longrightarrow> grounded d item"
  by (auto simp: due_schedules_def scan_due_def grounded_def db_wf_defs)

lemma materialize_loop_served:
  assumes "outcomes s = []" and "\<not> tx_failed t" and "\<forall>item \<in> set items. grounded (tables s) item"
  shows "\<exists>n s'. materialize_loop pg env now items created t s = (Inr n, t, s') \<and> outcomes s' = []"
  using assms(1,3)
proof (induction items arbitrary: created s)
  case (Cons item items)
  show ?case
  proof (cases "Parse env (due_expression item) (due_timezone item)")
    case (Inl e)
    then show ?thesis using Cons by simp
  next
    case (Inr spec)
    obtain f x m where r: "resolveFireTimes spec item now = (f, x, m)" by (rule prod_cases3)
    let ?row = "new_run_row (uuid_v4 pg (serial s)) (due_userID item) (due_agentID item) (Some (due_id item)) TriggerSchedule
      (if m then RunMissed else RunPending) f (pg_now s)"
    let ?s1 = "s\<lparr>serial := Suc (serial s), tables := (tables s)\<lparr>runs := runs (tables s) @ [?row]\<rparr>\<rparr>"
    let ?s2 = "?s1\<lparr>tables := (tables ?s1)\<lparr>schedules := update_where (\<lambda>r. sch_id r = due_id item)
      (advance_row f x (WallClock spec f) (pg_now s)) (schedules (tables s))\<rparr>\<rparr>"
    have ins: "tx_call (insert_run pg (due_userID item) (due_agentID item) (Some (due_id item)) TriggerSchedule
        (if m then RunMissed else RunPending) f) t s = (Inr ?row, t, ?s1)"
      by (rule tx_call_served) (use Cons.prems assms(2) in \<open>auto simp: insert_run_def grounded_def Let_def\<close>)
    have adv: "tx_call (advance_schedule (due_id item) f x (WallClock spec f)) t ?s1 = (Inr (), t, ?s2)"
      by (rule tx_call_served) (use Cons.prems assms(2) in \<open>auto simp: advance_schedule_def exec_def\<close>)
    have "\<forall>item' \<in> set items. grounded (tables ?s2) item'"
      using Cons.prems(2) advance_row_upd.keys_kept [of "\<lambda>r. sch_id r = due_id item" f x "WallClock spec f" "pg_now s" "schedules (tables s)"]
      by (auto simp: grounded_def dest: arg_cong [of _ _ set])
    with Cons.IH [of ?s2 "Suc created"] Cons.prems(1) show ?thesis by (simp add: Inr r ins adv Let_def)
  qed
qed simp

lemma materializer_served:
  assumes "db_wf (tables s)" and "outcomes s = []"
  shows "\<exists>created s'. Materializer_RunOnce pg env locked now s = (Inr created, s') \<and> outcomes s' = []"
proof -
  let ?t = "\<lparr>tx_saved = tables s, tx_failed = False\<rparr>" and ?due = "due_schedules locked now (tables s)"
  have b: "Begin s = (Inr ?t, s)" using assms(2) by (simp add: Begin_def)
  have q: "tx_call (query (due_schedules locked now)) ?t s = (Inr ?due, ?t, s)" using assms(2) by (simp add: query_def)
  obtain n s' where "materialize_loop pg env now ?due 0 ?t s = (Inr n, ?t, s')" "outcomes s' = []"
    using materialize_loop_served [OF assms(2), of ?t ?due pg env now 0] due_schedules_grounded [OF assms(1)] by auto
  then show ?thesis by (simp add: Materializer_RunOnce_def b q Commit_def)
qed

section \<open>Workers with room\<close>

text \<open>
  A worker at an address has room for \<open>n\<close> more runs: it accepts while it has room, and room is spent
  only by what is accepted.
\<close>

locale roomy_service = worker_service submit queued losses
  for submit :: "'w submit" and queued :: "'w \<Rightarrow> RunRequest multiset" and losses :: "'w \<Rightarrow> nat" +
  fixes room :: "string \<Rightarrow> nat \<Rightarrow> 'w \<Rightarrow> bool"
  assumes room_accepts: "room addr (Suc n) w \<Longrightarrow> \<exists>response w'. submit addr run w = (Inr response, w') \<and> RunResponse_Accepted response"
    and room_spent: "room addr (Suc n) w \<Longrightarrow> submit a run w = (Inr response, w') \<Longrightarrow> RunResponse_Accepted response \<Longrightarrow> room addr n w'"
    and room_declined: "room addr n w \<Longrightarrow> submit a run w = (Inr response, w') \<Longrightarrow> \<not> RunResponse_Accepted response \<Longrightarrow> room addr n w'"
    and room_error: "room addr n w \<Longrightarrow> submit a run w = (Inl e, w') \<Longrightarrow> room addr n w'"
begin

lemma offer_loop_taken:
  assumes "pool_wf c" and "length (WorkerPoolKeys c) < 2 ^ 32" and "unat (roundRobinIndex c) + n \<le> 2 ^ 32"
    and "j < n" and "worker_at c (unat (roundRobinIndex c) + j) = Some wi" and "WorkerPoolKeys c \<noteq> []"
    and "room (worker_address wi) (Suc m) w"
  shows "\<exists>i w'. offer_loop submit run n c w = (Inr True, c\<lparr>roundRobinIndex := roundRobinIndex c + of_nat i\<rparr>, w') \<and> i \<le> n \<and>
    room (worker_address wi) m w'"
  using assms
proof (induction n arbitrary: c w j)
  case (Suc n)
  let ?c = "c\<lparr>roundRobinIndex := roundRobinIndex c + 1\<rparr>"
  obtain wi0 where first: "worker_at c (unat (roundRobinIndex c)) = Some wi0"
    using worker_at_some [OF Suc.prems(1,6)] by blast
  have nxt: "getNextWorker c = (Some wi0, ?c)" using getNextWorker_at [OF Suc.prems(6,2)] first by simp
  obtain r w1 where sub: "submit (worker_address wi0) run w = (r, w1)" by (cases "submit (worker_address wi0) run w")
  show ?case
  proof (cases "\<exists>response. r = Inr response \<and> RunResponse_Accepted response")
    case True
    then show ?thesis
      using room_spent [OF Suc.prems(7)] sub by (intro exI [of _ 1] exI [of _ w1]) (auto simp: nxt)
  next
    case False
    have "j \<noteq> 0"
    proof
      assume "j = 0"
      then have "wi0 = wi" using Suc.prems(5) first by simp
      with room_accepts [OF Suc.prems(7), of run] sub False show False by auto
    qed
    have kept: "room (worker_address wi) (Suc m) w1"
      using False sub room_declined [OF Suc.prems(7)] room_error [OF Suc.prems(7)] by (cases r) auto
    have idx: "unat (roundRobinIndex ?c) = unat (roundRobinIndex c) + 1"
      using unat_next_index [OF Suc.prems(3)] \<open>j \<noteq> 0\<close> Suc.prems(4) by auto
    have wf: "pool_wf ?c" using Suc.prems(1) by (auto simp: pool_wf_def)
    have "\<exists>i w'. offer_loop submit run n ?c w1 = (Inr True, ?c\<lparr>roundRobinIndex := roundRobinIndex ?c + of_nat i\<rparr>, w') \<and> i \<le> n \<and>
        room (worker_address wi) m w'"
      by (rule Suc.IH [OF wf, where j = "j - 1"]) (use Suc.prems(2-6) idx \<open>j \<noteq> 0\<close> kept in auto)
    then obtain i w' where "offer_loop submit run n ?c w1 = (Inr True, c\<lparr>roundRobinIndex := roundRobinIndex c + of_nat (Suc i)\<rparr>, w')"
        "i \<le> n" "room (worker_address wi) m w'"
      by (auto simp: add.assoc)
    moreover have "offer_loop submit run (Suc n) c w = offer_loop submit run n ?c w1"
      using False by (cases r) (auto simp: nxt sub)
    ultimately show ?thesis by (intro exI [of _ "Suc i"] exI [of _ w']) auto
  qed
qed simp

lemma offer_taken:
  assumes "pool_wf c" and "(k, wi) \<in> set (WorkerPool c)" and "unat (roundRobinIndex c) + length (WorkerPoolKeys c) < 2 ^ 32"
    and "room (worker_address wi) (Suc m) w"
  shows "\<exists>i w'. offerRunToWorker submit run c w = (Inr True, c\<lparr>roundRobinIndex := roundRobinIndex c + of_nat i\<rparr>, w') \<and>
    i \<le> length (WorkerPoolKeys c) \<and> room (worker_address wi) m w'"
proof -
  from assms(1,2) have "k \<in> set (WorkerPoolKeys c)" and look: "map_of (WorkerPool c) k = Some wi"
    by (force simp: pool_wf_def)+
  then obtain i where i: "i < length (WorkerPoolKeys c)" "WorkerPoolKeys c ! i = k"
    by (auto simp: in_set_conv_nth)
  then obtain j where "j < length (WorkerPoolKeys c)" "worker_at c (unat (roundRobinIndex c) + j) = Some wi"
    using rotation_reaches [OF i(1)] look by (force simp: worker_at_def)
  with offer_loop_taken [OF assms(1) _ _ this _ assms(4)] i(1) assms(3) show ?thesis
    by (auto simp: offerRunToWorker_def Let_def)
qed

text \<open>With room for the whole batch, every run of it is marked and queued.\<close>

lemma dispatch_loop_takes_all:
  assumes "pool_wf c" and "(k, wi) \<in> set (WorkerPool c)"
    and "unat (roundRobinIndex c) + length pending * length (WorkerPoolKeys c) < 2 ^ 32"
    and "room (worker_address wi) (length pending) w" and "outcomes s = []" and "\<not> tx_failed t"
  shows "\<exists>s' c' w'. dispatch_loop submit now pending t s c w = (t, s', c', w') \<and> outcomes s' = [] \<and>
    tables s' = mark now (RunRequest_RunId ` set pending) (tables s) \<and> queued w + mset pending \<subseteq># queued w'"
  using assms
proof (induction pending arbitrary: c w s)
  case (Cons run pending)
  let ?K = "length (WorkerPoolKeys c)"
  have "unat (roundRobinIndex c) + ?K < 2 ^ 32" using Cons.prems(3) by simp
  from offer_taken [OF Cons.prems(1,2) this, of "length pending" w run] Cons.prems(4)
  obtain i w1 where offer: "offerRunToWorker submit run c w = (Inr True, c\<lparr>roundRobinIndex := roundRobinIndex c + of_nat i\<rparr>, w1)"
      and i: "i \<le> ?K" and room: "room (worker_address wi) (length pending) w1" by auto
  let ?c = "c\<lparr>roundRobinIndex := roundRobinIndex c + of_nat i\<rparr>"
  let ?s = "s\<lparr>tables := mark now {RunRequest_RunId run} (tables s)\<rparr>"
  have pick: "tx_call (pick_stmt (RunRequest_RunId run) now) t s = (Inr (), t, ?s)"
    using Cons.prems(5,6) by (simp add: pick_stmt_mark exec_def)
  have q: "add_mset run (queued w) \<subseteq># queued w1" using offer_queued [OF offer] by auto
  have idx: "unat (roundRobinIndex ?c) \<le> unat (roundRobinIndex c) + i"
    by (simp add: unat_word_ariths unat_of_nat)
  have "pool_wf ?c" "(k, wi) \<in> set (WorkerPool ?c)" using Cons.prems(1,2) by (auto simp: pool_wf_def)
  moreover have "unat (roundRobinIndex ?c) + length pending * length (WorkerPoolKeys ?c) < 2 ^ 32"
    using idx i Cons.prems(3) by simp
  ultimately obtain s' c' w' where "dispatch_loop submit now pending t ?s ?c w1 = (t, s', c', w')" "outcomes s' = []"
      "tables s' = mark now (RunRequest_RunId ` set pending) (tables ?s)" and rest: "queued w1 + mset pending \<subseteq># queued w'"
    using Cons.IH [of ?c w1 ?s] room Cons.prems(5,6) by auto
  moreover have "queued w + mset (run # pending) \<subseteq># queued w'"
    by (rule subset_mset.order_trans [OF _ rest]) (use q in simp)
  ultimately show ?case by (simp add: offer pick mark_mark)
qed simp

lemma dispatch_takes_all:
  assumes "pool_wf c" and "(k, wi) \<in> set (WorkerPool c)" and "length (pending_rows locked now (tables s)) \<le> n"
    and "unat (roundRobinIndex c) + n * length (WorkerPoolKeys c) < 2 ^ 32"
    and "room (worker_address wi) (length (pending_rows locked now (tables s))) w" and "outcomes s = []"
  shows "\<exists>s' c' w'. dispatchPendingRuns submit locked now s c w = (s', c', w') \<and> outcomes s' = [] \<and>
    tables s' = mark now (r_id ` set (pending_rows locked now (tables s))) (tables s) \<and>
    queued w + mset (map run_request (pending_rows locked now (tables s))) \<subseteq># queued w'"
proof -
  let ?t = "\<lparr>tx_saved = tables s, tx_failed = False\<rparr>" and ?rows = "pending_rows locked now (tables s)"
  have b: "Begin s = (Inr ?t, s)" using assms(6) by (simp add: Begin_def)
  have q: "tx_call (query (pending_rows locked now)) ?t s = (Inr ?rows, ?t, s)" using assms(6) by (simp add: query_def)
  have "unat (roundRobinIndex c) + length (map run_request ?rows) * length (WorkerPoolKeys c) < 2 ^ 32"
    using assms(3,4) by (simp add: le_less_trans [OF add_left_mono [OF mult_right_mono]])
  from dispatch_loop_takes_all [OF assms(1,2) this, of w s ?t now] assms(5,6)
  obtain s' c' w' where l: "dispatch_loop submit now (map run_request ?rows) ?t s c w = (?t, s', c', w')" "outcomes s' = []"
      "tables s' = mark now (RunRequest_RunId ` set (map run_request ?rows)) (tables s)" "queued w + mset (map run_request ?rows) \<subseteq># queued w'"
    by auto
  then show ?thesis by (simp add: dispatchPendingRuns_def b q Commit_def image_image run_request_def)
qed

end

text \<open>The workers of the model have room while their queue does and they are not draining.\<close>

definition has_room :: "string \<Rightarrow> nat \<Rightarrow> (string \<times> WorkerServer) list \<Rightarrow> bool" where
  "has_room addr n ws \<longleftrightarrow> (\<exists>w. map_of ws addr = Some w \<and> \<not> draining w \<and> length (runQueue w) + n \<le> runQueueSize)"

lemma cluster_submit_map:
  "cluster_submit a run ws = (r, ws') \<Longrightarrow>
     (case map_of ws a of
        None \<Rightarrow> r = Inl Unavailable \<and> ws' = ws
      | Some w \<Rightarrow> r = fst (SubmitRun run w) \<and> map_of ws' = (map_of ws)(a \<mapsto> snd (SubmitRun run w)))"
proof (induction a run ws arbitrary: r ws' rule: cluster_submit.induct)
  case (2 addr run a w ws)
  then show ?case by (auto split: prod.splits option.splits if_splits)
qed simp

lemma has_room_accepts:
  assumes "has_room addr (Suc n) ws"
  shows "\<exists>response ws'. cluster_submit addr run ws = (Inr response, ws') \<and> RunResponse_Accepted response"
proof -
  obtain r ws' where "cluster_submit addr run ws = (r, ws')" by (cases "cluster_submit addr run ws")
  with cluster_submit_map [OF this] assms show ?thesis
    by (auto simp: has_room_def SubmitRun_def split: option.splits)
qed

lemma has_room_kept:
  assumes "cluster_submit a run ws = (r, ws')"
  shows "has_room addr (Suc n) ws \<Longrightarrow> has_room addr n ws'"
    and "has_room addr n ws \<Longrightarrow> \<not> (\<exists>response. r = Inr response \<and> RunResponse_Accepted response) \<Longrightarrow> has_room addr n ws'"
  using cluster_submit_map [OF assms]
  by (auto simp: has_room_def SubmitRun_def declined_def split: option.splits if_splits)

text \<open>Behind an RPC whose calls are answered, that is the room a dispatch sees.\<close>

definition rpc_room :: "string \<Rightarrow> nat \<Rightarrow> rpc_outcome list \<times> (string \<times> WorkerServer) list \<Rightarrow> bool" where
  "rpc_room addr n w \<longleftrightarrow> fst w = [] \<and> has_room addr n (snd w)"

lemma rpc_room_cluster:
  "rpc_room addr n w \<Longrightarrow> rpc_submit a run w = (r, w') \<Longrightarrow> cluster_submit a run (snd w) = (r, snd w') \<and> fst w' = []"
  by (cases w) (auto simp: rpc_room_def split: prod.splits)

interpretation rpc_room: roomy_service rpc_submit "\<lambda>w. cluster_queued (snd w)" "\<lambda>w. lost_answers (fst w)" rpc_room
proof unfold_locales
  fix addr n w a run response w' and e :: go_error
  show "\<exists>response w'. rpc_submit addr run w = (Inr response, w') \<and> RunResponse_Accepted response" if "rpc_room addr (Suc n) w"
    using that has_room_accepts [of addr n "snd w" run] by (cases w) (auto simp: rpc_room_def)
  show "rpc_room addr n w'" if "rpc_room addr (Suc n) w" "rpc_submit a run w = (Inr response, w')" "RunResponse_Accepted response"
    using rpc_room_cluster [OF that(1,2)] has_room_kept(1) that(1) by (auto simp: rpc_room_def)
  show "rpc_room addr n w'" if "rpc_room addr n w" "rpc_submit a run w = (Inr response, w')" "\<not> RunResponse_Accepted response"
    using rpc_room_cluster [OF that(1,2)] has_room_kept(2) that(1,3) by (auto simp: rpc_room_def)
  show "rpc_room addr n w'" if "rpc_room addr n w" "rpc_submit a run w = (Inl e, w')"
    using rpc_room_cluster [OF that(1,2)] has_room_kept(2) that(1) by (auto simp: rpc_room_def)
qed

section \<open>One tick\<close>

interpretation runs_stay: server_invariant "\<lambda>s. runs (tables s) = rs" for rs
  by unfold_locales simp

lemma notifier_runs: "Notifier_RunOnce do_request baseURL sealer now s h = (n, e, s', h') \<Longrightarrow> runs (tables s') = runs (tables s)"
  by (rule runs_stay.notifier_keeps [OF _ refl]) (auto simp: keeps_def notified_stmt_def exec_def)

lemma reaper_spares:
  assumes "r \<in> set (runs (tables s))" and "\<not> lease_expired now r"
  shows "r \<in> set (runs (tables (snd (Reaper_RunOnce now s))))"
proof -
  have "r \<in> set (update_where (lease_expired now) (reap_row now) (runs (tables s)))"
    using reap_upd.other_rows_kept assms by blast
  then show ?thesis
    using assms(1) by (cases rule: pool_call_cases [of "reap_stmt now" s]) (auto simp: Reaper_RunOnce_def reap_stmt_def Let_def)
qed

lemma rest_of_tick_keeps:
  assumes "r \<in> set (runs (tables (w_server w)))" and "\<not> lease_expired (w_clock w (w_ticks w)) r"
  shows "r \<in> set (runs (tables (w_server (reportFailingAgents do_request baseURL sealer (reapExpiredRuns w)))))"
  using reaper_spares [OF assms]
  by (auto simp: reportFailingAgents_def reapExpiredRuns_def Now_def on_server_def dest: notifier_runs split: prod.splits)

lemma has_room_less: "has_room addr n ws \<Longrightarrow> m \<le> n \<Longrightarrow> has_room addr m ws"
  by (auto simp: has_room_def)

lemma batch_complete:
  assumes "length (filter (is_dispatchable now) (runs d)) \<le> dispatchBatchSize"
  shows "set (pending_rows (\<lambda>_. False) now d) = set (filter (is_dispatchable now) (runs d))"
    and "length (pending_rows (\<lambda>_. False) now d) = length (filter (is_dispatchable now) (runs d))"
  using assms by (simp_all add: pending_rows_def)

lemma fired_length: "length (fired env items) \<le> length items"
  by (induction items) (auto split: sum.splits)

text \<open>The run a pass makes of a due schedule, and how many runs are due after it.\<close>

lemma pass_effect:
  assumes "db_wf (tables s)" and "outcomes s = []" and "sch \<in> set (schedules (tables s))" and "is_due now (tables s) sch"
    and "Parse env (sch_cron_expression sch) (sch_timezone sch) = Inr spec"
    and "resolveFireTimes spec (scan_due sch) now = (fireAt, nextFireAt, False)"
  shows "\<exists>created s' r. Materializer_RunOnce pg env (\<lambda>_. False) now s = (Inr created, s') \<and> outcomes s' = [] \<and>
    r \<in> set (runs (tables s')) \<and> r_schedule_id r = Some (sch_id sch) \<and> r_agent_id r = sch_agent_id sch \<and>
    r_scheduled_for r = fireAt \<and> r_status r = RunPending \<and>
    length (filter p (runs (tables s'))) \<le> length (filter p (runs (tables s))) + length (due_schedules (\<lambda>_. False) now (tables s))"
proof -
  let ?due = "due_schedules (\<lambda>_. False) now (tables s)"
  let ?fs = "fired env ?due"
  let ?row = "\<lambda>k. fired_run now (pg_now s) (?fs ! k) (uuid_v4 pg (serial s + k))"
  obtain created s' where run: "Materializer_RunOnce pg env (\<lambda>_. False) now s = (Inr created, s')" "outcomes s' = []"
    using materializer_served [OF assms(1,2)] by blast
  have rs: "runs (tables s') = runs (tables s) @ map ?row [0..<length ?fs]"
    using RunOnce_ok [OF db_wf_sch_ids [OF assms(1)] run(1)] by simp
  have "(scan_due sch, spec) \<in> set ?fs"
    using assms(3-5) by (auto simp: fired_memb due_memb scan_due_def)
  then obtain k where k: "k < length ?fs" "?fs ! k = (scan_due sch, spec)" by (auto simp: in_set_conv_nth)
  have len: "length ?fs \<le> length ?due" by (rule fired_length)
  have "r_schedule_id (?row k) = Some (sch_id sch) \<and> r_agent_id (?row k) = sch_agent_id sch \<and> r_scheduled_for (?row k) = fireAt \<and>
      r_status (?row k) = RunPending"
    by (simp add: k(2) fired_run_def assms(6) new_run_row_def) (simp add: scan_due_def)
  moreover have "?row k \<in> set (runs (tables s'))" using k(1) by (simp add: rs)
  moreover have "length (filter p (map ?row [0..<length ?fs])) \<le> length ?due"
    using length_filter_le [of p "map ?row [0..<length ?fs]"] len by simp
  ultimately show ?thesis using run by (intro exI [of _ created] exI [of _ s'] exI [of _ "?row k"]) (simp add: rs)
qed

text \<open>
  C7: a schedule that is due when a tick reads the clock is running on a worker when the tick ends.
  The conditions: the calls on the database and the RPCs to the workers are answered, and no
  other transaction holds rows; the schedule's expression parses and its fire time is within the
  grace window; the clock does not go back between the tick's readings and the reaper's reading
  is no later than one TTL after the dispatch's; a registered worker has room in its queue for all the
  runs that are due or become due; and the rotation counter does not wrap while they are offered.
  Then the tick records the run, marks it running with a lease of one TTL from the dispatch's
  reading, which its own reaper leaves alone, and the run is in the workers' queues.
\<close>

theorem due_schedule_runs_this_tick:
  assumes "db_wf (tables (w_server w))" and "outcomes (w_server w) = []" and "env_later env"
    and "w_clock w (w_ticks w) \<le> w_clock w (Suc (w_ticks w))"
    and "w_clock w (Suc (Suc (w_ticks w))) \<le> w_clock w (Suc (w_ticks w)) + LeaseTTL"
    and "sch \<in> set (schedules (tables (w_server w)))" and "is_due (w_clock w (w_ticks w)) (tables (w_server w)) sch"
    and "Parse env (sch_cron_expression sch) (sch_timezone sch) = Inr spec"
    and "resolveFireTimes spec (scan_due sch) (w_clock w (w_ticks w)) = (fireAt, nextFireAt, False)"
    and "pool_wf c" and "(k, wi) \<in> set (WorkerPool c)" and "unat (roundRobinIndex c) + n * length (WorkerPoolKeys c) < 2 ^ 32"
    and "length (filter (is_dispatchable (w_clock w (Suc (w_ticks w)))) (runs (tables (w_server w)))) +
      length (due_schedules (\<lambda>_. False) (w_clock w (w_ticks w)) (tables (w_server w))) \<le> n"
    and "has_room (worker_address wi) n ws"
  shows "\<exists>w' c' os' ws' r. tick pg env rpc_submit do_request baseURL sealer (\<lambda>_. False) (\<lambda>_. False) w c ([], ws) = (w', c', (os', ws')) \<and>
    r \<in> set (runs (tables (w_server w'))) \<and> r_schedule_id r = Some (sch_id sch) \<and> r_agent_id r = sch_agent_id sch \<and>
    r_scheduled_for r = fireAt \<and> r_status r = RunRunning \<and> r_picked_at r = Some (w_clock w (Suc (w_ticks w))) \<and>
    r_lease_expires_at r = Some (w_clock w (Suc (w_ticks w)) + LeaseTTL) \<and> run_request r \<in># cluster_queued ws'"
proof -
  let ?t1 = "w_clock w (w_ticks w)" and ?t2 = "w_clock w (Suc (w_ticks w))"
  obtain created s1 r where pass: "Materializer_RunOnce pg env (\<lambda>_. False) ?t1 (w_server w) = (Inr created, s1)" "outcomes s1 = []"
      and r: "r \<in> set (runs (tables s1))" "r_schedule_id r = Some (sch_id sch)" "r_agent_id r = sch_agent_id sch" "r_scheduled_for r = fireAt"
        "r_status r = RunPending"
      and due: "length (filter (is_dispatchable ?t2) (runs (tables s1))) \<le> n"
    using pass_effect [OF assms(1,2,6-9), of pg "is_dispatchable ?t2"] assms(13) by (auto intro: order_trans)
  let ?rows = "pending_rows (\<lambda>_. False) ?t2 (tables s1)"
  have "due_nextFireAt (scan_due sch) \<le> ?t1"
    using assms(7) by (auto simp: is_due_def scan_due_def fire_time_def split: option.splits)
  then have "fireAt \<le> ?t1"
    using resolveFireTimes_bounds [OF _ _ assms(9)] assms(3,8) by (auto simp: env_later_def)
  then have "is_dispatchable ?t2 r" using r(4,5) assms(4) by (simp add: is_dispatchable_def)
  moreover have "n \<le> dispatchBatchSize" using assms(14) by (auto simp: has_room_def runQueueSize_def dispatchBatchSize_def)
  ultimately have rows: "r \<in> set ?rows" "length ?rows \<le> n"
    using batch_complete [of ?t2 "tables s1"] due r(1) by auto
  have room: "rpc_room (worker_address wi) (length ?rows) ([], ws)"
    using has_room_less [OF assms(14) rows(2)] by (simp add: rpc_room_def)
  from rpc_room.dispatch_takes_all [OF assms(10,11) rows(2) assms(12) room pass(2)]
  obtain s2 c' os' ws' where d: "dispatchPendingRuns rpc_submit (\<lambda>_. False) ?t2 s1 c ([], ws) = (s2, c', (os', ws'))"
      "tables s2 = mark ?t2 (r_id ` set ?rows) (tables s1)" "cluster_queued ws + mset (map run_request ?rows) \<subseteq># cluster_queued ws'"
    by auto
  let ?r = "pick_row ?t2 r"
  let ?w = "w\<lparr>w_ticks := Suc (Suc (w_ticks w)), w_server := s2\<rparr>"
  have "?r \<in> set (runs (tables s2))" using r(1) rows(1) by (auto simp: d(2) mark_def set_update_where)
  moreover have "\<not> lease_expired (w_clock w (Suc (Suc (w_ticks w)))) ?r"
    using assms(5) by (simp add: lease_expired_def pick_row_def)
  ultimately have "?r \<in> set (runs (tables (w_server (reportFailingAgents do_request baseURL sealer (reapExpiredRuns ?w)))))"
    by (intro rest_of_tick_keeps) simp_all
  moreover have "tick pg env rpc_submit do_request baseURL sealer (\<lambda>_. False) (\<lambda>_. False) w c ([], ws) =
      (reportFailingAgents do_request baseURL sealer (reapExpiredRuns ?w), c', (os', ws'))"
    by (simp add: tick_def materializeSchedules_def dispatch_part_def Now_def on_server_def pass(1) d(1))
  moreover have "run_request ?r \<in># cluster_queued ws'"
    by (rule mset_subset_eqD [OF d(3)]) (use rows(1) in \<open>auto simp: run_request_def pick_row_def\<close>)
  ultimately show ?thesis using r by (intro exI conjI) (auto simp: pick_row_def)
qed

text \<open>The daily schedule of the fixture a minute after its time, with three workers known and one of them up.\<close>

definition minute_past :: "nat world" where
  "minute_past = demo_world\<lparr>w_clock := \<lambda>_. demo_now\<rparr>"

theorem due_schedule_runs_this_tick_witness:
  "\<exists>w' c' os' ws' r. tick demo_pg demo_env rpc_submit demo_http [] None (\<lambda>_. False) (\<lambda>_. False) minute_past three_workers
      ([], [(''c'', NewServerWithExecutor)]) = (w', c', (os', ws')) \<and>
    r \<in> set (runs (tables (w_server w'))) \<and> r_schedule_id r = Some ''s1'' \<and> r_status r = RunRunning \<and>
    r_lease_expires_at r = Some (demo_now + 60 * Second) \<and>
    run_request r \<in># cluster_queued ws'"
proof -
  let ?sch = "demo_schedule ''s1'' ''a1''" and ?wi = "\<lparr>heartbeatMisses = 0, worker_address = ''c''\<rparr>"
  have w: "w_server minute_past = demo_server" "w_clock minute_past = (\<lambda>_. demo_now)"
    by (simp_all add: minute_past_def demo_world_def)
  have e: "sch_cron_expression ?sch = ''0 0 * * *''" "sch_timezone ?sch = ''UTC''" "sch_id ?sch = ''s1''"
    by (simp_all add: demo_schedule_def)
  have fire: "resolveFireTimes demo_spec (scan_due ?sch) demo_now = (739402 * Day, 739403 * Day, False)"
    using demo_resolve by (simp add: demo_due_def)
  have "is_due demo_now demo_db ?sch" "is_dispatchable demo_now (demo_run ''r1'' ''a1'' RunPending 5)"
    by code_simp+
  moreover have "has_room ''c'' 2 [(''c'', NewServerWithExecutor)]" by (simp add: has_room_def NewServerWithExecutor_def runQueueSize_def)
  moreover have "(3, ?wi) \<in> set (WorkerPool three_workers)" "unat (roundRobinIndex three_workers) + 2 * length (WorkerPoolKeys three_workers) < 2 ^ 32"
    by (simp_all add: three_workers_def NewServerWithClock_def)
  ultimately show ?thesis
    using due_schedule_runs_this_tick [where w = minute_past and env = demo_env and pg = demo_pg and sch = ?sch and spec = demo_spec
        and c = three_workers and k = 3 and wi = ?wi and n = 2 and ws = "[(''c'', NewServerWithExecutor)]" and do_request = demo_http
        and baseURL = "[]" and sealer = None and fireAt = "739402 * Day" and nextFireAt = "739403 * Day"]
    by (simp add: w e fire demo_db_wf demo_env_later demo_Parse demo_due_list three_workers_wf LeaseTTL_def Second_def) blast
qed

end
