(* ===== verification/History.thy ===== *)
theory History
  imports System
begin

text \<open>
  What the services never take back. A run and the steps of its trace are facts: whatever the
  services do later, they are there until their agent is deleted, and what identifies a run
  and what has happened to it stays so.
\<close>

section \<open>A run later in its life\<close>

definition later_run :: "run_row \<Rightarrow> run_row \<Rightarrow> bool" where
  "later_run r r' \<longleftrightarrow>
     r_id r' = r_id r \<and> r_user_id r' = r_user_id r \<and> r_agent_id r' = r_agent_id r \<and> r_trigger r' = r_trigger r \<and>
     r_scheduled_for r' = r_scheduled_for r \<and> r_created_at r' = r_created_at r \<and>
     r_schedule_id r' \<in> {r_schedule_id r, None} \<and>
     (r_status r' \<in> {RunPending, RunMissed} \<longrightarrow> r_status r' = r_status r) \<and>
     (r_picked_at r \<noteq> None \<longrightarrow> r_picked_at r' \<noteq> None) \<and> (r_started_at r \<noteq> None \<longrightarrow> r_started_at r' \<noteq> None) \<and>
     (r_finished_at r \<noteq> None \<longrightarrow> r_finished_at r' \<noteq> None) \<and> (r_read_at r \<noteq> None \<longrightarrow> r_read_at r' = r_read_at r)"

lemma later_run_refl [simp, intro]: "later_run r r"
  by (simp add: later_run_def)

lemma later_run_trans: "later_run r r1 \<Longrightarrow> later_run r1 r2 \<Longrightarrow> later_run r r2"
  unfolding later_run_def by (elim conjE, intro conjI) (simp | blast | metis)+

section \<open>The database and a moment before\<close>

text \<open>What the soundness of a database says of its runs and steps.\<close>

lemma run_agent_known:
  assumes "db_wf d" and "r \<in> set (runs d)"
  shows "r_agent_id r \<in> all_ids d"
proof -
  have "set (map r_agent_id (runs d)) \<subseteq> set (map ag_id (agents d))"
    using assms(1) by (simp only: db_wf_def references_hold_def)
  then show ?thesis using assms(2) by (auto simp: all_ids_def)
qed

lemma step_run_known:
  assumes "db_wf d" and "t \<in> set (run_steps d)"
  shows "st_run_id t \<in> all_ids d"
proof -
  have "set (map st_run_id (run_steps d)) \<subseteq> set (map r_id (runs d))"
    using assms(1) by (simp only: db_wf_def references_hold_def)
  then show ?thesis using assms(2) by (auto simp: all_ids_def)
qed

lemma same_row:
  assumes "db_wf d"
  shows "r \<in> set (runs d) \<Longrightarrow> r' \<in> set (runs d) \<Longrightarrow> r_id r = r_id r' \<Longrightarrow> r = r'"
    and "a \<in> set (agents d) \<Longrightarrow> a' \<in> set (agents d) \<Longrightarrow> ag_id a = ag_id a' \<Longrightarrow> a = a'"
proof -
  have "distinct (map r_id (runs d))" "distinct (map ag_id (agents d))"
    using assms by (simp_all only: db_wf_def keys_unique_def)
  then have inj: "inj_on r_id (set (runs d))" "inj_on ag_id (set (agents d))" by (simp_all only: distinct_map)
  show "r \<in> set (runs d) \<Longrightarrow> r' \<in> set (runs d) \<Longrightarrow> r_id r = r_id r' \<Longrightarrow> r = r'" by (rule inj_onD [OF inj(1)])
  show "a \<in> set (agents d) \<Longrightarrow> a' \<in> set (agents d) \<Longrightarrow> ag_id a = ag_id a' \<Longrightarrow> a = a'" by (rule inj_onD [OF inj(2)])
qed

text \<open>
  Identifiers that were in use at that moment are not given out again, so an agent that has been
  deleted does not come back, nor does a run.
\<close>

definition since :: "postgres \<Rightarrow> server \<Rightarrow> server \<Rightarrow> bool" where
  "since pg s0 s \<longleftrightarrow>
     (\<forall>n \<ge> serial s. uuid_v4 pg n \<notin> all_ids (tables s0)) \<and>
     (\<forall>r \<in> set (runs (tables s0)). r_agent_id r \<in> ag_id ` set (agents (tables s)) \<longrightarrow>
        (\<exists>r' \<in> set (runs (tables s)). later_run r r')) \<and>
     (\<forall>t \<in> set (run_steps (tables s0)). st_run_id t \<in> r_id ` set (runs (tables s)) \<longrightarrow> t \<in> set (run_steps (tables s)))"

text \<open>Soundness now, soundness then, and what has been since.\<close>

definition history :: "postgres \<Rightarrow> server \<Rightarrow> server \<Rightarrow> bool" where
  "history pg s0 s \<longleftrightarrow> server_wf pg s \<and> server_wf pg s0 \<and> since pg s0 s"

lemma history_start: "server_wf pg s \<Longrightarrow> history pg s s"
  by (auto simp: history_def since_def server_wf_def)

text \<open>
  How a write carries the history on: runs of agents that stay are carried on, steps of runs that
  stay are kept, and the only new identifiers are ones not in use before.
\<close>

lemma since_write:
  assumes "history pg s0 s" and "serial s \<le> serial s'"
    and runs: "\<forall>r \<in> set (runs (tables s)). r_agent_id r \<in> ag_id ` set (agents (tables s')) \<longrightarrow> (\<exists>r' \<in> set (runs (tables s')). later_run r r')"
    and steps: "\<forall>t \<in> set (run_steps (tables s)). st_run_id t \<in> r_id ` set (runs (tables s')) \<longrightarrow> t \<in> set (run_steps (tables s'))"
    and ids: "ag_id ` set (agents (tables s')) \<subseteq> insert (uuid_v4 pg (serial s)) (ag_id ` set (agents (tables s)))"
      "r_id ` set (runs (tables s')) \<subseteq> insert (uuid_v4 pg (serial s)) (r_id ` set (runs (tables s)))"
  shows "since pg s0 s'"
proof -
  have s0: "db_wf (tables s0)" and before: "since pg s0 s" using assms(1) by (simp_all add: history_def server_wf_def)
  have new: "uuid_v4 pg (serial s) \<notin> all_ids (tables s0)" using before by (simp add: since_def)
  have "\<exists>r' \<in> set (runs (tables s')). later_run r r'"
    if r: "r \<in> set (runs (tables s0))" "r_agent_id r \<in> ag_id ` set (agents (tables s'))" for r
  proof -
    have "r_agent_id r \<in> all_ids (tables s0)" by (rule run_agent_known [OF s0 r(1)])
    with r(2) ids(1) new have "r_agent_id r \<in> ag_id ` set (agents (tables s))" by (metis insertE subsetD)
    then obtain r1 where r1: "r1 \<in> set (runs (tables s))" "later_run r r1" using before r(1) by (auto simp: since_def)
    then have "r_agent_id r1 \<in> ag_id ` set (agents (tables s'))" using r(2) by (simp add: later_run_def)
    with runs r1 show ?thesis by (blast intro: later_run_trans)
  qed
  moreover have "t \<in> set (run_steps (tables s'))"
    if t: "t \<in> set (run_steps (tables s0))" "st_run_id t \<in> r_id ` set (runs (tables s'))" for t
  proof -
    have "st_run_id t \<in> all_ids (tables s0)" by (rule step_run_known [OF s0 t(1)])
    with t(2) ids(2) new have "st_run_id t \<in> r_id ` set (runs (tables s))" by (metis insertE subsetD)
    with t before steps show ?thesis by (auto simp: since_def)
  qed
  ultimately show ?thesis using before assms(2) by (auto simp: since_def)
qed

text \<open>Writes that leave runs, steps and the identifiers of agents alone.\<close>

lemma since_aside:
  assumes "history pg s0 s" and "serial s \<le> serial s'" and "runs (tables s') = runs (tables s)"
    and "set (run_steps (tables s)) \<subseteq> set (run_steps (tables s'))"
    and "ag_id ` set (agents (tables s')) \<subseteq> insert (uuid_v4 pg (serial s)) (ag_id ` set (agents (tables s)))"
  shows "since pg s0 s'"
  using assms by (intro since_write [OF assms(1)]) auto

text \<open>Updates of runs that carry them on.\<close>

lemma since_map_runs:
  assumes "history pg s0 s" and "serial s \<le> serial s'" and "runs (tables s') = map g (runs (tables s))" and "\<And>r. later_run r (g r)"
    and "set (run_steps (tables s)) \<subseteq> set (run_steps (tables s'))" and "ag_id ` set (agents (tables s')) \<subseteq> ag_id ` set (agents (tables s))"
  shows "since pg s0 s'"
proof (rule since_write [OF assms(1,2)])
  show "\<forall>r \<in> set (runs (tables s)). r_agent_id r \<in> ag_id ` set (agents (tables s')) \<longrightarrow> (\<exists>r' \<in> set (runs (tables s')). later_run r r')"
    using assms(3,4) by auto
  have "r_id (g r) = r_id r" for r using assms(4) [of r] by (simp add: later_run_def)
  then show "r_id ` set (runs (tables s')) \<subseteq> insert (uuid_v4 pg (serial s)) (r_id ` set (runs (tables s)))"
    using assms(3) by auto
qed (use assms(5,6) in auto)

lemma since_update_runs:
  assumes "history pg s0 s" and "\<And>r. p r \<Longrightarrow> later_run r (f r)"
  shows "since pg s0 (s\<lparr>tables := (tables s)\<lparr>runs := update_where p f (runs (tables s))\<rparr>\<rparr>)"
  by (rule since_map_runs [OF assms(1), where g = "\<lambda>r. if p r then f r else r"]) (auto simp: update_where_def assms(2))

section \<open>Every statement\<close>

lemma keeps_history:
  assumes "keeps (server_wf pg) f" and "\<And>s. history pg s0 s \<Longrightarrow> since pg s0 (snd (f s))"
  shows "keeps (history pg s0) f"
  using assms by (auto simp: keeps_def history_def)

lemma keeps_aside:
  assumes "keeps (server_wf pg) f"
    and "\<And>s. serial s \<le> serial (snd (f s))" "\<And>s. runs (tables (snd (f s))) = runs (tables s)"
      "\<And>s. set (run_steps (tables s)) \<subseteq> set (run_steps (tables (snd (f s))))"
      "\<And>s. ag_id ` set (agents (tables (snd (f s)))) \<subseteq> insert (uuid_v4 pg (serial s)) (ag_id ` set (agents (tables s)))"
  shows "keeps (history pg s0) f"
  by (rule keeps_history [OF assms(1)], rule since_aside) (assumption | rule assms)+

lemma keeps_update_runs:
  assumes "keeps (server_wf pg) f" and "\<And>r. p r \<Longrightarrow> later_run r (g r)"
    and "\<And>s. snd (f s) = s\<lparr>tables := (tables s)\<lparr>runs := update_where p g (runs (tables s))\<rparr>\<rparr>"
  shows "keeps (history pg s0) f"
  by (rule keeps_history [OF assms(1)]) (simp add: assms(2,3) since_update_runs)

lemma cascade_runs_map:
  "\<exists>g. runs (cascade_agents p d) = map g (delete_where (\<lambda>r. \<exists>a \<in> set (agents d). p a \<and> ag_id a = r_agent_id r) (runs d)) \<and>
     (\<forall>r. later_run r (g r))"
  by (rule exI [of _ "\<lambda>r. if \<exists>x \<in> set (schedules d). (\<exists>a \<in> set (agents d). p a \<and> ag_id a = sch_agent_id x) \<and>
        r_schedule_id r = Some (sch_id x) then r\<lparr>r_schedule_id := None\<rparr> else r"])
    (simp add: cascade_agents_def forget_schedules_def cascade_runs_def update_where_def Let_def later_run_def)

lemma cascade_since:
  assumes "history pg s0 s"
  shows "since pg s0 (s\<lparr>tables := cascade_agents p (tables s)\<rparr>)"
proof (rule since_write [OF assms])
  let ?d = "tables s" and ?d' = "cascade_agents p (tables s)"
  let ?gone = "\<lambda>r. \<exists>a \<in> set (agents ?d). p a \<and> ag_id a = r_agent_id r"
  have wf: "db_wf ?d" using assms by (simp add: history_def server_wf_def)
  obtain g where g: "runs ?d' = map g (delete_where ?gone (runs ?d))" "\<And>r. later_run r (g r)"
    using cascade_runs_map [of p ?d] by blast
  have rid: "r_id (g r) = r_id r" for r using g(2) [of r] by (simp add: later_run_def)
  have stay: "\<not> ?gone r" if "r_agent_id r \<in> ag_id ` set (agents ?d')" for r
    using that same_row(2) [OF wf] by (auto simp: cascade_agents_fields(1) delete_where_def) metis
  show "\<forall>r \<in> set (runs (tables s)). r_agent_id r \<in> ag_id ` set (agents (tables (s\<lparr>tables := ?d'\<rparr>))) \<longrightarrow>
      (\<exists>r' \<in> set (runs (tables (s\<lparr>tables := ?d'\<rparr>))). later_run r r')"
    using g(2) stay by (auto simp: g(1) delete_where_def)
  show "r_id ` set (runs (tables (s\<lparr>tables := ?d'\<rparr>))) \<subseteq> insert (uuid_v4 pg (serial s)) (r_id ` set (runs (tables s)))"
    by (auto simp: g(1) rid delete_where_def)
  have "st_run_id t \<noteq> r_id r" if r: "?gone r" "r \<in> set (runs ?d)" "st_run_id t \<in> r_id ` set (runs ?d')" for r t
  proof
    assume eq: "st_run_id t = r_id r"
    from r(3) obtain r1 where "r1 \<in> set (runs ?d)" "\<not> ?gone r1" "st_run_id t = r_id r1"
      by (auto simp only: g(1) set_map delete_where_def set_filter rid image_iff mem_Collect_eq) blast
    with same_row(1) [OF wf r(2), of r1] r(1) eq show False by auto
  qed
  then show "\<forall>t \<in> set (run_steps (tables s)). st_run_id t \<in> r_id ` set (runs (tables (s\<lparr>tables := ?d'\<rparr>))) \<longrightarrow>
      t \<in> set (run_steps (tables (s\<lparr>tables := ?d'\<rparr>)))"
    by (auto simp: cascade_agents_fields(7) delete_where_def)
qed (auto simp: cascade_agents_fields delete_where_def)

text \<open>The statements: those of the API, of the coordinator, and of the executor.\<close>

lemma agent_stmts_history:
  "keeps (history pg s0) (insert_agent pg userID agent)" "keeps (history pg s0) (update_agent_stmt userID u agent)"
  "keeps (history pg s0) (delete_agent_stmt userID u)"
proof -
  show "keeps (history pg s0) (insert_agent pg userID agent)"
    by (rule keeps_aside [OF agent_stmts_wf(1)])
      (auto simp: insert_agent_def Let_def set_agent_columns_def blank_agent_row_def)
  show "keeps (history pg s0) (update_agent_stmt userID u agent)"
    by (rule keeps_aside [OF agent_stmts_wf(2)])
      (auto simp: update_agent_stmt_def update_where_def update_agent_row_def set_agent_columns_def)
  show "keeps (history pg s0) (delete_agent_stmt userID u)"
    by (rule keeps_history [OF agent_stmts_wf(3)]) (simp add: delete_agent_stmt_def cascade_since)
qed

lemma schedule_stmts_history:
  "keeps (history pg s0) (upsert_schedule pg userID u schedule t w)" "keeps (history pg s0) (delete_schedule_stmt userID u)"
  "keeps (history pg s0) (advance_schedule i fireAt nextFireAt wall)"
proof -
  show "keeps (history pg s0) (upsert_schedule pg userID u schedule t w)"
    by (rule keeps_aside [OF schedule_stmts_wf(1)]) (auto simp: upsert_schedule_def Let_def split: list.split)
  show "keeps (history pg s0) (delete_schedule_stmt userID u)"
  proof (rule keeps_history [OF schedule_stmts_wf(2)])
    fix s :: server
    let ?g = "\<lambda>r. if \<exists>x \<in> set (schedules (tables s)). names_schedule userID u x \<and> r_schedule_id r = Some (sch_id x)
        then r\<lparr>r_schedule_id := None\<rparr> else r"
    assume "history pg s0 s"
    then show "since pg s0 (snd (delete_schedule_stmt userID u s))"
      by (rule since_map_runs [where g = ?g]) (auto simp: delete_schedule_stmt_def forget_schedules_def update_where_def later_run_def)
  qed
  show "keeps (history pg s0) (advance_schedule i fireAt nextFireAt wall)"
    by (rule keeps_aside [OF schedule_stmts_wf(3)]) (auto simp: advance_schedule_def exec_def)
qed

lemma insert_run_history:
  assumes "status \<in> {RunPending, RunMissed}"
  shows "keeps (history pg s0) (insert_run pg userID agentID scheduleID trigger status scheduledFor)"
  by (rule keeps_history [OF insert_run_wf [OF assms]], rule since_write, assumption)
    (auto simp: insert_run_def Let_def new_run_row_def)

lemma run_stmts_history:
  "keeps (history pg s0) (mark_read_stmt userID u t)" "keeps (history pg s0) (renew_stmt u t)"
  "keeps (history pg s0) (exec (\<lambda>d. d\<lparr>runs := update_where (\<lambda>r. r_id r = u) (\<lambda>r. r\<lparr>r_rendered_prompt := prompt\<rparr>) (runs d)\<rparr>))"
  "keeps (history pg s0) (pick_stmt u t)"
  "keeps (history pg s0) (exec (\<lambda>d. d\<lparr>runs := update_where (\<lambda>r. r_id r = u) (start_row t) (runs d)\<rparr>))"
  "status \<in> {RunSucceeded, RunFailed, RunBudgetExceeded} \<Longrightarrow>
     keeps (history pg s0) (exec (\<lambda>d. d\<lparr>runs := update_where (\<lambda>r. r_id r = u) (finish_row status t req) (runs d)\<rparr>))"
proof -
  show "keeps (history pg s0) (mark_read_stmt userID u t)"
    by (rule keeps_update_runs [OF update_runs_wf(1), where p = "\<lambda>r. r_id r = u \<and> r_user_id r = userID \<and> r_read_at r = None"
          and g = "\<lambda>r. r\<lparr>r_read_at := Some t\<rparr>"]) (auto simp: mark_read_stmt_def Let_def later_run_def)
  show "keeps (history pg s0) (renew_stmt u t)"
    by (rule keeps_update_runs [OF update_runs_wf(2), where g = "renew_row t" and p = "\<lambda>r. r_id r = u \<and> r_status r = RunRunning"])
      (auto simp: renew_stmt_def Let_def renew_row_def later_run_def)
  show "keeps (history pg s0) (exec (\<lambda>d. d\<lparr>runs := update_where (\<lambda>r. r_id r = u) (\<lambda>r. r\<lparr>r_rendered_prompt := prompt\<rparr>) (runs d)\<rparr>))"
    by (rule keeps_update_runs [OF update_runs_wf(3)]) (auto simp: exec_def later_run_def)
  show "keeps (history pg s0) (pick_stmt u t)"
    by (rule keeps_update_runs [OF update_runs_wf(4), where g = "pick_row t"])
      (auto simp: pick_stmt_def exec_def pick_row_def later_run_def status_defs)
  show "keeps (history pg s0) (exec (\<lambda>d. d\<lparr>runs := update_where (\<lambda>r. r_id r = u) (start_row t) (runs d)\<rparr>))"
    by (rule keeps_update_runs [OF update_runs_wf(5), where g = "start_row t"])
      (auto simp: exec_def start_row_def later_run_def status_defs)
  show "keeps (history pg s0) (exec (\<lambda>d. d\<lparr>runs := update_where (\<lambda>r. r_id r = u) (finish_row status t req) (runs d)\<rparr>))"
    if "status \<in> {RunSucceeded, RunFailed, RunBudgetExceeded}"
    by (rule keeps_update_runs [OF update_runs_wf(6) [OF that], where g = "finish_row status t req"])
      (use that in \<open>auto simp: exec_def finish_row_def later_run_def status_defs\<close>)
qed

lemma outcome_stmts_history:
  "keeps (history pg s0) (exec (\<lambda>d. d\<lparr>agents := update_where (p d) clear_failures (agents d)\<rparr>))"
  "keeps (history pg s0) (exec (\<lambda>d. d\<lparr>agents := update_where (p d) count_failure (agents d)\<rparr>))"
  "keeps (history pg s0) (notified_stmt i t)"
  by (rule keeps_aside, rule update_agents_wf;
      fastforce simp: notified_stmt_def exec_def update_where_def clear_failures_def count_failure_def notified_row_def)+

lemma reap_history: "keeps (history pg s0) (reap_stmt t)"
  by (rule keeps_history [OF reap_wf], rule since_map_runs [where g = "\<lambda>r. if lease_expired t r then reap_row t r else r"], assumption)
    (auto simp: reap_stmt_def Let_def update_where_def reap_row_def later_run_def status_defs count_failure_def, metis image_eqI)

lemma other_stmts_history:
  "keeps (history pg s0) (insert_step pg runID k step)" "keeps (history pg s0) (insert_memory pg userID agentID ns key content)"
  "keeps (history pg s0) (exec (prune_namespace userID ns))" "keeps (history pg s0) (delete_memory_stmt userID u)"
  "keeps (history pg s0) (upsert_secret pg userID name v k' m)" "keeps (history pg s0) (delete_secret_stmt userID name)"
  "keeps (history pg s0) (insert_session token userID t)"
  by (rule keeps_aside, rule other_stmts_wf;
      auto simp: insert_step_def insert_memory_def exec_def prune_namespace_def delete_memory_stmt_def upsert_secret_def
        delete_secret_stmt_def insert_session_def Let_def split: option.split list.split)+

lemma history_users:
  "history pg s0 s \<Longrightarrow> server_wf pg (s\<lparr>tables := (tables s)\<lparr>users := us\<rparr>\<rparr>) \<Longrightarrow> history pg s0 (s\<lparr>tables := (tables s)\<lparr>users := us\<rparr>\<rparr>)"
  "history pg s0 s \<Longrightarrow> history pg s0 (s\<lparr>tables := (tables s)\<lparr>sessions := delete_where w (sessions (tables s))\<rparr>\<rparr>)"
  by (simp_all add: history_def since_def leaf_delete_wf)

lemma history_later:
  "history pg s0 s \<Longrightarrow> tables s' = tables s \<Longrightarrow> serial s \<le> serial s' \<Longrightarrow> history pg s0 s'"
  by (auto simp: history_def since_def intro: server_wf_later)

interpretation hist: all_statements_keep "history pg s0" pg for pg s0
proof unfold_locales
  show "history pg s0 (s\<lparr>outcomes := os\<rparr>) = history pg s0 s" for os s
    by (simp add: history_def since_def server_wf_def)
  show "keeps (history pg s0) (insert_run pg OwnerUserID u None TriggerManual RunPending t)" for u t
    by (rule insert_run_history) simp
  show "history pg s0 s \<Longrightarrow> history pg s0 (s\<lparr>tables := (tables s)\<lparr>users :=
      update_where (\<lambda>x. usr_id x = OwnerUserID) (settings_row settings) (users (tables s))\<rparr>\<rparr>)" for s settings
    by (rule history_users, assumption, rule users_update_wf) (simp_all add: settings_row_def history_def)
  show "history pg s0 s \<Longrightarrow> history pg s0 (s\<lparr>tables := set_hash userID hash (tables s)\<rparr>)" for s userID hash
    unfolding set_hash_def by (rule history_users, assumption, rule users_update_wf) (simp_all add: history_def)
qed (simp_all add: agent_stmts_history schedule_stmts_history other_stmts_history history_users insert_run_history run_stmts_history
      outcome_stmts_history reap_history history_later)

section \<open>What stays\<close>

lemma history_reachable:
  assumes "(system_step srv submit)\<^sup>*\<^sup>* s0 s" and "installed srv" and "server_wf (srv_pg srv) s0"
  shows "history (srv_pg srv) s0 s"
  using assms(1)
proof (induction rule: rtranclp_induct)
  case base
  show ?case by (rule history_start [OF assms(3)])
next
  case (step s1 s2)
  then show ?case using hist.system_step_keeps [OF _ assms(2) refl] by blast
qed

text \<open>
  C6: whatever the services do after some moment, every run of that moment is still there, under
  the same identifier, owner, agent, trigger and due time, until its agent is deleted; it never
  becomes pending or missed again, a moment at which it was picked, started, finished or read is
  not unset, and the first reading keeps its time. Every step of a trace is there unchanged as
  long as its run is.
\<close>

theorem runs_and_traces_are_permanent:
  assumes "inj (uuid_v4 (srv_pg srv))" and "installed srv" and "tables m = migrated_database created"
    and "(system_step srv submit)\<^sup>*\<^sup>* m s0" and "(system_step srv submit)\<^sup>*\<^sup>* s0 s"
  shows "(\<forall>r \<in> set (runs (tables s0)). r_agent_id r \<in> ag_id ` set (agents (tables s)) \<longrightarrow>
      (\<exists>r' \<in> set (runs (tables s)). later_run r r')) \<and>
    (\<forall>t \<in> set (run_steps (tables s0)). st_run_id t \<in> r_id ` set (runs (tables s)) \<longrightarrow> t \<in> set (run_steps (tables s)))"
proof -
  have "server_wf (srv_pg srv) s0"
    using system.reachable_inv [of srv m created submit s0] assms(1-4) by (simp add: sound_def)
  from history_reachable [OF assms(5,2) this] show ?thesis by (simp add: history_def since_def)
qed

text \<open>A run asked for, a step of its trace recorded, and its failure reported.\<close>

definition traced :: server where
  "traced = snd (StepStore_Record demo_pg ''id-1'' 0 (zero_Step\<lparr>Step_Content := ''thinking''\<rparr>) (api_server with_run))"

definition reported :: server where
  "reported = snd (UpdateRunStatus demo_pg 20 (status_request ''id-1'' FAILED ''boom'') traced)"

theorem runs_and_traces_are_permanent_witness:
  "map r_status (runs (tables traced)) = [RunPending] \<and> map r_status (runs (tables reported)) = [RunFailed] \<and>
   (\<exists>r' \<in> set (runs (tables reported)). later_run (hd (runs (tables traced))) r') \<and>
   length (run_steps (tables traced)) = 1 \<and> set (run_steps (tables traced)) \<subseteq> set (run_steps (tables reported))"
proof -
  have facts: "map r_status (runs (tables traced)) = [RunPending]" "map r_status (runs (tables reported)) = [RunFailed]"
    "length (run_steps (tables traced)) = 1"
    "list_all (\<lambda>r. r_agent_id r \<in> ag_id ` set (agents (tables reported))) (runs (tables traced))"
    "list_all (\<lambda>t. st_run_id t \<in> r_id ` set (runs (tables reported))) (run_steps (tables traced))"
    by code_simp+
  let ?steps = "(system_step demo_srv cluster_submit)\<^sup>*\<^sup>*"
  have pg: "srv_pg demo_srv = demo_pg" by (simp add: demo_srv_def)
  have "?steps (demo_server\<lparr>tables := migrated_database 0\<rparr>) traced" "?steps traced reported"
    using first_minutes [of cluster_submit] system_step.record_step [of demo_srv cluster_submit] system_step.report [of demo_srv cluster_submit]
    unfolding traced_def reported_def pg by (blast intro: rtranclp.rtrancl_into_rtrancl)+
  from runs_and_traces_are_permanent [OF _ demo_installed _ this]
  have kept: "\<forall>r \<in> set (runs (tables traced)). r_agent_id r \<in> ag_id ` set (agents (tables reported)) \<longrightarrow>
      (\<exists>r' \<in> set (runs (tables reported)). later_run r r')"
    "\<forall>t \<in> set (run_steps (tables traced)). st_run_id t \<in> r_id ` set (runs (tables reported)) \<longrightarrow> t \<in> set (run_steps (tables reported))"
    by (simp_all add: demo_ids demo_srv_def)
  have "hd (runs (tables traced)) \<in> set (runs (tables traced))" using facts(1) by (cases "runs (tables traced)") simp_all
  with kept facts show ?thesis unfolding list_all_iff by blast
qed

end
