(* ===== verification/Fake_Model.thy ===== *)
theory Fake_Model
  imports System
begin

text \<open>
  \<open>tests/fake_model.go\<close> and the \<open>Fake\<close> clock: the scripted model provider and the hand-driven
  clock of the integration tests, and what a run does against them. With the provider scripted,
  how the executor's own work ends is determined.
\<close>

section \<open>The clock (clock/clock.go)\<close>

record Fake =
  fake_now :: time

definition NewFake :: "time \<Rightarrow> Fake" where
  "NewFake now = \<lparr>fake_now = now\<rparr>"

definition Fake_Now :: "Fake \<Rightarrow> time" where
  "Fake_Now f = fake_now f"



text \<open>The world read through a \<open>Fake\<close> nobody moves.\<close>

definition read_from :: "Fake \<Rightarrow> 'h world \<Rightarrow> 'h world" where
  "read_from f w = w\<lparr>w_clock := \<lambda>_. Fake_Now f\<rparr>"

section \<open>The provider (tests/fake_model.go)\<close>

text \<open>
  The \<open>beforeRespond\<close> hook is not set; \<open>httptest\<close>'s server answers whatever is sent to it.
\<close>

record fakeModel =
  queued :: "Response list"
  fallback :: "Response option"
  failWith :: int
  requests :: "Request list"
  callCount :: int
  authorization :: string

definition newFakeModel :: fakeModel where
  "newFakeModel = \<lparr>queued = [], fallback = None, failWith = 0, requests = [], callCount = 0, authorization = []\<rparr>"

definition queue :: "Response \<Rightarrow> fakeModel \<Rightarrow> fakeModel" where
  "queue response f = f\<lparr>queued := queued f @ [response]\<rparr>"

definition always :: "Response \<Rightarrow> fakeModel \<Rightarrow> fakeModel" where
  "always response f = f\<lparr>fallback := Some response\<rparr>"

definition failWithStatus :: "int \<Rightarrow> fakeModel \<Rightarrow> fakeModel" where
  "failWithStatus status f = f\<lparr>failWith := status\<rparr>"

definition requestsReceived :: "fakeModel \<Rightarrow> Request list" where
  "requestsReceived f = requests f"

definition calls :: "fakeModel \<Rightarrow> int" where
  "calls f = callCount f"

definition authorizationSeen :: "fakeModel \<Rightarrow> string" where
  "authorizationSeen f = authorization f"

definition textResponse :: "string \<Rightarrow> Response" where
  "textResponse content =
     \<lparr>Response_Choices = [\<lparr>Choice_Message = \<lparr>Message_Role = RoleAssistant, Message_Content = content,
        Message_ToolCalls = [], Message_ToolCallID = []\<rparr>, Choice_FinishReason = ''stop''\<rparr>],
      Response_Usage = \<lparr>Usage_PromptTokens = 11, Usage_CompletionTokens = 7, Usage_TotalTokens = 18\<rparr>\<rparr>"

definition toolCallResponse :: "string \<Rightarrow> string \<Rightarrow> string \<Rightarrow> Response" where
  "toolCallResponse i name arguments =
     \<lparr>Response_Choices = [\<lparr>Choice_Message = \<lparr>Message_Role = RoleAssistant, Message_Content = [],
        Message_ToolCalls = [\<lparr>Call_ID = i, Call_Type = ''function'',
          Call_Function = \<lparr>Function_Name = name, Function_Arguments = arguments\<rparr>\<rparr>],
        Message_ToolCallID = []\<rparr>, Choice_FinishReason = ''tool_calls''\<rparr>],
      Response_Usage = \<lparr>Usage_PromptTokens = 13, Usage_CompletionTokens = 5, Usage_TotalTokens = 18\<rparr>\<rparr>"

text \<open>\<open>encoding/json\<close> on what the provider receives and sends.\<close>

record provider_json =
  decode_request :: "http_body \<Rightarrow> Request"
  encode_response :: "Response \<Rightarrow> string"

definition header :: "http_request \<Rightarrow> string \<Rightarrow> string" where
  "header r key = (case map_of (req_headers r) key of None \<Rightarrow> [] | Some v \<Rightarrow> v)"

definition handle :: "provider_json \<Rightarrow> http_request \<Rightarrow> fakeModel \<Rightarrow> http_response \<times> fakeModel" where
  "handle js r f =
     (let f1 = f\<lparr>requests := requests f @ [decode_request js (req_body r)], callCount := callCount f + 1,
            authorization := header r ''Authorization''\<rparr>
      in if failWith f1 \<noteq> 0 then
           (\<lparr>resp_status = failWith f1,
             resp_body = ''{\"error\":{\"message\":\"invalid api key\"}}'' @ [newline], resp_location = [], resp_broken = None\<rparr>, f1)
         else
           let (response, f2) =
             (case queued f1 of
                response # rest \<Rightarrow> (response, f1\<lparr>queued := rest\<rparr>)
              | [] \<Rightarrow> (case fallback f1 of
                    Some response \<Rightarrow> (response, f1)
                  | None \<Rightarrow> (textResponse ''no scripted response remained'', f1)))
           in (\<lparr>resp_status = StatusOK, resp_body = encode_response js response @ [newline], resp_location = [], resp_broken = None\<rparr>, f2))"

section \<open>The network of an integration test\<close>

text \<open>The provider beside the rest of the network, which the tools reach.\<close>

definition provider_http :: "provider_json \<Rightarrow> (fakeModel \<times> 'k) http" where
  "provider_http js r h = (case handle js r (fst h) of (response, f) \<Rightarrow> (Inr response, (f, snd h)))"

definition beside :: "'k net \<Rightarrow> (fakeModel \<times> 'k) net" where
  "beside nw =
     \<lparr>net_lookup = (\<lambda>host h. case net_lookup nw host (snd h) of (r, k) \<Rightarrow> (r, (fst h, k))),
      net_exchange = (\<lambda>req h. case net_exchange nw req (snd h) of (r, k) \<Rightarrow> (r, (fst h, k))),
      url_Parse = url_Parse nw, url_Resolve = url_Resolve nw\<rparr>"

section \<open>What the tools leave alone\<close>

text \<open>
  The contract: \<open>m\<close> is a part of the network that neither a resolution nor an exchange of the
  tools' network changes. Then no tool of an installation changes it.
\<close>

locale net_frame =
  fixes nw :: "'h net" and m :: "'h \<Rightarrow> 'm"
  assumes lookup_keeps: "m (snd (net_lookup nw host h)) = m h"
    and exchange_keeps: "m (snd (net_exchange nw req h)) = m h"
begin

lemma lookup_D: "net_lookup nw host h = (r, h') \<Longrightarrow> m h' = m h"
  using lookup_keeps [of host h] by simp

lemma exchange_D: "net_exchange nw req h = (r, h') \<Longrightarrow> m h' = m h"
  using exchange_keeps [of req h] by simp

lemma policy_check_keeps: "policy_check nw allow u h = (r, h') \<Longrightarrow> m h' = m h"
  by (auto simp: policy_check_def lookup_D split: if_splits prod.splits sum.splits)

lemma client_do_keeps: "client_do nw allow u req via h = (r, h') \<Longrightarrow> m h' = m h"
proof (induction "maxRedirects - via" arbitrary: u req via h rule: less_induct)
  case less
  have later: "m h' = m h2" if "client_do nw allow u2 req2 (Suc via) h2 = (r, h')" "\<not> maxRedirects \<le> Suc via" for u2 req2 h2
    using less.hyps [OF _ that(1)] that(2) by simp
  show ?case
    using less.prems
    by (subst (asm) client_do.simps)
      (auto simp: Let_def dest!: exchange_D policy_check_keeps later split: if_splits prod.splits sum.splits option.splits)
qed

lemma tool_calls_keep:
  "HTTPFetch_Execute nw allow dec arguments env h = (r, h') \<Longrightarrow> m h' = m h"
  "SendWebhook_Execute nw allow dec' arguments env h = (r, h') \<Longrightarrow> m h' = m h"
  "WebSearch_Execute ws (net_exchange nw) dec'' results arguments env h = (r, h') \<Longrightarrow> m h' = m h"
  by (auto simp: HTTPFetch_Execute_def SendWebhook_Execute_def WebSearch_Execute_def NewRequest_def Let_def
      dest!: policy_check_keeps client_do_keeps exchange_D split: if_splits prod.splits sum.splits option.splits)

lemma send_chunks_keeps: "send_chunks (net_exchange nw) baseURL token chatID chunks h = (r, h') \<Longrightarrow> m h' = m h"
  by (induction chunks arbitrary: h) (auto dest!: exchange_D split: if_splits prod.splits sum.splits)

lemma SendTelegram_keeps:
  "SendTelegram_Execute dec (net_exchange nw) baseURL sealer arguments env s h = (r, s', h') \<Longrightarrow> m h' = m h"
  by (auto simp: SendTelegram_Execute_def Let_def dest!: send_chunks_keeps split: if_splits prod.splits sum.splits option.splits)

text \<open>A tool leaves that part of the network and the clock alone.\<close>

definition steady :: "'h world Tool \<Rightarrow> bool" where
  "steady tool \<longleftrightarrow> (\<forall>arguments env w r w'. Tool_Execute tool arguments env w = (r, w') \<longrightarrow>
     m (w_net w') = m (w_net w) \<and> w_clock w' = w_clock w)"

lemma steady_net:
  assumes "\<And>arguments env. Tool_Execute tool arguments env = on_net (f arguments env)"
    and "\<And>arguments env h r h'. f arguments env h = (r, h') \<Longrightarrow> m h' = m h"
  shows "steady tool"
  using assms(2) by (auto simp: steady_def assms(1) on_net_def split: prod.splits)

lemma steady_server: "(\<And>arguments env. Tool_Execute tool arguments env = on_server (f arguments env)) \<Longrightarrow> steady tool"
  by (auto simp: steady_def on_server_def split: prod.splits)

lemma steady_tools:
  "steady (HTTPFetch_tool dec nw allow)" "steady (SendWebhook_tool dec nw allow)" "steady (WebSearch_tool dec nw ws)"
  "steady (MemoryRead_tool dec)" "steady (MemoryWrite_tool dec pg)" "steady (SendTelegram_tool dec nw baseURL sealer)"
proof -
  show "steady (HTTPFetch_tool dec nw allow)" by (rule steady_net [OF _ tool_calls_keep(1)]) (simp add: HTTPFetch_tool_def)
  show "steady (SendWebhook_tool dec nw allow)" by (rule steady_net [OF _ tool_calls_keep(2)]) (simp add: SendWebhook_tool_def)
  show "steady (WebSearch_tool dec nw ws)" by (rule steady_net [OF _ tool_calls_keep(3)]) (simp add: WebSearch_tool_def)
  show "steady (MemoryRead_tool dec)" by (rule steady_server) (simp add: MemoryRead_tool_def)
  show "steady (MemoryWrite_tool dec pg)" by (rule steady_server) (simp add: MemoryWrite_tool_def)
  show "steady (SendTelegram_tool dec nw baseURL sealer)"
    using SendTelegram_keeps by (auto simp: steady_def SendTelegram_tool_def split: prod.splits)
qed

lemma runTool_steady:
  assumes "ex_registry e = BuildRegistry dec nw pool settings config" and "runTool e agent call env w = (r, w')"
  shows "m (w_net w') = m (w_net w) \<and> w_clock w' = w_clock w"
proof (cases "Registry_Get (ex_registry e) (Function_Name (Call_Function call))")
  case (Some tool)
  then have "steady tool"
    using steady_tools by (auto simp: assms(1) BuildRegistry_def Let_def Register_Get split: option.splits if_splits)
  then show ?thesis
    using assms(2) Some unfolding runTool_def Let_def steady_def by (auto split: if_splits)
qed (use assms(2) in \<open>auto simp: runTool_def Let_def split: if_splits\<close>)

end

interpretation provider: net_frame "beside nw" fst for nw :: "'k net"
  by unfold_locales (simp_all add: beside_def case_prod_unfold)

section \<open>What the database leaves alone\<close>

text \<open>While its calls are served, an executor does not make later ones fail, and leaves these rows.\<close>

definition calm :: "server \<Rightarrow> server \<Rightarrow> bool" where
  "calm s s' \<longleftrightarrow>
     (outcomes s = [] \<longrightarrow> outcomes s' = []) \<and> r_id ` set (runs (tables s')) = r_id ` set (runs (tables s)) \<and>
     agents (tables s') = agents (tables s) \<and> secrets (tables s') = secrets (tables s)"

lemma ids_update: "(\<And>r. r_id (f r) = r_id r) \<Longrightarrow> r_id ` set (update_where p f rs) = r_id ` set rs"
  by (auto simp: update_where_def image_Un image_image)

lemma calm_trans: "calm s s1 \<Longrightarrow> calm s1 s2 \<Longrightarrow> calm s s2"
  by (auto simp: calm_def)

lemma calm_pool: "(\<And>s. calm s (snd (q s))) \<Longrightarrow> calm s (snd (pool_call q s))"
proof -
  assume q: "\<And>s. calm s (snd (q s))"
  have "calm s (snd (next_outcome s))" by (auto simp: calm_def split: list.splits)
  then show ?thesis using calm_trans q by (cases q s rule: pool_call_cases) auto
qed

lemma calm_uuid: "(\<And>u. calm s (snd (k u s))) \<Longrightarrow> calm s (snd (with_uuid pg i k s))"
  by (auto simp: with_uuid_def calm_def split: option.split)

interpretation calm: executor_frame calm pg for pg
proof unfold_locales
  show "calm s (snd (SetRenderedPrompt pg runID prompt s))" for runID prompt s
    unfolding SetRenderedPrompt_def
    by (intro calm_pool calm_uuid) (simp add: exec_def calm_def ids_update)
  show "calm s (snd (StepStore_Record pg runID k step s))" for runID k step s
    unfolding StepStore_Record_def by (intro calm_pool calm_uuid) (auto simp: insert_step_def calm_def)
  show "calm s (snd (MemoryStore_Write pg userID agentID ns key content s))" for userID agentID ns key content s
  proof -
    have "calm s (snd (pool_call (with_uuid pg agentID (\<lambda>u. insert_memory pg userID u ns key content)) s))" for s
      by (intro calm_pool calm_uuid) (auto simp: insert_memory_def calm_def Let_def split: option.split)
    moreover have "calm s (snd (pool_call (exec (prune_namespace userID ns)) s))" for s
      by (intro calm_pool) (auto simp: exec_def prune_namespace_def calm_def)
    ultimately show ?thesis
      by (auto simp: MemoryStore_Write_def case_prod_unfold calm_def split: sum.split)
  qed
qed (auto simp: calm_def)

section \<open>A scripted provider\<close>

text \<open>The answer to the \<open>n\<close>-th call from now.\<close>

definition script :: "fakeModel \<Rightarrow> nat \<Rightarrow> Response" where
  "script f n =
     (if n < length (queued f) then queued f ! n
      else case fallback f of Some response \<Rightarrow> response | None \<Rightarrow> textResponse ''no scripted response remained'')"

definition plays :: "fakeModel \<Rightarrow> Response list \<Rightarrow> bool" where
  "plays f rs \<longleftrightarrow> failWith f = 0 \<and> (\<forall>n < length rs. rs ! n = script f n)"

text \<open>
  The JSON of the two sides fits: requests with this model and these tools arrive as they were
  sent, and these responses too.
\<close>

definition speaks :: "wire \<Rightarrow> provider_json \<Rightarrow> string \<Rightarrow> ToolDefinition list \<Rightarrow> Response list \<Rightarrow> bool" where
  "speaks wr js model defs rs \<longleftrightarrow>
     (\<forall>messages. let rq = \<lparr>Request_Model = model, Request_Messages = messages, Request_Tools = defs\<rparr> in
        \<exists>body. marshal_request wr rq = Inr body \<and> decode_request js (RawBody body) = rq) \<and>
     (\<forall>r \<in> set rs. unmarshal_response wr (encode_response js r @ [newline]) = Inr r \<and> Response_Choices r \<noteq> [])"

lemma handle_plays:
  assumes "plays f (r # rs)"
  obtains f' where "handle js rq f = (\<lparr>resp_status = StatusOK, resp_body = encode_response js r @ [newline], resp_location = [], resp_broken = None\<rparr>, f')"
    and "plays f' rs" and "requests f' = requests f @ [decode_request js (req_body rq)]"
    and "callCount f' = callCount f + 1" and "authorization f' = header rq ''Authorization''"
proof -
  let ?f1 = "f\<lparr>requests := requests f @ [decode_request js (req_body rq)], callCount := callCount f + 1,
      authorization := header rq ''Authorization''\<rparr>"
  let ?f' = "?f1\<lparr>queued := tl (queued f)\<rparr>"
  have r: "r = script f 0" and ok: "failWith f = 0" using assms by (auto simp: plays_def)
  have "script f (Suc n) = script ?f' n" for n
    by (cases "queued f") (simp_all add: script_def)
  then have "plays ?f' rs" using assms by (fastforce simp: plays_def)
  moreover have "handle js rq f = (\<lparr>resp_status = StatusOK, resp_body = encode_response js r @ [newline], resp_location = [], resp_broken = None\<rparr>, ?f')"
    using r ok by (cases "queued f") (simp_all add: handle_def script_def split: option.split)
  ultimately show thesis by (intro that [of ?f']) simp_all
qed

lemma Complete_plays:
  assumes "plays f (r # rs)" and "speaks wr js model defs (r # rs)"
    and rq: "rq = \<lparr>Request_Model = model, Request_Messages = messages, Request_Tools = defs\<rparr>"
  obtains f' where "Complete wr (provider_http js) (llm_New url key) rq (f, k) = (Inr r, (f', k))"
    and "plays f' rs" and "requests f' = requests f @ [rq]" and "callCount f' = callCount f + 1"
    and "authorization f' = (if key = [] then [] else ''Bearer '' @ key)"
proof -
  obtain body where body: "marshal_request wr rq = Inr body" "decode_request js (RawBody body) = rq"
    using assms(2) rq by (auto simp: speaks_def Let_def)
  obtain f' where f': "handle js (completion_request (llm_New url key) body) f =
      (\<lparr>resp_status = StatusOK, resp_body = encode_response js r @ [newline], resp_location = [], resp_broken = None\<rparr>, f')" "plays f' rs"
      "requests f' = requests f @ [rq]" "callCount f' = callCount f + 1"
      "authorization f' = header (completion_request (llm_New url key) body) ''Authorization''"
    using handle_plays [OF assms(1), of js "completion_request (llm_New url key) body"] body(2)
    by (metis completion_request_def http_request.select_convs(4))
  show thesis
    using assms(2) f'
    by (intro that [of f']) (auto simp: Complete_def ReadAll_def body(1) provider_http_def speaks_def completion_request_def llm_New_def header_def)
qed

section \<open>A run ready for its next step\<close>

definition ready :: "string \<Rightarrow> nat \<Rightarrow> 'h world \<Rightarrow> bool" where
  "ready u k w \<longleftrightarrow>
     outcomes (w_server w) = [] \<and> u \<in> r_id ` set (runs (tables (w_server w))) \<and>
     map st_step_index (trace u w) = map int [0..<k]"

text \<open>What the model said, as the trace has it.\<close>

definition answers :: "string \<Rightarrow> 'h world \<Rightarrow> string list" where
  "answers u w = map st_content (filter is_model_call (trace u w))"

lemma ready_calm: "ready u k w \<Longrightarrow> calm (w_server w) (w_server w') \<Longrightarrow> trace u w' = trace u w \<Longrightarrow> ready u k w'"
  by (simp add: ready_def calm_def)

lemma record_ready:
  assumes "ready u k w" and "uuid_in pg runID = Some u" and "int k < 2 ^ 31"
    and "fits_int4 (Step_PromptTokens step)" and "fits_int4 (Step_CompletionTokens step)"
  obtains w' where "on_server (StepStore_Record pg runID (int k) step) w = (Inr (), w')" and "ready u (Suc k) w'"
    and "w_net w' = w_net w" and "w_clock w' = w_clock w"
    and "answers u w' = answers u w @ (if Step_Kind step = StepModelCall then [Step_Content step] else [])"
proof -
  let ?s = "w_server w"
  let ?row = "new_step_row (uuid_v4 pg (serial ?s)) u (int k) step (pg_now ?s)"
  let ?w' = "w\<lparr>w_server := ?s\<lparr>serial := Suc (serial ?s), tables := (tables ?s)\<lparr>run_steps := run_steps (tables ?s) @ [?row]\<rparr>\<rparr>\<rparr>"
  have new: "(u, int k) \<notin> (\<lambda>t. (st_run_id t, st_step_index t)) ` set (run_steps (tables ?s))"
  proof
    assume "(u, int k) \<in> (\<lambda>t. (st_run_id t, st_step_index t)) ` set (run_steps (tables ?s))"
    then have "int k \<in> set (map st_step_index (trace u w))" by (auto simp: trace_def)
    also have "map st_step_index (trace u w) = map int [0..<k]" using assms(1) by (simp add: ready_def)
    finally show False by auto
  qed
  have "fits_int4 (int k)" using assms(3) by (simp add: fits_int4_def)
  then have "on_server (StepStore_Record pg runID (int k) step) w = (Inr (), ?w')"
    using assms new by (simp add: ready_def on_server_def StepStore_Record_def with_uuid_def insert_step_def)
  moreover have tr: "trace u ?w' = trace u w @ [?row]" by (simp add: trace_def new_step_row_def)
  then have "ready u (Suc k) ?w'" using assms(1) by (simp add: ready_def new_step_row_def)
  moreover have "answers u ?w' = answers u w @ (if Step_Kind step = StepModelCall then [Step_Content step] else [])"
    using tr by (simp add: answers_def is_model_call_def new_step_row_def)
  ultimately show thesis by (intro that [of ?w']) simp_all
qed

section \<open>The loops of a run\<close>

text \<open>An executor built for a test: the tools of an installation, and the scripted provider.\<close>

definition test_executor :: "'k net \<Rightarrow> decoders \<Rightarrow> Sealer option option \<Rightarrow> Config \<Rightarrow> provider_json \<Rightarrow> (fakeModel \<times> 'k) Executor \<Rightarrow> bool" where
  "test_executor nw dec settings config js e \<longleftrightarrow>
     ex_registry e = BuildRegistry dec (beside nw) (Some (ex_pg e)) settings config \<and> ex_http e = provider_http js"

lemma tool_loop_ready:
  assumes "test_executor nw dec settings config js e" and "uuid_in (ex_pg e) (Env_RunID env) = Some u"
    and "ready u k w" and "int (k + length cs) \<le> 2 ^ 31"
  shows "\<exists>rest w'. tool_loop e agent env cs messages (int k) w = (Inr (messages @ rest, int (k + length cs)), w') \<and> ready u (k + length cs) w' \<and>
    fst (w_net w') = fst (w_net w) \<and> w_clock w' = w_clock w \<and> answers u w' = answers u w"
  using assms(3,4)
proof (induction cs arbitrary: messages k w)
  case Nil
  then show ?case by simp
next
  case (Cons call cs)
  have reg: "ex_registry e = BuildRegistry dec (beside nw) (Some (ex_pg e)) settings config"
    using assms(1) by (simp add: test_executor_def)
  obtain r w1 where t: "runTool e agent call env w = (r, w1)" by (cases "runTool e agent call env w")
  have tr: "trace u w1 = trace u w" by (rule installed.runTool_trace [OF reg t])
  have "calm (w_server w) (w_server w1)" by (rule calm.runTool_R [OF reg _ t]) simp
  then have w1: "ready u k w1" "answers u w1 = answers u w" "fst (w_net w1) = fst (w_net w)" "w_clock w1 = w_clock w"
    using ready_calm Cons.prems(1) tr provider.runTool_steady [OF reg t] by (auto simp: answers_def)
  have step: "fits_int4 (Step_PromptTokens (tool_step call r))" "fits_int4 (Step_CompletionTokens (tool_step call r))"
      "Step_Kind (tool_step call r) = StepToolCall"
    by (simp_all add: tool_step_def Let_def zero_Step_def fits_int4_def split: sum.split)
  have "int k < 2 ^ 31" using Cons.prems(2) by simp
  from record_ready [OF w1(1) assms(2) this step(1,2)]
  obtain w2 where w2: "on_server (StepStore_Record (ex_pg e) (Env_RunID env) (int k) (tool_step call r)) w1 = (Inr (), w2)"
      "ready u (Suc k) w2" "w_net w2 = w_net w1" "w_clock w2 = w_clock w1" "answers u w2 = answers u w1"
    using step(3) by (auto simp: StepToolCall_def StepModelCall_def)
  have k: "int k + 1 = int (Suc k)" by simp
  from Cons.IH [OF w2(2), of "messages @ [tool_message call r]"] Cons.prems(2)
  show ?case using w1 w2 by (auto simp: t w2(1) k simp del: of_nat_Suc)
qed

text \<open>The tokens and the steps a list of answers costs.\<close>

definition prompt_spent :: "Response list \<Rightarrow> int" where
  "prompt_spent rs = sum_list (map (\<lambda>r. Usage_PromptTokens (Response_Usage r)) rs)"

definition completion_spent :: "Response list \<Rightarrow> int" where
  "completion_spent rs = sum_list (map (\<lambda>r. Usage_CompletionTokens (Response_Usage r)) rs)"

definition said :: "Response \<Rightarrow> Message" where
  "said r = Choice_Message (hd (Response_Choices r))"

definition steps_of :: "Response list \<Rightarrow> nat" where
  "steps_of rs = sum_list (map (\<lambda>r. Suc (length (Message_ToolCalls (said r)))) rs)"

definition fair_usage :: "Response \<Rightarrow> bool" where
  "fair_usage r \<longleftrightarrow> Usage_PromptTokens (Response_Usage r) \<in> {0..<2 ^ 31} \<and> Usage_CompletionTokens (Response_Usage r) \<in> {0..<2 ^ 31}"

text \<open>
  How a run that was given these answers stands: the trace has what the model said, and the
  provider was asked once for each, with the agent's model and tools, the credential, and the
  conversation so far.
\<close>

definition answered ::
    "string \<Rightarrow> Agent \<Rightarrow> string \<Rightarrow> ToolDefinition list \<Rightarrow> Message list \<Rightarrow> Response list \<Rightarrow> (fakeModel \<times> 'k) world \<Rightarrow> (fakeModel \<times> 'k) world \<Rightarrow> bool" where
  "answered u agent key defs messages rs w w' \<longleftrightarrow>
     answers u w' = answers u w @ map (\<lambda>r. Message_Content (said r)) rs \<and>
     (\<exists>rqs. requestsReceived (fst (w_net w')) = requestsReceived (fst (w_net w)) @ rqs \<and> length rqs = length rs \<and>
        (\<forall>rq \<in> set rqs. Request_Model rq = Agent_Model agent \<and> Request_Tools rq = defs \<and>
           take (length messages) (Request_Messages rq) = messages)) \<and>
     authorizationSeen (fst (w_net w')) = (if key = [] then [] else ''Bearer '' @ key)"

lemma answered_one:
  assumes "answers u w' = answers u w @ [Message_Content (said r)]"
    and "requests (fst (w_net w')) = requests (fst (w_net w)) @
      [\<lparr>Request_Model = Agent_Model agent, Request_Messages = messages, Request_Tools = defs\<rparr>]"
    and "authorization (fst (w_net w')) = (if key = [] then [] else ''Bearer '' @ key)"
  shows "answered u agent key defs messages [r] w w'"
  using assms by (auto simp: answered_def requestsReceived_def authorizationSeen_def)

lemma answered_cong:
  "answered u agent key defs messages rs w1 w2 \<Longrightarrow> trace u w1 = trace u w \<Longrightarrow> w_net w1 = w_net w \<Longrightarrow>
     trace u w' = trace u w2 \<Longrightarrow> w_net w' = w_net w2 \<Longrightarrow> answered u agent key defs messages rs w w'"
  by (simp add: answered_def answers_def)

lemma answered_Cons:
  assumes "answered u agent key defs messages [r] w w3"
    and "answers u w4 = answers u w3" and "fst (w_net w4) = fst (w_net w3)"
    and "answered u agent key defs (messages @ rest) rs w4 w'"
  shows "answered u agent key defs messages (r # rs) w w'"
proof -
  have "take (length messages) ms = messages" if "take (length (messages @ rest)) ms = messages @ rest" for ms
    using arg_cong [OF that, of "take (length messages)"] by (simp add: min_def)
  with assms show ?thesis by (fastforce simp: answered_def)
qed

text \<open>The rest of the loop once the model's answer is recorded.\<close>

definition after_answer ::
    "'h Executor \<Rightarrow> Agent \<Rightarrow> Env \<Rightarrow> Client \<Rightarrow> ToolDefinition list \<Rightarrow> time \<Rightarrow> nat \<Rightarrow> Message list \<Rightarrow> Result \<Rightarrow> int
      \<Rightarrow> Response \<Rightarrow> 'h world \<Rightarrow> Result res \<times> 'h world" where
  "after_answer e agent env client defs deadline n messages result k r w =
     (if Message_ToolCalls (said r) = [] then (Inr ((add_usage (Response_Usage r) result)\<lparr>Output := Message_Content (said r)\<rparr>), w)
      else case tool_loop e agent env (Message_ToolCalls (said r)) (messages @ [said r]) (k + 1) w of
          (Inl err, w4) \<Rightarrow> (Inl err, w4)
        | (Inr (messages1, stepIndex1), w4) \<Rightarrow>
            step_loop e agent env client defs deadline n messages1 (add_usage (Response_Usage r) result) stepIndex1 w4)"

lemma round_ready:
  assumes "test_executor nw dec settings config js e" and "uuid_in (ex_pg e) (Env_RunID env) = Some u"
    and "ready u k w" and "int k < 2 ^ 31"
    and "plays (fst (w_net w)) (r # rs)" and "speaks (ex_wire e) js (Agent_Model agent) defs (r # rs)" and "fair_usage r"
    and "w_clock w (w_ticks w) \<le> deadline" and "result_tokens result \<le> Agent_MaxTokens agent"
  obtains w3 where "step_loop e agent env (llm_New url key) defs deadline (Suc n) messages result (int k) w =
      after_answer e agent env (llm_New url key) defs deadline n messages result (int k) r w3"
    and "ready u (Suc k) w3" and "w_clock w3 = w_clock w" and "plays (fst (w_net w3)) rs"
    and "answered u agent key defs messages [r] w w3"
proof -
  let ?rq = "\<lparr>Request_Model = Agent_Model agent, Request_Messages = messages, Request_Tools = defs\<rparr>"
  let ?w1 = "w\<lparr>w_ticks := Suc (w_ticks w)\<rparr>"
  obtain f' where f': "Complete (ex_wire e) (provider_http js) (llm_New url key) ?rq (fst (w_net w), snd (w_net w)) =
        (Inr r, (f', snd (w_net w)))" "plays f' rs" "requests f' = requests (fst (w_net w)) @ [?rq]"
      "callCount f' = callCount (fst (w_net w)) + 1" "authorization f' = (if key = [] then [] else ''Bearer '' @ key)"
    by (rule Complete_plays [OF assms(5,6) refl])
  let ?w2 = "?w1\<lparr>w_net := (f', snd (w_net w))\<rparr>"
  have c: "on_net (Complete (ex_wire e) (ex_http e) (llm_New url key) ?rq) ?w1 = (Inr r, ?w2)"
    using f'(1) assms(1) by (simp add: on_net_def test_executor_def)
  have w2: "ready u k ?w2" "answers u ?w2 = answers u w" using assms(3) by (simp_all add: ready_def trace_def answers_def)
  have fits: "fits_int4 (Step_PromptTokens (model_step r))" "fits_int4 (Step_CompletionTokens (model_step r))"
    using assms(7) by (auto simp: model_step_def fair_usage_def fits_int4_def)
  obtain w3 where w3: "on_server (StepStore_Record (ex_pg e) (Env_RunID env) (int k) (model_step r)) ?w2 = (Inr (), w3)"
      "ready u (Suc k) w3" "w_net w3 = w_net ?w2" "w_clock w3 = w_clock ?w2"
      "answers u w3 = answers u ?w2 @ (if Step_Kind (model_step r) = StepModelCall then [Step_Content (model_step r)] else [])"
    by (rule record_ready [OF w2(1) assms(2,4) fits])
  have "Now w = (w_clock w (w_ticks w), ?w1)" by (simp add: Now_def)
  moreover have "\<not> PromptTokens result + CompletionTokens result > Agent_MaxTokens agent" "\<not> deadline < w_clock w (w_ticks w)"
    using assms(8,9) by (simp_all add: result_tokens_def)
  ultimately have "step_loop e agent env (llm_New url key) defs deadline (Suc n) messages result (int k) w =
      after_answer e agent env (llm_New url key) defs deadline n messages result (int k) r w3"
    by (simp add: c w3(1) Let_def said_def after_answer_def)
  then show thesis
    by (rule that) (use f' w3 w2(2) in \<open>auto simp: said_def model_step_def intro!: answered_one\<close>)
qed

text \<open>A round in which the model asks for tools.\<close>

lemma asking_round:
  assumes "test_executor nw dec settings config js e" and "uuid_in (ex_pg e) (Env_RunID env) = Some u"
    and "ready u k w" and "int (Suc k + length (Message_ToolCalls (said r))) \<le> 2 ^ 31"
    and "plays (fst (w_net w)) (r # rs)" and "speaks (ex_wire e) js (Agent_Model agent) defs (r # rs)" and "fair_usage r"
    and "w_clock w (w_ticks w) \<le> deadline" and "result_tokens result \<le> Agent_MaxTokens agent"
    and "Message_ToolCalls (said r) \<noteq> []"
  obtains rest w3 w4 where "step_loop e agent env (llm_New url key) defs deadline (Suc n) messages result (int k) w =
      step_loop e agent env (llm_New url key) defs deadline n (messages @ said r # rest) (add_usage (Response_Usage r) result)
        (int (Suc k + length (Message_ToolCalls (said r)))) w4"
    and "ready u (Suc k + length (Message_ToolCalls (said r))) w4" and "w_clock w4 = w_clock w" and "plays (fst (w_net w4)) rs"
    and "answered u agent key defs messages [r] w w3" and "answers u w4 = answers u w3" and "fst (w_net w4) = fst (w_net w3)"
proof -
  let ?cs = "Message_ToolCalls (said r)"
  have k: "int k < 2 ^ 31" using assms(4) by simp
  obtain w3 where loop: "step_loop e agent env (llm_New url key) defs deadline (Suc n) messages result (int k) w =
        after_answer e agent env (llm_New url key) defs deadline n messages result (int k) r w3"
      and w3: "ready u (Suc k) w3" "w_clock w3 = w_clock w" "plays (fst (w_net w3)) rs" "answered u agent key defs messages [r] w w3"
    by (rule round_ready [OF assms(1-3) k assms(5-9)])
  from tool_loop_ready [OF assms(1,2) w3(1) assms(4), of agent "messages @ [said r]"]
  obtain rest w4 where tools: "tool_loop e agent env ?cs (messages @ [said r]) (int (Suc k)) w3 =
        (Inr (messages @ said r # rest, int (Suc k + length ?cs)), w4)"
      and w4: "ready u (Suc k + length ?cs) w4" "fst (w_net w4) = fst (w_net w3)" "w_clock w4 = w_clock w3" "answers u w4 = answers u w3"
    by auto
  have "step_loop e agent env (llm_New url key) defs deadline (Suc n) messages result (int k) w =
      step_loop e agent env (llm_New url key) defs deadline n (messages @ said r # rest) (add_usage (Response_Usage r) result)
        (int (Suc k + length ?cs)) w4"
    unfolding loop after_answer_def using assms(10) tools by (simp add: add.commute [of "1::int"])
  then show thesis by (rule that) (use w3 w4 in simp_all)
qed

lemma step_loop_scripted:
  assumes "test_executor nw dec settings config js e" and "uuid_in (ex_pg e) (Env_RunID env) = Some u"
    and "Message_ToolCalls (said final) = []" and "\<And>n. clk n \<le> deadline"
    and "\<forall>r \<in> set asking. Message_ToolCalls (said r) \<noteq> []"
    and "\<forall>r \<in> set (asking @ [final]). fair_usage r" and "speaks (ex_wire e) js (Agent_Model agent) defs (asking @ [final])"
    and "ready u k w" and "w_clock w = clk" and "int (k + steps_of (asking @ [final])) \<le> 2 ^ 31"
    and "plays (fst (w_net w)) (asking @ [final])" and "length asking < n"
    and "result_tokens result + prompt_spent asking + completion_spent asking \<le> Agent_MaxTokens agent"
  shows "\<exists>w'. step_loop e agent env (llm_New url key) defs deadline n messages result (int k) w =
      (Inr (result\<lparr>Output := Message_Content (said final), PromptTokens := PromptTokens result + prompt_spent (asking @ [final]),
         CompletionTokens := CompletionTokens result + completion_spent (asking @ [final])\<rparr>), w') \<and>
    outcomes (w_server w') = [] \<and> u \<in> r_id ` set (runs (tables (w_server w'))) \<and>
    answered u agent key defs messages (asking @ [final]) w w'"
  using assms(5-13)
proof (induction asking arbitrary: k w n messages result)
  case Nil
  obtain n' where n: "n = Suc n'" using Nil.prems(8) by (cases n) auto
  have pre: "int k < 2 ^ 31" "plays (fst (w_net w)) [final]" "speaks (ex_wire e) js (Agent_Model agent) defs [final]" "fair_usage final"
      "w_clock w (w_ticks w) \<le> deadline" "result_tokens result \<le> Agent_MaxTokens agent"
    using Nil.prems assms(4) by (simp_all add: steps_of_def prompt_spent_def completion_spent_def)
  obtain w3 where "step_loop e agent env (llm_New url key) defs deadline (Suc n') messages result (int k) w =
        after_answer e agent env (llm_New url key) defs deadline n' messages result (int k) final w3"
      and w3: "ready u (Suc k) w3" "answered u agent key defs messages [final] w w3"
    by (rule round_ready [OF assms(1,2) Nil.prems(4) pre])
  then have "step_loop e agent env (llm_New url key) defs deadline n messages result (int k) w =
      (Inr ((add_usage (Response_Usage final) result)\<lparr>Output := Message_Content (said final)\<rparr>), w3)"
    using assms(3) n by (simp add: after_answer_def)
  then show ?case
    using w3 by (intro exI [of _ w3]) (simp add: ready_def add_usage_def prompt_spent_def completion_spent_def)
next
  case (Cons r asking)
  obtain n' where n: "n = Suc n'" "length asking < n'" using Cons.prems(8) by (cases n) auto
  let ?cs = "Message_ToolCalls (said r)" and ?result = "add_usage (Response_Usage r) result"
  have k: "int (Suc k + length ?cs + steps_of (asking @ [final])) \<le> 2 ^ 31"
    using Cons.prems(6) by (simp add: steps_of_def)
  have usage: "0 \<le> prompt_spent asking" "0 \<le> completion_spent asking"
    using Cons.prems(2) by (auto simp: prompt_spent_def completion_spent_def fair_usage_def intro!: sum_list_nonneg)
  have tokens: "result_tokens ?result + prompt_spent asking + completion_spent asking \<le> Agent_MaxTokens agent"
    using Cons.prems(9) by (simp add: result_tokens_def add_usage_def prompt_spent_def completion_spent_def)
  have pre: "int (Suc k + length ?cs) \<le> 2 ^ 31" "plays (fst (w_net w)) (r # asking @ [final])"
      "speaks (ex_wire e) js (Agent_Model agent) defs (r # asking @ [final])" "fair_usage r"
      "w_clock w (w_ticks w) \<le> deadline" "result_tokens result \<le> Agent_MaxTokens agent" "?cs \<noteq> []"
    using Cons.prems assms(4) k tokens usage by (simp_all add: result_tokens_def add_usage_def fair_usage_def)
  obtain rest w3 w4 where loop: "step_loop e agent env (llm_New url key) defs deadline (Suc n') messages result (int k) w =
        step_loop e agent env (llm_New url key) defs deadline n' (messages @ said r # rest) ?result (int (Suc k + length ?cs)) w4"
      and w4: "ready u (Suc k + length ?cs) w4" "w_clock w4 = w_clock w" "plays (fst (w_net w4)) (asking @ [final])"
      and w3: "answered u agent key defs messages [r] w w3" "answers u w4 = answers u w3" "fst (w_net w4) = fst (w_net w3)"
    by (rule asking_round [OF assms(1,2) Cons.prems(4) pre])
  have "\<exists>w'. step_loop e agent env (llm_New url key) defs deadline n' (messages @ said r # rest) ?result (int (Suc k + length ?cs)) w4 =
      (Inr (?result\<lparr>Output := Message_Content (said final), PromptTokens := PromptTokens ?result + prompt_spent (asking @ [final]),
         CompletionTokens := CompletionTokens ?result + completion_spent (asking @ [final])\<rparr>), w') \<and>
    outcomes (w_server w') = [] \<and> u \<in> r_id ` set (runs (tables (w_server w'))) \<and>
    answered u agent key defs (messages @ said r # rest) (asking @ [final]) w4 w'"
    by (rule Cons.IH) (use Cons.prems w4 k tokens n(2) in \<open>simp_all add: speaks_def\<close>)
  then show ?case
    unfolding n(1) loop using answered_Cons [OF w3] by (fastforce simp: add_usage_def prompt_spent_def completion_spent_def)
qed



section \<open>A whole run\<close>

lemma AgentStore_Get_served:
  "outcomes s = [] \<Longrightarrow> fst (AgentStore_Get pg userID i s) = Inr agent \<Longrightarrow> AgentStore_Get pg userID i s = (Inr agent, s)"
  by (auto simp: AgentStore_Get_def with_uuid_def query_row_def split: option.splits)

lemma buildInitialMessages_served:
  assumes "outcomes (w_server w) = []"
    and "Agent_ContextMode agent = ContextLastN \<Longrightarrow> uuid_in (ex_pg e) (Agent_ID agent) \<noteq> None"
  obtains messages where "buildInitialMessages e agent w = (Inr messages, w)"
proof (cases "Agent_ContextMode agent = ContextLastN \<and> Agent_ContextRuns agent > 0")
  case True
  then obtain a where "uuid_in (ex_pg e) (Agent_ID agent) = Some a" using assms(2) by auto
  then show thesis
    using True assms(1) that
    by (simp add: buildInitialMessages_def Let_def on_server_def RecentOutputs_def with_uuid_def query_def)
qed (use that in \<open>auto simp: buildInitialMessages_def Let_def\<close>)

lemma credentialFor_served:
  assumes "outcomes (w_server w) = []" and "fst (credentialFor e agent w) = Inr key"
    and "outcomes (w_server w') = []" and "secrets (tables (w_server w')) = secrets (tables (w_server w))"
  shows "credentialFor e agent w' = (Inr key, w')"
  using assms
  by (auto simp: credentialFor_def on_server_def Reveal_def query_row_def split: option.splits sum.splits prod.splits if_splits)

lemma Execute_starts:
  assumes "uuid_in (ex_pg e) runID = Some u" and "outcomes (w_server w) = []"
    and "u \<in> r_id ` set (runs (tables (w_server w)))" and "trace u w = []"
    and "fst (AgentStore_Get (ex_pg e) OwnerUserID agentID (w_server w)) = Inr agent"
    and "Agent_ContextMode agent = ContextLastN \<Longrightarrow> uuid_in (ex_pg e) (Agent_ID agent) \<noteq> None"
    and "fst (credentialFor e agent w) = Inr key"
  obtains messages w5 where "buildInitialMessages e agent w = (Inr messages, w)"
    and "Execute e runID agentID w =
      step_loop e agent \<lparr>Env_RunID = runID, Env_AgentID = agentID, Env_UserID = OwnerUserID\<rparr> (llm_New (Agent_BaseURL agent) key)
        (Definitions (ex_registry e) (tool_list (Agent_Tools agent)))
        (w_clock w (w_ticks w) + Agent_MaxDurationSeconds agent * Second) (nat (Agent_MaxSteps agent)) messages no_result (int 0) w5"
    and "ready u 0 w5" and "trace u w5 = trace u w" and "w_net w5 = w_net w" and "w_clock w5 = w_clock w"
proof -
  have g: "on_server (AgentStore_Get (ex_pg e) OwnerUserID agentID) w = (Inr agent, w)"
    using AgentStore_Get_served [OF assms(2,5)] by (simp add: on_server_def)
  obtain messages where b: "buildInitialMessages e agent w = (Inr messages, w)"
    by (rule buildInitialMessages_served [OF assms(2,6)])
  let ?p = "SetRenderedPrompt (ex_pg e) runID (renderPrompt messages)"
  obtain w3 where p: "on_server ?p w = (Inr (), w3)"
    using assms(1,2) by (simp add: on_server_def SetRenderedPrompt_def with_uuid_def exec_def)
  have calm: "calm (w_server w) (w_server w3)" by (rule calm.server_R [OF _ p]) (rule calm.R_prompt)
  have same: "w_net w3 = w_net w" "w_clock w3 = w_clock w" "w_ticks w3 = w_ticks w"
    using p by (auto simp: on_server_def split: prod.splits)
  have c: "credentialFor e agent w3 = (Inr key, w3)"
    using calm assms(2) by (intro credentialFor_served [OF assms(2,7)]) (simp_all add: calm_def)
  let ?w5 = "w3\<lparr>w_ticks := Suc (w_ticks w3)\<rparr>"
  have n: "Now w3 = (w_clock w (w_ticks w), ?w5)" by (simp add: Now_def same)
  have tr: "trace u ?w5 = trace u w" using keeps_steps_trace [OF SetRenderedPrompt_keeps p, of u] by (simp add: trace_def)
  then have r: "ready u 0 ?w5" using assms(2-4) calm by (simp add: ready_def calm_def)
  show thesis by (rule that [OF b _ r tr]) (simp_all add: Execute_def g b p c n same)
qed

lemma Execute_scripted:
  assumes "test_executor nw dec settings config js e" and "uuid_in (ex_pg e) runID = Some u"
    and "outcomes (w_server w) = []" and "u \<in> r_id ` set (runs (tables (w_server w)))" and "trace u w = []"
    and "fst (AgentStore_Get (ex_pg e) OwnerUserID agentID (w_server w)) = Inr agent"
    and "Agent_ContextMode agent = ContextLastN \<Longrightarrow> uuid_in (ex_pg e) (Agent_ID agent) \<noteq> None"
    and "fst (credentialFor e agent w) = Inr key"
    and "\<forall>n. w_clock w n \<le> w_clock w (w_ticks w) + Agent_MaxDurationSeconds agent * Second"
    and "plays (fst (w_net w)) (asking @ [final])"
    and "speaks (ex_wire e) js (Agent_Model agent) (Definitions (ex_registry e) (tool_list (Agent_Tools agent))) (asking @ [final])"
    and "\<forall>r \<in> set asking. Message_ToolCalls (said r) \<noteq> []" and "Message_ToolCalls (said final) = []"
    and "\<forall>r \<in> set (asking @ [final]). fair_usage r" and "int (steps_of (asking @ [final])) \<le> 2 ^ 31"
    and "int (length asking) < Agent_MaxSteps agent" and "prompt_spent asking + completion_spent asking \<le> Agent_MaxTokens agent"
  shows "\<exists>messages w'. buildInitialMessages e agent w = (Inr messages, w) \<and> Execute e runID agentID w =
      (Inr \<lparr>Output = Message_Content (said final), PromptTokens = prompt_spent (asking @ [final]),
         CompletionTokens = completion_spent (asking @ [final]), BudgetExceeded = False\<rparr>, w') \<and>
    outcomes (w_server w') = [] \<and> u \<in> r_id ` set (runs (tables (w_server w'))) \<and>
    answered u agent key (Definitions (ex_registry e) (tool_list (Agent_Tools agent))) messages (asking @ [final]) w w'"
proof (rule Execute_starts [OF assms(2-8)])
  let ?env = "\<lparr>Env_RunID = runID, Env_AgentID = agentID, Env_UserID = OwnerUserID\<rparr>"
  let ?defs = "Definitions (ex_registry e) (tool_list (Agent_Tools agent))"
  fix messages w5
  assume b: "buildInitialMessages e agent w = (Inr messages, w)"
    and ex: "Execute e runID agentID w = step_loop e agent ?env (llm_New (Agent_BaseURL agent) key) ?defs
        (w_clock w (w_ticks w) + Agent_MaxDurationSeconds agent * Second) (nat (Agent_MaxSteps agent)) messages no_result (int 0) w5"
    and w5: "ready u 0 w5" "trace u w5 = trace u w" "w_net w5 = w_net w" "w_clock w5 = w_clock w"
  have "\<exists>w'. step_loop e agent ?env (llm_New (Agent_BaseURL agent) key) ?defs
       (w_clock w (w_ticks w) + Agent_MaxDurationSeconds agent * Second) (nat (Agent_MaxSteps agent)) messages no_result (int 0) w5 =
      (Inr (no_result\<lparr>Output := Message_Content (said final), PromptTokens := PromptTokens no_result + prompt_spent (asking @ [final]),
         CompletionTokens := CompletionTokens no_result + completion_spent (asking @ [final])\<rparr>), w') \<and>
    outcomes (w_server w') = [] \<and> u \<in> r_id ` set (runs (tables (w_server w'))) \<and>
    answered u agent key ?defs messages (asking @ [final]) w5 w'"
    by (rule step_loop_scripted [OF assms(1) _ assms(13) _ assms(12,14,11) w5(1)])
      (use assms w5 in \<open>simp_all add: no_result_def result_tokens_def\<close>)
  then show ?thesis
    using b answered_cong [OF _ w5(2,3) refl refl] unfolding ex by (auto simp: no_result_def)
qed

text \<open>The worker's reports, handled by a coordinator whose database serves it.\<close>

definition report_to :: "postgres \<Rightarrow> time \<Rightarrow> UpdateRunStatusRequest \<Rightarrow> 'h world \<Rightarrow> 'h world" where
  "report_to pg now req w = w\<lparr>w_server := reportStatus pg now req (w_server w)\<rparr>"

lemma started_served:
  assumes "uuid_in pg runID = Some u" and "outcomes s = []"
  shows "reportStatus pg now (status_request runID RUNNING []) s =
    s\<lparr>tables := (tables s)\<lparr>runs := update_where (\<lambda>r. r_id r = u) (start_row now) (runs (tables s))\<rparr>\<rparr>"
  using assms by (simp add: reportStatus_def UpdateRunStatus_def status_request_def start_stmt_def with_uuid_Some exec_def)

lemma started_run:
  assumes "uuid_in (ex_pg e) runID = Some u" and "outcomes (w_server w) = []" and "u \<in> r_id ` set (runs (tables (w_server w)))"
    and "fst (AgentStore_Get (ex_pg e) OwnerUserID agentID (w_server w)) = Inr agent" and "fst (credentialFor e agent w) = Inr key"
    and w1: "w1 = report_to (ex_pg e) now (status_request runID RUNNING []) w"
  shows "outcomes (w_server w1) = []" and "u \<in> r_id ` set (runs (tables (w_server w1)))" and "trace u w1 = trace u w"
    and "fst (AgentStore_Get (ex_pg e) OwnerUserID agentID (w_server w1)) = Inr agent" and "fst (credentialFor e agent w1) = Inr key"
    and "w_net w1 = w_net w" and "w_clock w1 = w_clock w" and "w_ticks w1 = w_ticks w"
proof -
  have s1: "w_server w1 = (w_server w)\<lparr>tables := (tables (w_server w))\<lparr>runs :=
      update_where (\<lambda>r. r_id r = u) (start_row now) (runs (tables (w_server w)))\<rparr>\<rparr>"
    using started_served [OF assms(1,2)] by (simp add: w1 report_to_def)
  show "w_net w1 = w_net w" "w_clock w1 = w_clock w" "w_ticks w1 = w_ticks w" by (simp_all add: w1 report_to_def)
  show "trace u w1 = trace u w" using s1 by (simp add: trace_def)
  show "fst (AgentStore_Get (ex_pg e) OwnerUserID agentID (w_server w1)) = Inr agent"
    using assms(2,4) s1 by (auto simp: AgentStore_Get_def with_uuid_def query_row_def split: option.splits)
  show "fst (credentialFor e agent w1) = Inr key"
    using credentialFor_served [OF assms(2,5), of w1] assms(2) s1 by simp
  show "outcomes (w_server w1) = []" "u \<in> r_id ` set (runs (tables (w_server w1)))"
    using assms(2,3) s1 by (simp_all add: ids_update start_row_def)
qed

text \<open>How the report of a result that is not an error leaves the run.\<close>

definition run_ended :: "time \<Rightarrow> Result \<Rightarrow> run_row \<Rightarrow> bool" where
  "run_ended now result r \<longleftrightarrow>
     r_status r = (if BudgetExceeded result then RunBudgetExceeded else RunSucceeded) \<and>
     r_output r = Output result \<and> r_error r = [] \<and> r_finished_at r = Some now \<and> r_lease_expires_at r = None \<and>
     (PromptTokens result \<in> {0..<2 ^ 31} \<longrightarrow> r_prompt_tokens r = PromptTokens result) \<and>
     (CompletionTokens result \<in> {0..<2 ^ 31} \<longrightarrow> r_completion_tokens r = CompletionTokens result)"

lemma result_reported:
  assumes "uuid_in pg runID = Some u" and "outcomes s = []"
    and s': "s' = reportStatus pg now (result_report runID result) s"
  shows "r_id ` set (runs (tables s')) = r_id ` set (runs (tables s))" and "run_steps (tables s') = run_steps (tables s)"
    and "\<forall>r \<in> set (runs (tables s')). r_id r = u \<longrightarrow> run_ended now result r"
proof -
  let ?req = "result_report runID result"
  let ?f = "finish_row (reported_status (Update_Status ?req)) now ?req"
  have req: "Update_Status ?req \<in> {SUCCEEDED, FAILED, BUDGET_EXCEEDED}" "uuid_in pg (Update_RunId ?req) = Some u"
    using assms(1) by (simp_all add: result_report_def)
  have runs: "runs (tables s') = update_where (\<lambda>r. r_id r = u) ?f (runs (tables s))"
    using final_served [OF req assms(2), of now] by (simp add: s' reportStatus_def)
  show "r_id ` set (runs (tables s')) = r_id ` set (runs (tables s))" by (simp add: runs ids_update finish_row_def)
  show "run_steps (tables s') = run_steps (tables s)"
    using req assms(2)
    by (auto simp: s' reportStatus_def UpdateRunStatus_def Let_def finish_stmt_def with_uuid_Some exec_def recordAgentOutcome_eq)
  have "run_ended now result (?f x)" for x
    by (simp add: run_ended_def finish_row_def result_report_def reported_status_def sint_of_int32)
  then show "\<forall>r \<in> set (runs (tables s')). r_id r = u \<longrightarrow> run_ended now result r"
    by (auto simp only: runs set_update_where split: if_splits)
qed

lemma messages_end:
  "buildInitialMessages e agent w = (Inr messages, w') \<Longrightarrow> last messages = plain_message RoleUser (Agent_UserPrompt agent)"
  by (auto simp: buildInitialMessages_def Let_def split: if_splits prod.splits sum.splits)

text \<open>
  C8: a run that can succeed does. Against a provider scripted to ask for tools, any tools of the
  installation or none, fewer than \<open>MaxSteps\<close> times and within \<open>MaxTokens\<close>, and then to answer, with the clock
  standing still and the database serving its calls, executing a run ends it as succeeded with that
  answer and with the tokens of all the answers. Its trace has what the model said, in order, and
  the provider was asked once for each answer: with the agent's model, the definitions of the tools
  it was granted, the stored credential, and a conversation that begins with the prompt built for it.
\<close>

theorem scripted_run_succeeds:
  assumes "test_executor nw dec settings config js e" and "uuid_in (ex_pg e) (RunRequest_RunId run) = Some u"
    and "outcomes (w_server w) = []" and "u \<in> r_id ` set (runs (tables (w_server w)))" and "trace u w = []"
    and "fst (AgentStore_Get (ex_pg e) OwnerUserID (RunRequest_AgentId run) (w_server w)) = Inr agent"
    and "Agent_ContextMode agent = ContextLastN \<longrightarrow> uuid_in (ex_pg e) (Agent_ID agent) \<noteq> None"
    and "fst (credentialFor e agent w) = Inr key" and "0 \<le> Agent_MaxDurationSeconds agent"
    and "plays (fst (w_net w)) (asking @ [final])"
    and "speaks (ex_wire e) js (Agent_Model agent) (Definitions (ex_registry e) (tool_list (Agent_Tools agent))) (asking @ [final])"
    and "\<forall>r \<in> set asking. Message_ToolCalls (said r) \<noteq> []" and "Message_ToolCalls (said final) = []"
    and "\<forall>r \<in> set (asking @ [final]). fair_usage r" and "int (steps_of (asking @ [final])) \<le> 2 ^ 31"
    and "int (length asking) < Agent_MaxSteps agent" and "prompt_spent asking + completion_spent asking \<le> Agent_MaxTokens agent"
    and "w' = executeRun (report_to (ex_pg e) (Fake_Now clk)) (Execute e) run (read_from clk w)"
  shows "u \<in> r_id ` set (runs (tables (w_server w'))) \<and>
    (\<forall>r \<in> set (runs (tables (w_server w'))). r_id r = u \<longrightarrow>
       run_ended (Fake_Now clk) \<lparr>Output = Message_Content (said final), PromptTokens = prompt_spent (asking @ [final]),
         CompletionTokens = completion_spent (asking @ [final]), BudgetExceeded = False\<rparr> r) \<and>
    (\<exists>messages. last messages = plain_message RoleUser (Agent_UserPrompt agent) \<and>
       answered u agent key (Definitions (ex_registry e) (tool_list (Agent_Tools agent))) messages (asking @ [final]) w w')"
proof -
  let ?pg = "ex_pg e" and ?id = "RunRequest_RunId run" and ?now = "Fake_Now clk" and ?w = "read_from clk w"
  let ?w1 = "report_to ?pg ?now (status_request ?id RUNNING []) ?w"
  let ?result = "\<lparr>Output = Message_Content (said final), PromptTokens = prompt_spent (asking @ [final]),
      CompletionTokens = completion_spent (asking @ [final]), BudgetExceeded = False\<rparr>"
  have w: "w_server ?w = w_server w" "w_net ?w = w_net w" "trace u ?w = trace u w" "w_clock ?w = (\<lambda>_. ?now)"
    by (simp_all add: read_from_def trace_def)
  have "fst (credentialFor e agent ?w) = Inr key" using credentialFor_served [OF assms(3,8), of ?w] assms(3) w(1) by simp
  note w1 = started_run [where w = ?w, unfolded w(1), OF assms(2-4,6) this refl, of ?now]
  obtain messages w2 where b: "buildInitialMessages e agent ?w1 = (Inr messages, ?w1)"
      and ex: "Execute e ?id (RunRequest_AgentId run) ?w1 = (Inr ?result, w2)"
      and w2: "outcomes (w_server w2) = []" "u \<in> r_id ` set (runs (tables (w_server w2)))"
        "answered u agent key (Definitions (ex_registry e) (tool_list (Agent_Tools agent))) messages (asking @ [final]) ?w1 w2"
    using Execute_scripted [OF assms(1,2) w1(1,2) _ w1(4) _ w1(5) _ _ assms(11-17)] assms(5,7,9,10) w w1(3,6-8)
    by (auto simp: Second_def)
  have w': "w' = report_to ?pg ?now (result_report ?id ?result) w2" using ex by (simp add: assms(18) executeRun_def Let_def)
  note ended = result_reported [OF assms(2) w2(1) refl, of ?now ?result]
  have "answered u agent key (Definitions (ex_registry e) (tool_list (Agent_Tools agent))) messages (asking @ [final]) w w'"
    by (rule answered_cong [OF w2(3) trans [OF w1(3) w(3)] trans [OF w1(6) w(2)]]) (simp_all add: w' report_to_def trace_def ended(2))
  then show ?thesis
    using messages_end [OF b] w2(2) ended(1,3) by (auto simp: w' report_to_def)
qed


text \<open>How the client reports an answer the provider rejects a call with.\<close>

definition rejection :: "int \<Rightarrow> go_error" where
  "rejection status = Errorf (''model provider returned '' @ Itoa status @ '': '' @
     TrimSpace (''{\"error\":{\"message\":\"invalid api key\"}}'' @ [newline]))"

lemma Complete_rejected:
  assumes "failWith f \<noteq> 0" and "failWith f \<noteq> StatusOK" and "marshal_request wr rq = Inr body"
  obtains f' where "Complete wr (provider_http js) c rq (f, k) = (Inl (rejection (failWith f)), (f', k))" and "calls f' = calls f + 1"
  using assms by (simp add: Complete_def ReadAll_def provider_http_def handle_def calls_def rejection_def Let_def)

text \<open>
  C40: a provider that rejects calls fails the run. Against a provider scripted to answer every call with a status
  other than 200, with the clock standing still, the database serving its calls, a run without steps, an agent
  with at least one step and no negative limit, its credential found and requests that can be
  encoded, executing the run leaves it failed with the provider's status and message as its
  error, and the provider was called exactly once: the loop does not retry.
\<close>

theorem rejected_run_fails:
  assumes "test_executor nw dec settings config js e" and "uuid_in (ex_pg e) (RunRequest_RunId run) = Some u"
    and "outcomes (w_server w) = []" and "u \<in> r_id ` set (runs (tables (w_server w)))" and "trace u w = []"
    and "fst (AgentStore_Get (ex_pg e) OwnerUserID (RunRequest_AgentId run) (w_server w)) = Inr agent"
    and "Agent_ContextMode agent = ContextLastN \<longrightarrow> uuid_in (ex_pg e) (Agent_ID agent) \<noteq> None"
    and "fst (credentialFor e agent w) = Inr key" and "0 \<le> Agent_MaxDurationSeconds agent"
    and "0 < Agent_MaxSteps agent" and "0 \<le> Agent_MaxTokens agent"
    and "fst (w_net w) = failWithStatus status f" and "status \<notin> {0, StatusOK}" and "\<forall>rq. \<exists>body. marshal_request (ex_wire e) rq = Inr body"
    and "w' = executeRun (report_to (ex_pg e) (Fake_Now clk)) (Execute e) run (read_from clk w)"
  shows "u \<in> r_id ` set (runs (tables (w_server w'))) \<and>
    (\<forall>r \<in> set (runs (tables (w_server w'))). r_id r = u \<longrightarrow>
      r_status r = RunFailed \<and> r_error r = Error (rejection status)) \<and>
    calls (fst (w_net w')) = calls f + 1"
proof -
  let ?pg = "ex_pg e" and ?id = "RunRequest_RunId run" and ?now = "Fake_Now clk" and ?w = "read_from clk w"
  let ?w1 = "report_to ?pg ?now (status_request ?id RUNNING []) ?w"
  have w: "w_server ?w = w_server w" "w_net ?w = w_net w" "trace u ?w = trace u w" "w_clock ?w = (\<lambda>_. ?now)"
    by (simp_all add: read_from_def trace_def)
  have "fst (credentialFor e agent ?w) = Inr key" using credentialFor_served [OF assms(3,8), of ?w] assms(3) w(1) by simp
  note w1 = started_run [where w = ?w, unfolded w(1), OF assms(2-4,6) this refl, of ?now]
  have new: "trace u ?w1 = []" using w1(3) w(3) assms(5) by simp
  have "\<exists>w2. Execute e ?id (RunRequest_AgentId run) ?w1 = (Inl (rejection status), w2) \<and> outcomes (w_server w2) = [] \<and>
      u \<in> r_id ` set (runs (tables (w_server w2))) \<and> calls (fst (w_net w2)) = calls f + 1"
  proof (rule Execute_starts [OF assms(2) w1(1,2) new w1(4) _ w1(5)])
    fix messages w5
    let ?env = "\<lparr>Env_RunID = ?id, Env_AgentID = RunRequest_AgentId run, Env_UserID = OwnerUserID\<rparr>"
    let ?defs = "Definitions (ex_registry e) (tool_list (Agent_Tools agent))"
    let ?rq = "\<lparr>Request_Model = Agent_Model agent, Request_Messages = messages, Request_Tools = ?defs\<rparr>"
    assume ex: "Execute e ?id (RunRequest_AgentId run) ?w1 =
        step_loop e agent ?env (llm_New (Agent_BaseURL agent) key) ?defs
          (w_clock ?w1 (w_ticks ?w1) + Agent_MaxDurationSeconds agent * Second) (nat (Agent_MaxSteps agent)) messages no_result (int 0) w5"
      and w5: "ready u 0 w5" "w_net w5 = w_net ?w1" "w_clock w5 = w_clock ?w1"
    obtain n where n: "nat (Agent_MaxSteps agent) = Suc n" using assms(10) by (cases "nat (Agent_MaxSteps agent)") auto
    obtain body where body: "marshal_request (ex_wire e) ?rq = Inr body" using assms(14) by blast
    have net: "fst (w_net w5) = failWithStatus status f" using w5(2) w1(6) w(2) assms(12) by simp
    obtain f' where f': "Complete (ex_wire e) (provider_http js) (llm_New (Agent_BaseURL agent) key) ?rq (fst (w_net w5), snd (w_net w5)) =
        (Inl (rejection status), (f', snd (w_net w5)))" "calls f' = calls (fst (w_net w5)) + 1"
      by (rule Complete_rejected [OF _ _ body, of "fst (w_net w5)"]) (use assms(13) in \<open>simp_all add: net failWithStatus_def\<close>)
    show ?thesis
      using assms(1,9,11) w5 w1(7) w(4) f' net
      by (simp add: ex n Now_def on_net_def no_result_def Second_def test_executor_def ready_def failWithStatus_def calls_def)
  qed (use assms(7) in simp)
  then obtain w2 where ex: "Execute e ?id (RunRequest_AgentId run) ?w1 = (Inl (rejection status), w2)"
      and w2: "outcomes (w_server w2) = []" "u \<in> r_id ` set (runs (tables (w_server w2)))" "calls (fst (w_net w2)) = calls f + 1" by blast
  have w': "w' = report_to ?pg ?now (status_request ?id FAILED (Error (rejection status))) w2" using ex by (simp add: assms(15) executeRun_def Let_def)
  have "r_status r = RunFailed \<and> r_error r = Error (rejection status)" if r: "r \<in> set (runs (tables (w_server w')))" "r_id r = u" for r
    using final_served_row [OF _ _ w2(1), of "status_request ?id FAILED (Error (rejection status))" ?pg u r ?now] r assms(2)
    by (auto simp: w' report_to_def reportStatus_def status_request_def reported_status_def finish_row_def)
  moreover have "w_net w' = w_net w2" by (simp add: w' report_to_def)
  moreover have "u \<in> r_id ` set (runs (tables (w_server w')))"
  proof -
    let ?req = "status_request ?id FAILED (Error (rejection status))"
    have "runs (tables (w_server w')) = update_where (\<lambda>r. r_id r = u) (finish_row RunFailed ?now ?req) (runs (tables (w_server w2)))"
      using final_served [of ?req ?pg u "w_server w2" ?now] w2(1) assms(2)
      by (simp add: w' report_to_def reportStatus_def status_request_def reported_status_def)
    then show ?thesis using w2(2) by (simp add: finish_upd.key_image_kept)
  qed
  ultimately show ?thesis using w2(3) by simp
qed

section \<open>A concrete run\<close>

text \<open>A list of texts as one, each with its length before it; conversations in that form.\<close>

definition pack :: "string list \<Rightarrow> string" where
  "pack xs = concat (map (\<lambda>x. replicate (length x) CHR ''1'' @ CHR ''0'' # x) xs)"

function unpack :: "string \<Rightarrow> string list" where
  "unpack s =
     (if s = [] then []
      else let n = length (takeWhile (\<lambda>c. c = CHR ''1'') s) in take n (drop (Suc n) s) # unpack (drop (Suc (n + n)) s))"
  by pat_completeness auto
termination
  by (relation "measure length") auto

declare unpack.simps [simp del]

lemma unpack_pack: "unpack (pack xs) = xs"
proof (induction xs)
  case Nil
  show ?case by (simp add: pack_def unpack.simps)
next
  case (Cons x xs)
  let ?s = "replicate (length x) CHR ''1'' @ CHR ''0'' # x @ pack xs"
  have "takeWhile (\<lambda>c. c = CHR ''1'') ?s = replicate (length x) CHR ''1''" by (simp add: takeWhile_append)
  then have "unpack ?s = x # unpack (pack xs)" by (subst unpack.simps) simp
  moreover have "pack (x # xs) = ?s" by (simp add: pack_def)
  ultimately show ?case using Cons by simp
qed

definition pack_call :: "ToolCall \<Rightarrow> string" where
  "pack_call c = pack [Call_ID c, Call_Type c, Function_Name (Call_Function c), Function_Arguments (Call_Function c)]"

definition unpack_call :: "string \<Rightarrow> ToolCall" where
  "unpack_call s =
     (let xs = unpack s in
      \<lparr>Call_ID = xs ! 0, Call_Type = xs ! 1, Call_Function = \<lparr>Function_Name = xs ! 2, Function_Arguments = xs ! 3\<rparr>\<rparr>)"

definition pack_message :: "Message \<Rightarrow> string" where
  "pack_message m = pack (Message_Role m # Message_Content m # Message_ToolCallID m # map pack_call (Message_ToolCalls m))"

definition unpack_message :: "string \<Rightarrow> Message" where
  "unpack_message s =
     (let xs = unpack s in
      \<lparr>Message_Role = xs ! 0, Message_Content = xs ! 1, Message_ToolCalls = map unpack_call (drop 3 xs), Message_ToolCallID = xs ! 2\<rparr>)"

lemma unpack_message_pack: "unpack_message (pack_message m) = m"
proof -
  have "unpack_call (pack_call c) = c" for c by (simp add: unpack_call_def pack_call_def unpack_pack)
  then have "map (unpack_call \<circ> pack_call) cs = cs" for cs by (simp add: map_idI)
  then show ?thesis by (simp add: unpack_message_def pack_message_def unpack_pack)
qed

text \<open>An agent that may write to its memory, and a provider that asks for it once and then answers.\<close>

definition tool_turn :: Response where
  "tool_turn = toolCallResponse ''c1'' ToolMemoryWrite ''{}''"

definition test_json :: provider_json where
  "test_json =
     \<lparr>decode_request = (\<lambda>b. \<lparr>Request_Model = ''m'',
        Request_Messages = (case b of RawBody s \<Rightarrow> map unpack_message (unpack s) | _ \<Rightarrow> []),
        Request_Tools = Definitions (BuildRegistry demo_decoders (beside quiet_net) (Some demo_pg) None demo_config) [ToolMemoryWrite]\<rparr>),
      encode_response = (\<lambda>r. if r = tool_turn then ''tool'' else ''text'')\<rparr>"

definition test_wire :: wire where
  "test_wire =
     \<lparr>marshal_request = (\<lambda>rq. Inr (pack (map pack_message (Request_Messages rq)))),
      unmarshal_response = (\<lambda>s. Inr (if s = ''tool'' @ [newline] then tool_turn else textResponse ''done''))\<rparr>"

definition test_Executor :: "(fakeModel \<times> nat) Executor" where
  "test_Executor =
     \<lparr>ex_pg = demo_pg, ex_secrets = None, ex_registry = BuildRegistry demo_decoders (beside quiet_net) (Some demo_pg) None demo_config,
      ex_fallbackAPIKey = ''key'', ex_wire = test_wire, ex_http = provider_http test_json\<rparr>"

definition test_world :: "(fakeModel \<times> nat) world" where
  "test_world =
     \<lparr>w_server = demo_server, w_net = (queue tool_turn (always (textResponse ''done'') newFakeModel), 0),
      w_clock = (\<lambda>_. 0), w_ticks = 0\<rparr>"

definition test_outcome :: "(fakeModel \<times> nat) world" where
  "test_outcome = executeRun (report_to demo_pg 20) (Execute test_Executor) Dispatch.demo_request (read_from (NewFake 20) test_world)"

lemma test_speaks:
  "speaks (ex_wire test_Executor) test_json (Agent_Model (scanAgent (demo_agent ''a1'')))
     (Definitions (ex_registry test_Executor) (tool_list (Agent_Tools (scanAgent (demo_agent ''a1''))))) ([tool_turn] @ [textResponse ''done''])"
proof -
  have "map (unpack_message \<circ> pack_message) ms = ms" for ms by (simp add: unpack_message_pack map_idI)
  moreover have "tool_turn \<noteq> textResponse ''done''" by (simp add: tool_turn_def toolCallResponse_def textResponse_def)
  ultimately show ?thesis
    by (simp add: speaks_def test_Executor_def test_wire_def test_json_def unpack_pack scanAgent_def demo_agent_def tool_list_def
        tool_turn_def toolCallResponse_def textResponse_def)
qed

lemma test_facts:
  "fst (AgentStore_Get (ex_pg test_Executor) OwnerUserID (RunRequest_AgentId Dispatch.demo_request) (w_server test_world)) =
     Inr (scanAgent (demo_agent ''a1''))"
  "fst (credentialFor test_Executor (scanAgent (demo_agent ''a1'')) test_world) = Inr ''key''"
  "uuid_in (ex_pg test_Executor) (RunRequest_RunId Dispatch.demo_request) = Some ''r1''" "outcomes (w_server test_world) = []"
  "''r1'' \<in> r_id ` set (runs (tables (w_server test_world)))" "trace ''r1'' test_world = []"
  "Agent_ContextMode (scanAgent (demo_agent ''a1'')) = ContextFresh" "ContextFresh \<noteq> ContextLastN"
  "Agent_MaxDurationSeconds (scanAgent (demo_agent ''a1'')) = 600" "Agent_MaxSteps (scanAgent (demo_agent ''a1'')) = 3"
  "Agent_MaxTokens (scanAgent (demo_agent ''a1'')) = 1000"
  "plays (fst (w_net test_world)) ([tool_turn] @ [textResponse ''done''])"
  "Fake_Now (NewFake 20) = 20"
  by code_simp+

theorem scripted_run_succeeds_witness:
  "map r_status (runs (tables (w_server test_outcome))) = [RunSucceeded] \<and> map r_output (runs (tables (w_server test_outcome))) = [''done''] \<and>
   map r_prompt_tokens (runs (tables (w_server test_outcome))) = [24] \<and> length (requestsReceived (fst (w_net test_outcome))) = 2 \<and>
   authorizationSeen (fst (w_net test_outcome)) = ''Bearer key'' \<and> answers ''r1'' test_outcome = [[], ''done'']"
proof -
  let ?agent = "scanAgent (demo_agent ''a1'')"
  have "map r_id (runs (tables (w_server test_outcome))) = [''r1'']" by code_simp
  then obtain r where r: "runs (tables (w_server test_outcome)) = [r]" "r_id r = ''r1''" by auto
  have "test_executor quiet_net demo_decoders None demo_config test_json test_Executor"
    by (simp add: test_executor_def test_Executor_def)
  from scripted_run_succeeds [OF this, where run = Dispatch.demo_request and u = "''r1''" and w = test_world and agent = ?agent
      and key = "''key''" and asking = "[tool_turn]" and final = "textResponse ''done''" and clk = "NewFake 20" and w' = test_outcome,
      OF _ _ _ _ test_facts(1) _ test_facts(2) _ _ test_speaks]
  have "r_status r = RunSucceeded \<and> r_output r = ''done'' \<and> r_prompt_tokens r = 24 \<and>
      (\<exists>messages. answered ''r1'' ?agent ''key'' (Definitions (ex_registry test_Executor) (tool_list (Agent_Tools ?agent))) messages
         ([tool_turn] @ [textResponse ''done'']) test_world test_outcome)"
    using test_facts(3-) r
    by (auto simp: run_ended_def test_outcome_def test_Executor_def said_def tool_turn_def textResponse_def toolCallResponse_def fair_usage_def steps_of_def
        prompt_spent_def completion_spent_def)
  moreover have "answers ''r1'' test_world = []" "requestsReceived (fst (w_net test_world)) = []"
    by code_simp+
  ultimately show ?thesis
    using r by (auto simp: answered_def said_def tool_turn_def textResponse_def toolCallResponse_def)
qed






text \<open>The same agent and a provider that refuses its key.\<close>

definition refusing_world :: "(fakeModel \<times> nat) world" where
  "refusing_world = test_world\<lparr>w_net := (failWithStatus 401 newFakeModel, 0)\<rparr>"

definition refused_outcome :: "(fakeModel \<times> nat) world" where
  "refused_outcome = executeRun (report_to demo_pg 20) (Execute test_Executor) Dispatch.demo_request (read_from (NewFake 20) refusing_world)"

lemma refusing_facts:
  "fst (AgentStore_Get (ex_pg test_Executor) OwnerUserID (RunRequest_AgentId Dispatch.demo_request) (w_server refusing_world)) =
     Inr (scanAgent (demo_agent ''a1''))"
  "fst (credentialFor test_Executor (scanAgent (demo_agent ''a1'')) refusing_world) = Inr ''key''"
  "outcomes (w_server refusing_world) = []" "''r1'' \<in> r_id ` set (runs (tables (w_server refusing_world)))" "trace ''r1'' refusing_world = []"
  "map r_id (runs (tables (w_server refused_outcome))) = [''r1'']" "calls (newFakeModel :: fakeModel) = 0"
  by code_simp+

theorem rejected_run_fails_witness:
  "map r_status (runs (tables (w_server refused_outcome))) = [RunFailed] \<and>
   map r_error (runs (tables (w_server refused_outcome))) = [Error (rejection 401)] \<and> calls (fst (w_net refused_outcome)) = 1"
proof -
  let ?agent = "scanAgent (demo_agent ''a1'')"
  have e: "test_executor quiet_net demo_decoders None demo_config test_json test_Executor"
    by (simp add: test_executor_def test_Executor_def)
  obtain r where r: "runs (tables (w_server refused_outcome)) = [r]" "r_id r = ''r1''" using refusing_facts(6) by auto
  have "''r1'' \<in> r_id ` set (runs (tables (w_server refused_outcome))) \<and>
    (\<forall>r \<in> set (runs (tables (w_server refused_outcome))). r_id r = ''r1'' \<longrightarrow>
      r_status r = RunFailed \<and> r_error r = Error (rejection 401)) \<and> calls (fst (w_net refused_outcome)) = calls newFakeModel + 1"
    by (rule rejected_run_fails [OF e test_facts(3) refusing_facts(3-5,1) _ refusing_facts(2), where clk = "NewFake 20"])
      (use test_facts(7-11,13) in \<open>simp_all add: refusing_world_def refused_outcome_def test_Executor_def test_wire_def StatusOK_def\<close>)
  then show ?thesis using r refusing_facts(7) by simp
qed

end
