(* ===== verification/Pool_Locking.thy ===== *)
theory Pool_Locking
  imports Dispatch
begin

text \<open>
  The pool of workers at the grain of its two locks. \<open>SendHeartbeat\<close> and \<open>removeInactiveWorkers\<close>
  hold \<open>WorkerPoolMutex\<close> from beginning to end, but change the map before they take
  \<open>WorkerPoolKeysMutex\<close> to rebuild the keys; \<open>getNextWorker\<close> takes only the latter, for reading, and
  so runs between any two of their steps.
\<close>

section \<open>The steps\<close>

text \<open>
  Where the holder of \<open>WorkerPoolMutex\<close> is: nobody holds it; a heartbeat has entered worker \<open>k\<close> and
  not yet rebuilt the keys; a sweep is before the next of the workers it has still to visit; a
  sweep has deleted worker \<open>k\<close> and not yet rebuilt the keys.
\<close>

datatype holder = Free | Registering "32 word" | Sweeping "32 word list" | Rekeying "32 word" "32 word list"

definition rebuild_keys :: "range_order \<Rightarrow> CoordinatorServer \<Rightarrow> CoordinatorServer" where
  "rebuild_keys order c = c\<lparr>WorkerPoolKeys := order (map fst (WorkerPool c))\<rparr>"

definition enter_worker :: "32 word \<Rightarrow> workerInfo \<Rightarrow> CoordinatorServer \<Rightarrow> CoordinatorServer" where
  "enter_worker k w c = c\<lparr>WorkerPool := AList.update k w (WorkerPool c)\<rparr>"

definition delete_worker :: "32 word \<Rightarrow> CoordinatorServer \<Rightarrow> CoordinatorServer" where
  "delete_worker k c = c\<lparr>WorkerPool := AList.delete k (WorkerPool c)\<rparr>"

inductive pool_action :: "holder \<times> CoordinatorServer \<Rightarrow> holder \<times> CoordinatorServer \<Rightarrow> bool" where
  beat_known: "map_of (WorkerPool c) k = Some w \<Longrightarrow>
    pool_action (Free, c) (Free, enter_worker k (w\<lparr>heartbeatMisses := 0\<rparr>) c)"
| beat_register: "map_of (WorkerPool c) k = None \<Longrightarrow>
    pool_action (Free, c) (Registering k, enter_worker k \<lparr>heartbeatMisses = 0, worker_address = address\<rparr> c)"
| beat_keys: "range_perm order \<Longrightarrow> pool_action (Registering k, c) (Free, rebuild_keys order c)"
| sweep_begin: "range_perm order \<Longrightarrow> pool_action (Free, c) (Sweeping (order (map fst (WorkerPool c))), c)"
| sweep_miss: "map_of (WorkerPool c) k = Some w \<Longrightarrow> \<not> heartbeatMisses w > maxHeartbeatMisses c \<Longrightarrow>
    pool_action (Sweeping (k # ids), c) (Sweeping ids, enter_worker k (w\<lparr>heartbeatMisses := heartbeatMisses w + 1\<rparr>) c)"
| sweep_delete: "map_of (WorkerPool c) k = Some w \<Longrightarrow> heartbeatMisses w > maxHeartbeatMisses c \<Longrightarrow>
    pool_action (Sweeping (k # ids), c) (Rekeying k ids, delete_worker k c)"
| sweep_keys: "range_perm order \<Longrightarrow> pool_action (Rekeying k ids, c) (Sweeping ids, rebuild_keys order c)"
| sweep_end: "pool_action (Sweeping [], c) (Free, c)"
| choose: "pool_action (h, c) (h, snd (getNextWorker c))"

inductive_cases pool_actionE: "pool_action x y"

section \<open>The invariant\<close>

text \<open>What holds wherever the holder is, and how the keys relate to the map at each of its places.\<close>

definition counters_wf :: "CoordinatorServer \<Rightarrow> bool" where
  "counters_wf c \<longleftrightarrow> maxHeartbeatMisses c = defaultMaxMisses \<and>
     distinct (map fst (WorkerPool c)) \<and> distinct (WorkerPoolKeys c) \<and>
     (\<forall>w \<in> snd ` set (WorkerPool c). heartbeatMisses w \<le> defaultMaxMisses + 1)"

definition registered :: "CoordinatorServer \<Rightarrow> 32 word set" where
  "registered c = fst ` set (WorkerPool c)"

fun keys_match :: "holder \<Rightarrow> CoordinatorServer \<Rightarrow> bool" where
  "keys_match Free c \<longleftrightarrow> set (WorkerPoolKeys c) = registered c"
| "keys_match (Registering k) c \<longleftrightarrow> k \<notin> set (WorkerPoolKeys c) \<and> registered c = insert k (set (WorkerPoolKeys c))"
| "keys_match (Sweeping ids) c \<longleftrightarrow> set (WorkerPoolKeys c) = registered c"
| "keys_match (Rekeying k ids) c \<longleftrightarrow> k \<notin> registered c \<and> set (WorkerPoolKeys c) = insert k (registered c)"

primrec to_visit :: "holder \<Rightarrow> 32 word list" where
  "to_visit Free = []"
| "to_visit (Registering k) = []"
| "to_visit (Sweeping ids) = ids"
| "to_visit (Rekeying k ids) = ids"

definition locked_wf :: "holder \<times> CoordinatorServer \<Rightarrow> bool" where
  "locked_wf x \<longleftrightarrow> counters_wf (snd x) \<and> keys_match (fst x) (snd x) \<and>
     distinct (to_visit (fst x)) \<and> set (to_visit (fst x)) \<subseteq> registered (snd x)"

lemma pool_wf_counters: "pool_wf c \<longleftrightarrow> counters_wf c \<and> set (WorkerPoolKeys c) = registered c"
  by (auto simp: pool_wf_def counters_wf_def registered_def)

lemma locked_wf_Free: "locked_wf (Free, c) \<longleftrightarrow> pool_wf c"
  by (auto simp: locked_wf_def pool_wf_counters)

lemma registered_ops [simp]:
  "registered (enter_worker k w c) = insert k (registered c)" "registered (delete_worker k c) = registered c - {k}"
  "registered (rebuild_keys order c) = registered c" "registered (snd (getNextWorker c)) = registered c"
  "WorkerPoolKeys (enter_worker k w c) = WorkerPoolKeys c" "WorkerPoolKeys (delete_worker k c) = WorkerPoolKeys c"
  "WorkerPoolKeys (snd (getNextWorker c)) = WorkerPoolKeys c"
  by (simp_all add: registered_def enter_worker_def delete_worker_def rebuild_keys_def fst_update fst_delete getNextWorker_def Let_def)

lemma known_registered: "map_of (WorkerPool c) k = Some w \<Longrightarrow> k \<in> registered c"
  by (force simp: registered_def dest: map_of_SomeD)

lemma unknown_registered: "map_of (WorkerPool c) k = None \<Longrightarrow> k \<notin> registered c"
  by (simp add: registered_def map_of_eq_None_iff)

lemma counters_enter:
  assumes "counters_wf c" and "heartbeatMisses w \<le> defaultMaxMisses + 1"
  shows "counters_wf (enter_worker k w c)"
proof -
  have "heartbeatMisses x \<le> defaultMaxMisses + 1" if "x \<in> snd ` set (AList.update k w (WorkerPool c))" for x
    using that assms by (fastforce simp: counters_wf_def dest: update_entryD)
  then show ?thesis using assms(1) by (simp add: counters_wf_def enter_worker_def distinct_update)
qed

lemma counters_delete: "counters_wf c \<Longrightarrow> counters_wf (delete_worker k c)"
  by (fastforce simp: counters_wf_def delete_worker_def distinct_delete dest: delete_entryD)

lemma counters_rebuild:
  assumes "counters_wf c" and "range_perm order"
  shows "counters_wf (rebuild_keys order c)" and "set (WorkerPoolKeys (rebuild_keys order c)) = registered c"
  using assms range_permD [OF assms(2), of "map fst (WorkerPool c)"]
  by (auto simp: counters_wf_def rebuild_keys_def registered_def)

lemma counters_choose: "counters_wf c \<Longrightarrow> counters_wf (snd (getNextWorker c))"
  unfolding counters_wf_def by (auto simp: getNextWorker_def Let_def)

lemma keys_match_choose: "keys_match h (snd (getNextWorker c)) = keys_match h c"
  by (cases h) simp_all

lemma known_misses: "counters_wf c \<Longrightarrow> \<not> heartbeatMisses w > maxHeartbeatMisses c \<Longrightarrow> heartbeatMisses w + 1 \<le> defaultMaxMisses + 1"
  using bump_misses(1) [of "heartbeatMisses w"] by (simp add: counters_wf_def)

lemma locked_wf_action: "pool_action x y \<Longrightarrow> locked_wf x \<Longrightarrow> locked_wf y"
proof (induction rule: pool_action.induct)
  case (beat_known c k w)
  then have "counters_wf (enter_worker k (w\<lparr>heartbeatMisses := 0\<rparr>) c)" by (intro counters_enter) (simp_all add: locked_wf_def)
  then show ?case using beat_known known_registered [OF beat_known(1)] by (simp add: locked_wf_def insert_absorb)
next
  case (beat_register c k address)
  then have "counters_wf (enter_worker k \<lparr>heartbeatMisses = 0, worker_address = address\<rparr> c)"
    by (intro counters_enter) (simp_all add: locked_wf_def)
  then show ?case using beat_register unknown_registered [OF beat_register(1)] by (simp add: locked_wf_def)
next
  case (beat_keys order k c)
  then show ?case using counters_rebuild [OF _ beat_keys(1), of c] by (simp add: locked_wf_def)
next
  case (sweep_begin order c)
  then show ?case
    using range_permD [OF sweep_begin(1), of "map fst (WorkerPool c)"]
    by (simp add: locked_wf_def counters_wf_def registered_def)
next
  case (sweep_miss c k w ids)
  then have c: "counters_wf c" by (simp add: locked_wf_def)
  have "counters_wf (enter_worker k (w\<lparr>heartbeatMisses := heartbeatMisses w + 1\<rparr>) c)"
    using known_misses [OF c sweep_miss(2)] by (intro counters_enter [OF c]) simp
  then show ?case using sweep_miss known_registered [OF sweep_miss(1)] by (simp add: locked_wf_def insert_absorb)
next
  case (sweep_delete c k w ids)
  then show ?case
    using counters_delete [of c k] known_registered [OF sweep_delete(1)] by (auto simp: locked_wf_def insert_absorb)
next
  case (sweep_keys order k ids c)
  then show ?case using counters_rebuild [OF _ sweep_keys(1), of c] by (simp add: locked_wf_def)
next
  case (sweep_end c)
  then show ?case by (simp add: locked_wf_def)
next
  case (choose h c)
  then show ?case using counters_choose [of c] by (simp add: locked_wf_def keys_match_choose)
qed

interpretation locked_inv: step_invariant "\<lambda>x. x = (Free, NewServerWithClock)" pool_action locked_wf
  by unfold_locales (auto simp: locked_wf_Free pool_wf_init intro: locked_wf_action)

section \<open>The operations as sequences of steps\<close>

text \<open>Undisturbed, the steps of a heartbeat and of a sweep make up the operations of the pool.\<close>

lemma heartbeat_steps:
  assumes "range_perm order"
  shows "pool_action\<^sup>*\<^sup>* (Free, c) (Free, snd (SendHeartbeat order dial req c))"
proof (cases "map_of (WorkerPool c) (Heartbeat_WorkerId req)")
  case None
  show ?thesis
  proof (cases "dial (Heartbeat_Address req)")
    case dialled: None
    let ?c = "enter_worker (Heartbeat_WorkerId req) \<lparr>heartbeatMisses = 0, worker_address = Heartbeat_Address req\<rparr> c"
    have "pool_action\<^sup>*\<^sup>* (Free, c) (Free, rebuild_keys order ?c)"
      using beat_register [OF None, of "Heartbeat_Address req"] beat_keys [OF assms, of _ ?c]
      by (blast intro: converse_rtranclp_into_rtranclp r_into_rtranclp)
    then show ?thesis
      by (simp add: SendHeartbeat_def None dialled Let_def enter_worker_def rebuild_keys_def)
  qed (simp add: SendHeartbeat_def None)
next
  case (Some w)
  from beat_known [OF this] show ?thesis by (simp add: SendHeartbeat_def Some enter_worker_def r_into_rtranclp)
qed

lemma sweep_loop_steps:
  assumes "range_perm order"
  shows "distinct ids \<Longrightarrow> set ids \<subseteq> registered c \<Longrightarrow> pool_action\<^sup>*\<^sup>* (Sweeping ids, c) (Free, sweep_loop order ids c)"
proof (induction ids arbitrary: c)
  case Nil
  then show ?case by (simp add: r_into_rtranclp sweep_end)
next
  case (Cons k ids)
  from Cons.prems obtain w where w: "map_of (WorkerPool c) k = Some w"
    by (metis insert_subset list.simps(15) not_None_eq unknown_registered)
  show ?case
  proof (cases "heartbeatMisses w > maxHeartbeatMisses c")
    case True
    let ?c = "rebuild_keys order (delete_worker k c)"
    have "pool_action\<^sup>*\<^sup>* (Sweeping (k # ids), c) (Sweeping ids, ?c)"
      using sweep_delete [OF w True, of ids] sweep_keys [OF assms, of k ids "delete_worker k c"]
      by (blast intro: converse_rtranclp_into_rtranclp r_into_rtranclp)
    also have "pool_action\<^sup>*\<^sup>* (Sweeping ids, ?c) (Free, sweep_loop order ids ?c)" by (rule Cons.IH) (use Cons.prems in auto)
    finally show ?thesis by (simp add: w True Let_def rebuild_keys_def delete_worker_def)
  next
    case False
    let ?c = "enter_worker k (w\<lparr>heartbeatMisses := heartbeatMisses w + 1\<rparr>) c"
    have "pool_action (Sweeping (k # ids), c) (Sweeping ids, ?c)" by (rule sweep_miss [OF w False])
    moreover have "pool_action\<^sup>*\<^sup>* (Sweeping ids, ?c) (Free, sweep_loop order ids ?c)" by (rule Cons.IH) (use Cons.prems in auto)
    ultimately show ?thesis using False by (simp add: w enter_worker_def converse_rtranclp_into_rtranclp)
  qed
qed

lemma sweep_steps:
  assumes "range_perm order" and "pool_wf c"
  shows "pool_action\<^sup>*\<^sup>* (Free, c) (Free, removeInactiveWorkers order c)"
proof -
  let ?ids = "order (map fst (WorkerPool c))"
  have "distinct ?ids" "set ?ids \<subseteq> registered c"
    using range_permD [OF assms(1), of "map fst (WorkerPool c)"] assms(2) by (auto simp: pool_wf_def registered_def)
  from sweep_loop_steps [OF assms(1) this] sweep_begin [OF assms(1), of c] show ?thesis
    by (simp add: removeInactiveWorkers_def converse_rtranclp_into_rtranclp)
qed

lemma pool_apply_steps:
  "pool_wf c \<Longrightarrow> event_ok ev \<Longrightarrow> pool_action\<^sup>*\<^sup>* (Free, c) (Free, pool_apply ev c)"
  by (cases ev) (auto intro: heartbeat_steps sweep_steps choose)

lemma pool_events_steps:
  "pool_wf c \<Longrightarrow> \<forall>ev \<in> set evs. event_ok ev \<Longrightarrow> pool_action\<^sup>*\<^sup>* (Free, c) (Free, fold pool_apply evs c)"
proof (induction evs arbitrary: c)
  case (Cons ev evs)
  then have "pool_action\<^sup>*\<^sup>* (Free, pool_apply ev c) (Free, fold pool_apply evs (pool_apply ev c))"
    by (auto intro: pool_wf_apply)
  with pool_apply_steps [of c ev] Cons.prems show ?case by (simp add: rtranclp_trans)
qed simp

section \<open>Properties\<close>

text \<open>
  C24: the worker pool at the grain of its locks. In every state that heartbeats, sweeps and
  choices of a worker can reach, with a choice falling between any two steps of the others, the keys are
  distinct and no miss counter is more than one past what is tolerated; while nobody holds the
  pool's lock, and while a sweep is between two workers, the keys are exactly the registered
  workers; they lack only the worker a heartbeat has just entered, and have too many only the one a sweep has just
  deleted. Hence, while there are keys and fewer than 2^32 of them, a choice is never out of range and gives a registered
  worker, except in that last window and on that one key, where it gives nil.
\<close>

theorem worker_pool_under_locks:
  assumes "pool_action\<^sup>*\<^sup>* (Free, NewServerWithClock) (h, c)"
  shows "distinct (WorkerPoolKeys c) \<and> (\<forall>w \<in> snd ` set (WorkerPool c). heartbeatMisses w \<le> defaultMaxMisses + 1) \<and>
    (case h of
       Free \<Rightarrow> set (WorkerPoolKeys c) = fst ` set (WorkerPool c)
     | Sweeping ids \<Rightarrow> set (WorkerPoolKeys c) = fst ` set (WorkerPool c)
     | Registering k \<Rightarrow> k \<notin> set (WorkerPoolKeys c) \<and> fst ` set (WorkerPool c) = insert k (set (WorkerPoolKeys c))
     | Rekeying k ids \<Rightarrow> k \<notin> fst ` set (WorkerPool c) \<and> set (WorkerPoolKeys c) = insert k (fst ` set (WorkerPool c))) \<and>
    (WorkerPoolKeys c \<noteq> [] \<longrightarrow> length (WorkerPoolKeys c) < 2 ^ 32 \<longrightarrow>
       (let i = unat (roundRobinIndex c mod of_nat (length (WorkerPoolKeys c))) in
        i < length (WorkerPoolKeys c) \<and>
        (\<forall>w. fst (getNextWorker c) = Some w \<longrightarrow> (WorkerPoolKeys c ! i, w) \<in> set (WorkerPool c)) \<and>
        (fst (getNextWorker c) = None \<longleftrightarrow> (\<exists>ids. h = Rekeying (WorkerPoolKeys c ! i) ids))))"
proof -
  have wf: "locked_wf (h, c)" using locked_inv.reachable_inv [OF refl assms] .
  have keys: "keys_match h c" and cw: "counters_wf c" using wf by (simp_all add: locked_wf_def)
  have next_ok: "i < length (WorkerPoolKeys c) \<and>
      (\<forall>w. fst (getNextWorker c) = Some w \<longrightarrow> (WorkerPoolKeys c ! i, w) \<in> set (WorkerPool c)) \<and>
      (fst (getNextWorker c) = None \<longleftrightarrow> (\<exists>ids. h = Rekeying (WorkerPoolKeys c ! i) ids))"
    if ne: "WorkerPoolKeys c \<noteq> []" and len: "length (WorkerPoolKeys c) < 2 ^ 32"
      and i: "i = unat (roundRobinIndex c mod of_nat (length (WorkerPoolKeys c)))" for i
  proof -
    have in_range: "i < length (WorkerPoolKeys c)" using index_in_range [OF ne len] i by simp
    have nxt: "fst (getNextWorker c) = map_of (WorkerPool c) (WorkerPoolKeys c ! i)"
      using ne by (simp add: getNextWorker_def Let_def i)
    have "\<exists>ids. h = Rekeying (WorkerPoolKeys c ! i) ids" if "map_of (WorkerPool c) (WorkerPoolKeys c ! i) = None"
      using unknown_registered [OF that] nth_mem [OF in_range] keys by (cases h) auto
    moreover have "map_of (WorkerPool c) k = None" if "h = Rekeying k ids" for k ids
      using keys that by (simp add: registered_def map_of_eq_None_iff)
    ultimately show ?thesis using in_range by (auto simp: nxt dest: map_of_SomeD)
  qed
  have "case h of
       Free \<Rightarrow> set (WorkerPoolKeys c) = fst ` set (WorkerPool c)
     | Sweeping ids \<Rightarrow> set (WorkerPoolKeys c) = fst ` set (WorkerPool c)
     | Registering k \<Rightarrow> k \<notin> set (WorkerPoolKeys c) \<and> fst ` set (WorkerPool c) = insert k (set (WorkerPoolKeys c))
     | Rekeying k ids \<Rightarrow> k \<notin> fst ` set (WorkerPool c) \<and> set (WorkerPoolKeys c) = insert k (fst ` set (WorkerPool c))"
    using keys by (cases h) (simp_all add: registered_def)
  with cw next_ok [OF _ _ refl] show ?thesis by (simp add: counters_wf_def Let_def)
qed

text \<open>
  Two workers, of which the first has gone silent: two sweeps have passed over it, and the third,
  which began with it, has deleted it and not yet rebuilt the keys.
\<close>

definition second_beat :: HeartbeatRequest where
  "second_beat = \<lparr>Heartbeat_WorkerId = 8, Heartbeat_Address = ''w8:9000''\<rparr>"

definition before_sweep :: CoordinatorServer where
  "before_sweep = fold pool_apply
     [Beat (\<lambda>ks. ks) (\<lambda>_. None) demo_beat, Beat (\<lambda>ks. ks) (\<lambda>_. None) second_beat, Sweep (\<lambda>ks. ks),
      Beat (\<lambda>ks. ks) (\<lambda>_. None) second_beat, Sweep (\<lambda>ks. ks)] NewServerWithClock"

definition mid_sweep :: CoordinatorServer where
  "mid_sweep = delete_worker 7 before_sweep"

lemma mid_sweep_reached: "pool_action\<^sup>*\<^sup>* (Free, NewServerWithClock) (Rekeying 7 [8], mid_sweep)"
proof -
  have keys: "map fst (WorkerPool before_sweep) = [7, 8]"
    and misses: "map (heartbeatMisses \<circ> snd) (WorkerPool before_sweep) = [2, 1]" "maxHeartbeatMisses before_sweep = 1"
    by code_simp+
  from keys misses obtain w where w: "map_of (WorkerPool before_sweep) 7 = Some w" "heartbeatMisses w = 2" by auto
  have "pool_action\<^sup>*\<^sup>* (Free, NewServerWithClock) (Free, before_sweep)"
    unfolding before_sweep_def by (rule pool_events_steps) (simp_all add: pool_wf_init range_perm_id)
  moreover have "pool_action (Free, before_sweep) (Sweeping [7, 8], before_sweep)"
    using sweep_begin [OF range_perm_id, of before_sweep] keys by simp
  moreover have "pool_action (Sweeping [7, 8], before_sweep) (Rekeying 7 [8], mid_sweep)"
    unfolding mid_sweep_def by (rule sweep_delete [OF w(1)]) (simp add: w(2) misses(2))
  ultimately show ?thesis by (meson rtranclp.rtrancl_into_rtrancl)
qed

theorem worker_pool_under_locks_witness:
  "\<exists>h. pool_action\<^sup>*\<^sup>* (Free, NewServerWithClock) (h, mid_sweep) \<and> WorkerPoolKeys mid_sweep = [7, 8] \<and>
     map fst (WorkerPool mid_sweep) = [8] \<and> fst (getNextWorker mid_sweep) = None \<and> (\<exists>ids. h = Rekeying 7 ids)"
proof -
  have m: "WorkerPoolKeys mid_sweep = [7, 8]" "map fst (WorkerPool mid_sweep) = [8]" "roundRobinIndex mid_sweep = 0"
    "map_option worker_address (fst (getNextWorker mid_sweep)) = None"
    by code_simp+
  then have "fst (getNextWorker mid_sweep) = None" by simp
  with worker_pool_under_locks [OF mid_sweep_reached] m mid_sweep_reached show ?thesis by (auto simp: Let_def)
qed

text \<open>
  What comes of nil: a run offered in that window is refused as if there were no workers, and no
  worker is asked, although one is registered and would take it.
\<close>

theorem offer_in_sweep_window_finds_no_worker:
  "\<exists>h c. pool_action\<^sup>*\<^sup>* (Free, NewServerWithClock) (h, c) \<and> map fst (WorkerPool c) = [8] \<and>
     (\<exists>c'. offerRunToWorker only_c demo_request c [] = (Inl noWorkers, c', []))"
proof -
  have "map fst (WorkerPool mid_sweep) = [8]"
    "fst (offerRunToWorker only_c demo_request mid_sweep []) = Inl noWorkers"
    "snd (snd (offerRunToWorker only_c demo_request mid_sweep [])) = []"
    by code_simp+
  then show ?thesis using mid_sweep_reached by (metis prod.collapse)
qed

end
