(* ===== verification/Spec2Isabelle.thy ===== *)
theory Spec2Isabelle
  imports Lease Lifecycle Scanner Progress History Fake_Model Pool_Locking
begin

text \<open>
  Taskd runs agents on a schedule. This development models the Go sources under \<open>src/pkg\<close> and
  \<open>src/cmd\<close>, with the scripted provider of \<open>src/tests\<close>, and proves what makes them work together.

  \<^bold>\<open>The program.\<close> Three services share one Postgres database. The \<^emph>\<open>scheduler\<close> serves the dashboard
  and a REST API behind a session (\<open>pkg/scheduler\<close>); on start it migrates the schema (\<open>pkg/db\<close>).
  The \<^emph>\<open>coordinator\<close> (\<open>pkg/coordinator\<close>) ticks every few seconds: due schedules become runs
  (\<open>pkg/materializer\<close>), due runs are offered to workers round robin, runs whose lease ended are
  failed (\<open>pkg/reaper\<close>), and failing agents are reported (\<open>pkg/notifier\<close>). It learns of workers by
  heartbeat, and a worker reports what became of a run and renews its lease. A \<^emph>\<open>worker\<close>
  (\<open>pkg/worker\<close>) queues runs, up to a bound, and executes each with the tool-calling loop of
  \<open>pkg/executor\<close>: a model endpoint (\<open>pkg/llm\<close>) asks for tools (\<open>pkg/tools\<close>), which are carried out
  if the agent was granted them and recorded as steps. Every service reads and writes through
  \<open>pkg/store\<close>; credentials are sealed by \<open>pkg/secretbox\<close>.

  \<^bold>\<open>Theories and sources.\<close>
  \<^item> \<open>Taskd_Prelude\<close>: instants, Go errors, Go string functions, rows of a table, \<open>step_invariant\<close>.
  \<^item> \<open>Taskd_Model\<close>: \<open>pkg/model\<close>. \<open>Database\<close>: the tables of \<open>pkg/db/migrations\<close>, statements, how a
    call ends, transactions. \<open>Migrations\<close>: \<open>pkg/db/migrate.go\<close>.
  \<^item> \<open>Run_Store\<close>, \<open>Agent_Store\<close>, \<open>Secret_Store\<close>, \<open>Sessions\<close>, \<open>Memory\<close>: \<open>pkg/store\<close>, the last with
    \<open>tools/memory.go\<close>. \<open>Base64\<close>, \<open>Secretbox\<close>: \<open>pkg/secretbox\<close>.
  \<^item> \<open>Cron_Schedule\<close>: \<open>pkg/schedule\<close>. \<open>Materializer\<close>, \<open>Reaper\<close>, \<open>Notifier\<close>: the packages of that name.
  \<^item> \<open>Grpc_Api\<close>: \<open>api.proto\<close>. \<open>Coordinator\<close>, \<open>Worker_Pool\<close>, \<open>Dispatch\<close>: \<open>coordinator.go\<close> by concern:
    reports and leases, the pool of workers, dispatch. \<open>Pool_Locking\<close>: the pool again, at the grain of its
    two locks. \<open>Worker\<close>, \<open>Lease\<close>: \<open>worker.go\<close>.
  \<^item> \<open>Json\<close>, \<open>Http\<close>, \<open>Llm\<close>, \<open>Tools\<close>, \<open>Fetch_Tools\<close>, \<open>Delivery\<close>, \<open>Toolset\<close>: the model client and the
    tools. \<open>Executor\<close>: \<open>pkg/executor\<close>.
  \<^item> \<open>Mux\<close>, \<open>Api\<close>: \<open>net/http\<close> routing as used, and \<open>pkg/scheduler\<close> with \<open>pkg/dashboard\<close>. \<open>Api_Logic\<close>,
    \<open>Api_Invariants\<close>, \<open>Api_Properties\<close>: what is proved of every request.
  \<^item> \<open>Services\<close>: \<open>pkg/common\<close>, probes, start of the scheduler, what a worker is built from, the tick,
    the heartbeat goroutine. \<open>Lifecycle\<close>: \<open>pkg/health\<close>, \<open>Start\<close> and \<open>Stop\<close> of the services, the commands.
  \<^item> \<open>Database_Invariants\<close>: what has to be shown of each statement for an invariant to hold under all
    services. \<open>Integrity\<close>, \<open>System\<close>: the invariant of the database and everything that writes to it as
    one step relation. \<open>History\<close>: what no step takes back. \<open>Scanner\<close>: the coordinator's goroutines
    interleaved. \<open>Progress\<close>: one tick end to end.
  \<^item> \<open>Fake_Model\<close>: \<open>tests/fake_model.go\<close> and the \<open>Fake\<close> of \<open>pkg/clock\<close>, and whole runs against them.
  \<^item> \<open>Fixtures\<close>: a small concrete installation on which the witnesses evaluate the model.

  \<^bold>\<open>How state and operations correspond.\<close> A struct is a record, a set of constants a datatype or named
  strings as in the source, a table the list of its rows. An operation on the database takes a
  \<open>server\<close> and returns a result and the server after it. How each call ends is part of the server
  (\<open>outcomes\<close>): served, refused, or carried out without the client hearing of it; an empty list
  means that calls are served. A transaction keeps the tables as they were to roll back to and is
  failed by its first error. \<open>FOR UPDATE SKIP LOCKED\<close> is the argument \<open>locked\<close>, the rows other
  transactions hold. Statements are atomic; a handler is the sequence of its statements. \<open>System\<close>
  interleaves requests, the parts of a tick, reports and the single writes of executors; \<open>Scanner\<close> the
  coordinator's goroutines, a part of a tick or a sweep at a time; \<open>Pool_Locking\<close> the steps of heartbeats and sweeps with
  choices of a worker; \<open>Worker\<close> the goroutines of a worker. A call of \<open>SubmitRun\<close> ends by a list of outcomes as
  well (\<open>rpc_submit\<close>): answered, not delivered, or carried out and the answer lost. A body read over HTTP may break off with
  an error. Errors are values
  (\<open>go_error\<close>, results \<open>Inl\<close> or \<open>Inr\<close>); a panic is a value where the code can panic. Instants are
  microseconds, as Postgres stores them; counters that wrap (\<open>roundRobinIndex\<close>, token counts of a
  report) are words of their width. ORDER BY is a stable sort, strings compare by bytes.

  \<^bold>\<open>Parameters.\<close> Code that is not in the repository is an argument: the cron library and the timezone
  database (\<open>time_env\<close>), the identifiers and uuid syntax of Postgres (\<open>postgres\<close>), what a migration's
  text does, AES-GCM, bcrypt, random bytes, decoding of JSON bodies, DNS and URL parsing (\<open>net\<close>), HTTP
  endpoints, gRPC dialling and \<open>GracefulStop\<close>, \<open>net.Listen\<close>, the environment, readings of the clock.
  What is relied on is a named hypothesis (\<open>spec_later\<close>, \<open>gcm_correct\<close>, \<open>url_faithful\<close> and the like) and met by the fixture.

  \<^bold>\<open>Interfaces.\<close> \<open>row_update\<close> and \<open>statement\<close> are what an UPDATE and a statement promise; \<open>step_invariant\<close>
  gives reachability; \<open>server_invariant\<close>, \<open>statements_keep\<close> and \<open>api_contract\<close> reduce a claim about
  every request to one about the statements, \<open>all_statements_keep\<close> one about every step of the system
  (interpreted twice, for soundness and for history); \<open>tool_frame\<close>, \<open>executor_frame\<close> and \<open>net_frame\<close> do
  so for a run and its tools;
  \<open>worker_service\<close> (which counts the answers that get lost) and \<open>roomy_service\<close> are what dispatch relies on
  in workers behind an RPC. Each is interpreted on the model's definitions.

  \<^bold>\<open>What is shown.\<close>
  \<^item> The whole system: from a migrated database every reachable one has unique keys, valid references
    and consistent runs; runs and the steps of their traces are there until their agent is deleted, and
    what happened to a run is not taken back; runs of agents, ticks and overlapping ticks are sequences
    of its steps.
  \<^item> Schedules: one run for each due schedule, all or nothing, and none twice; the walk over missed
    fire times ends with the latest, within its bound; a due schedule is running on a
    worker, with its lease, when its tick ends, if calls are answered, the clock behaves and a worker has room.
  \<^item> Dispatch and workers: only due pending runs are marked, every one of them is queued by a worker, and
    what workers queue beyond them is due to answers lost on the way; no
    accepted run is lost in a worker; an orderly shutdown strands none; a lease survives three lost
    renewals; the pool of workers stays consistent between any two steps of its operations, up to the one key
    whose worker is being entered or deleted, and silent workers leave it.
  \<^item> Runs: budgets hold, the trace is complete and in order, a tool that was not granted has no
    influence, a report ends the run as it says. A run whose model answers within its budgets
    succeeds with that answer, one whose model never stops asking for tools is stopped, with any clock, and
    one whose provider rejects its call fails after that call.
  \<^item> The API: closed without a session, a refused request changes nothing, only valid agents are
    stored, a stored agent reads back, a preview shows what saving stores; the scheduler starts only
    migrated and with a password.
  \<^item> Data: sealing round trips, memory keeps the newest records, messages are split with only line breaks lost
    at the boundaries, deleting an agent takes what is its own and nothing else, migrations apply once
    and in order. The tools that take a URL from the model send a request only after its host was resolved to
    addresses the policy allows; the transport resolves it once more when it connects, and that is not checked.
  \<^item> Behaviour that surprises: a long outage parks a schedule for good, a failing update dispatches twice, an
    offer in the middle of a sweep may find no worker, a
    late report revives a run, a queued run is reaped, one lost heartbeat silences a worker, calls
    panic while the coordinator connects, and its clean shutdown ends with an error.

  \<^bold>\<open>Termination and bounds.\<close> No fuel is used: every loop is structural or has a measure. Loops the code
  bounds keep its bound (five attempts to connect, five redirects, a hundred thousand fire times,
  the steps of an agent), and goroutines that run until they are cancelled are step relations or
  folds over events.

  \<^bold>\<open>Not modelled.\<close> Flag parsing and waiting for a signal (flags are arguments, \<open>Stop\<close> is the signal);
  the gRPC transport and the code generated for it; the dashboard's files; encodings of text;
  log output; data races as such (an unsynchronised read sees the value before or after a write); timeouts of
  contexts, which appear as calls that end in an error; the containers and processes of the integration tests.
  Simplified: the parts of a tick and the dispatch with its RPCs are one step in \<open>System\<close> and \<open>Scanner\<close>; no other writer
  comes between the insert and the pruning of \<open>MemoryStore_Write\<close>; \<open>consecutive_failures\<close> does not overflow its column;
  ties of an ORDER BY are settled by the order of the rows, which SQL leaves open; the rows the migrations insert are
  assumed of the tables (\<open>migrated_database\<close>) and not derived from the text of the files, also when the scheduler
  starts; \<open>coordinator_Stop\<close> does not show that the pool's mutex is held while \<open>GracefulStop\<close> waits; the JSON of the test
  provider is taken to round trip (\<open>speaks\<close>), as it does for valid text.
\<close>

end
